(* ===== verification/Prelude.thy ===== *)
theory Prelude
  imports Main
begin

section \<open>Shared vocabulary of the development\<close>

text \<open>
  What every component theory builds on: the rewrite collections, the fragments of Python's
  string and list semantics the sources use (slices, \<^verbatim>\<open>split\<close>, \<^verbatim>\<open>join\<close>, \<^verbatim>\<open>range\<close>,
  \<^verbatim>\<open>strip\<close>), exceptions as values, and the state-and-exception functions in which the
  effectful code is written.

  Markdown is Python text, that is, a list of Unicode code points; keys, identifiers,
  statuses and error messages are HOL strings.
\<close>

named_theorems py_simps \<open>Python list and string primitives on concrete data\<close>
named_theorems io_simps \<open>state-and-exception combinators\<close>

type_synonym pytext = "nat list"  \<comment> \<open>a Python str, as its list of code points\<close>

subsection \<open>Slices\<close>

text \<open>\<^verbatim>\<open>xs[:n]\<close> and \<^verbatim>\<open>xs[n:]\<close>, where a negative bound counts from the end.\<close>

definition slice_bound :: "int \<Rightarrow> 'a list \<Rightarrow> nat" where
  "slice_bound n xs = (if n < 0 then nat (max 0 (int (length xs) + n)) else nat n)"

definition slice_to :: "int \<Rightarrow> 'a list \<Rightarrow> 'a list" where
  "slice_to n xs = take (slice_bound n xs) xs"

definition slice_from :: "int \<Rightarrow> 'a list \<Rightarrow> 'a list" where
  "slice_from n xs = drop (slice_bound n xs) xs"

text \<open>\<^verbatim>\<open>xs[a:b]\<close>.\<close>

definition py_slice :: "int \<Rightarrow> int \<Rightarrow> 'a list \<Rightarrow> 'a list" where
  "py_slice a b xs = drop (slice_bound a xs) (take (slice_bound b xs) xs)"

lemma slice_to_from_id [simp]: "slice_to n xs @ slice_from n xs = xs"
  by (simp add: slice_to_def slice_from_def)

lemma slice_to_nonneg: "0 \<le> n \<Longrightarrow> slice_to n xs = take (nat n) xs"
  by (simp add: slice_to_def slice_bound_def)

lemma slice_from_nonneg: "0 \<le> n \<Longrightarrow> slice_from n xs = drop (nat n) xs"
  by (simp add: slice_from_def slice_bound_def)

lemma slice_nonneg: "0 \<le> a \<Longrightarrow> 0 \<le> b \<Longrightarrow> py_slice a b xs = drop (nat a) (take (nat b) xs)"
  by (simp add: py_slice_def slice_bound_def)

lemma length_slice_to_le: "0 \<le> n \<Longrightarrow> int (length (slice_to n xs)) \<le> n"
  by (simp add: slice_to_nonneg)

lemma drop_take_adjacent: "a \<le> b \<Longrightarrow> drop a (take b ys) @ drop b ys = drop a ys"
  by (metis append_take_drop_id drop_append drop_eq_Nil le_add_diff_inverse length_take
      min.cobounded2 min_def diff_is_0_eq drop0 drop_all nle_le)

lemma slice_adjacent:
  assumes "0 \<le> a" "a \<le> b" "b \<le> c"
  shows "py_slice a b xs @ py_slice b c xs = py_slice a c xs"
proof -
  have "take (nat b) xs = take (nat b) (take (nat c) xs)"
    using assms by (simp add: min_absorb1 nat_mono)
  then show ?thesis
    using assms drop_take_adjacent [of "nat a" "nat b" "take (nat c) xs"]
    by (simp add: slice_nonneg nat_mono)
qed

subsection \<open>split and join\<close>

text \<open>
  \<^verbatim>\<open>s.split(sep)\<close>: the pieces between the leftmost non-overlapping occurrences of a non-empty
  separator. The sources only split on non-empty literals, where Python does not raise.
\<close>

function py_split :: "'a list \<Rightarrow> 'a list \<Rightarrow> 'a list list" where
  "py_split sep s =
     (if sep \<noteq> [] \<and> take (length sep) s = sep
      then [] # py_split sep (drop (length sep) s)
      else case s of
        [] \<Rightarrow> [[]]
      | c # cs \<Rightarrow> (case py_split sep cs of [] \<Rightarrow> [[c]] | b # bs \<Rightarrow> (c # b) # bs))"
  by pat_completeness auto
termination
proof (relation "measure (\<lambda>(sep, s). length s)")
  show "wf (measure (\<lambda>(sep, s). length s))" by simp
next
  fix sep s :: "'a list"
  assume "sep \<noteq> [] \<and> take (length sep) s = sep"
  then have "sep \<noteq> []" and "s \<noteq> []" by auto
  then show "((sep, drop (length sep) s), (sep, s)) \<in> measure (\<lambda>(sep, s). length s)"
    by (simp add: diff_less)
next
  fix sep s cs :: "'a list" and c
  assume "s = c # cs"
  then show "((sep, cs), (sep, s)) \<in> measure (\<lambda>(sep, s). length s)" by simp
qed

declare py_split.simps [simp del]

text \<open>\<^verbatim>\<open>sep.join(pieces)\<close>.\<close>

fun py_join :: "'a list \<Rightarrow> 'a list list \<Rightarrow> 'a list" where
  "py_join sep [] = []"
| "py_join sep [x] = x"
| "py_join sep (x # y # ys) = x @ sep @ py_join sep (y # ys)"

lemma py_split_not_Nil [simp]: "py_split sep s \<noteq> []"
  by (subst py_split.simps) (auto split: list.splits)

lemma py_join_Cons: "xs \<noteq> [] \<Longrightarrow> py_join sep (x # xs) = x @ sep @ py_join sep xs"
  by (cases xs) auto

lemma py_join_Cons_append: "py_join sep ((c # b) # bs) = c # py_join sep (b # bs)"
  by (cases bs) auto

text \<open>Joining the pieces with the separator they were split on gives the text back.\<close>

lemma py_join_split: "py_join sep (py_split sep s) = s"
proof (induction sep s rule: py_split.induct)
  case (1 sep s)
  show ?case
  proof (cases "sep \<noteq> [] \<and> take (length sep) s = sep")
    case True
    then have "py_join sep (py_split sep s) = sep @ drop (length sep) s"
      using "1.IH"(1) by (subst py_split.simps) (simp add: py_join_Cons)
    also have "\<dots> = s" using True by (metis append_take_drop_id)
    finally show ?thesis .
  next
    case False
    show ?thesis
    proof (cases s)
      case Nil
      with False show ?thesis by (subst py_split.simps) auto
    next
      case (Cons c cs)
      obtain b bs where bs: "py_split sep cs = b # bs"
        by (meson list.exhaust py_split_not_Nil)
      with "1.IH"(2) [OF False Cons] have "py_join sep (b # bs) = cs" by simp
      with False Cons bs show ?thesis
        by (subst py_split.simps) (auto simp: py_join_Cons_append)
    qed
  qed
qed

subsection \<open>range, enumerate and strip\<close>

text \<open>\<^verbatim>\<open>range(start, stop, step)\<close> for a positive step, the only kind the sources use.\<close>

function py_range :: "int \<Rightarrow> int \<Rightarrow> int \<Rightarrow> int list" where
  "py_range start stop step =
     (if 0 < step \<and> start < stop then start # py_range (start + step) stop step else [])"
  by pat_completeness auto
termination
  by (relation "measure (\<lambda>(start, stop, step). nat (stop - start))") auto

declare py_range.simps [simp del]

text \<open>\<^verbatim>\<open>enumerate(xs, start)\<close>.\<close>

fun py_enumerate :: "int \<Rightarrow> 'a list \<Rightarrow> (int \<times> 'a) list" where
  "py_enumerate n [] = []"
| "py_enumerate n (x # xs) = (n, x) # py_enumerate (n + 1) xs"

lemma length_py_enumerate [simp]: "length (py_enumerate n xs) = length xs"
  by (induction xs arbitrary: n) auto

lemma map_snd_py_enumerate [simp]: "map snd (py_enumerate n xs) = xs"
  by (induction xs arbitrary: n) auto

lemma nth_py_enumerate: "i < length xs \<Longrightarrow> py_enumerate n xs ! i = (n + int i, xs ! i)"
  by (induction xs arbitrary: n i) (auto simp: nth_Cons split: nat.split)

lemma map_fst_py_enumerate: "map fst (py_enumerate n xs) = map (\<lambda>i. n + int i) [0..<length xs]"
  by (rule nth_equalityI) (simp_all add: nth_py_enumerate)

lemma in_py_enumerate_iff:
  "(k, x) \<in> set (py_enumerate n xs) \<longleftrightarrow> n \<le> k \<and> k < n + int (length xs) \<and> x = xs ! nat (k - n)"
proof
  assume "(k, x) \<in> set (py_enumerate n xs)"
  then obtain i where "i < length xs" "(k, x) = (n + int i, xs ! i)"
    by (auto simp: in_set_conv_nth nth_py_enumerate)
  then show "n \<le> k \<and> k < n + int (length xs) \<and> x = xs ! nat (k - n)" by auto
next
  assume k: "n \<le> k \<and> k < n + int (length xs) \<and> x = xs ! nat (k - n)"
  then have "nat (k - n) < length xs" by auto
  with k show "(k, x) \<in> set (py_enumerate n xs)"
    using nth_mem [of "nat (k - n)" "py_enumerate n xs"] by (simp add: nth_py_enumerate)
qed

text \<open>The code points \<^verbatim>\<open>str.isspace\<close> accepts, which \<^verbatim>\<open>str.strip\<close> removes from both ends.\<close>

definition is_space :: "nat \<Rightarrow> bool" where
  "is_space c \<longleftrightarrow> (9 \<le> c \<and> c \<le> 13) \<or> (28 \<le> c \<and> c \<le> 32) \<or> c = 133 \<or> c = 160 \<or> c = 5760
     \<or> (8192 \<le> c \<and> c \<le> 8202) \<or> c = 8232 \<or> c = 8233 \<or> c = 8239 \<or> c = 8287 \<or> c = 12288"

definition py_strip :: "pytext \<Rightarrow> pytext" where
  "py_strip s = rev (dropWhile is_space (rev (dropWhile is_space s)))"

lemma py_strip_eq_Nil: "py_strip s = [] \<longleftrightarrow> list_all is_space s"
proof
  assume "py_strip s = []"
  then have all: "\<forall>x \<in> set (dropWhile is_space s). is_space x"
    by (simp add: py_strip_def)
  have "dropWhile is_space s = []"
  proof (rule ccontr)
    assume ne: "dropWhile is_space s \<noteq> []"
    then have "\<not> is_space (hd (dropWhile is_space s))" by (rule hd_dropWhile)
    with all ne show False by simp
  qed
  then show "list_all is_space s" by (simp add: list_all_iff)
next
  assume "list_all is_space s"
  then have "dropWhile is_space s = []" by (simp add: list_all_iff)
  then show "py_strip s = []" by (simp only: py_strip_def rev.simps dropWhile.simps)
qed

text \<open>\<^verbatim>\<open>s.startswith(p)\<close>, \<^verbatim>\<open>s.endswith(p)\<close>, \<^verbatim>\<open>p in s\<close> and \<^verbatim>\<open>s[len(p):]\<close> behind a prefix test.\<close>

definition starts_with :: "'a list \<Rightarrow> 'a list \<Rightarrow> bool" where
  "starts_with p s \<longleftrightarrow> take (length p) s = p"

definition ends_with :: "'a list \<Rightarrow> 'a list \<Rightarrow> bool" where
  "ends_with p s \<longleftrightarrow> length p \<le> length s \<and> drop (length s - length p) s = p"

fun substring :: "'a list \<Rightarrow> 'a list \<Rightarrow> bool" where
  "substring p [] = (p = [])"
| "substring p (c # cs) = (starts_with p (c # cs) \<or> substring p cs)"

definition remove_prefix :: "'a list \<Rightarrow> 'a list \<Rightarrow> 'a list" where
  "remove_prefix p s = (if starts_with p s then drop (length p) s else s)"

lemma ends_with_append [simp]: "ends_with p (s @ p)"
  by (simp add: ends_with_def)

subsection \<open>Exceptions and effects\<close>

text \<open>
  Exceptions as values, with the class name that \<^verbatim>\<open>type(exc).__name__\<close> gives and the text
  that \<^verbatim>\<open>str(exc)\<close> gives. \<open>AMQPError\<close> stands for every subclass of pika's
  \<^verbatim>\<open>AMQPError\<close>, and \<open>DbError\<close> for the exceptions of the two database drivers.
\<close>

datatype exn =
    ValueError string
  | RuntimeError string
  | TypeError string
  | UnicodeError string
  | OSError string
  | PyException string
  | ClientError (error_code: string) string
  | AMQPError (amqp_class: string) string
  | DbError (db_class: string) string
  | OtherError (other_class: string) string
  | HTTPException (status_code: int) (detail: string)

fun exn_name :: "exn \<Rightarrow> string" where
  "exn_name (ValueError m) = ''ValueError''"
| "exn_name (RuntimeError m) = ''RuntimeError''"
| "exn_name (TypeError m) = ''TypeError''"
| "exn_name (UnicodeError m) = ''UnicodeEncodeError''"
| "exn_name (OSError m) = ''OSError''"
| "exn_name (PyException m) = ''Exception''"
| "exn_name (ClientError c m) = ''ClientError''"
| "exn_name (AMQPError c m) = c"
| "exn_name (DbError c m) = c"
| "exn_name (OtherError c m) = c"
| "exn_name (HTTPException c m) = ''HTTPException''"

fun exn_str :: "exn \<Rightarrow> string" where
  "exn_str (ValueError m) = m"
| "exn_str (RuntimeError m) = m"
| "exn_str (TypeError m) = m"
| "exn_str (UnicodeError m) = m"
| "exn_str (OSError m) = m"
| "exn_str (PyException m) = m"
| "exn_str (ClientError c m) = m"
| "exn_str (AMQPError c m) = m"
| "exn_str (DbError c m) = m"
| "exn_str (OtherError c m) = m"
| "exn_str (HTTPException c m) = m"

text \<open>A pure computation that may raise, and the sequencing of two of them.\<close>

definition sbind :: "exn + 'a \<Rightarrow> ('a \<Rightarrow> exn + 'b) \<Rightarrow> exn + 'b" where
  "sbind r f = (case r of Inl e \<Rightarrow> Inl e | Inr x \<Rightarrow> f x)"

lemma sbind_simps [simp]: "sbind (Inl e) f = Inl e" "sbind (Inr x) f = f x"
  by (simp_all add: sbind_def)

fun smap :: "('a \<Rightarrow> exn + 'b) \<Rightarrow> 'a list \<Rightarrow> exn + 'b list" where
  "smap f [] = Inr []"
| "smap f (x # xs) = sbind (f x) (\<lambda>y. sbind (smap f xs) (\<lambda>ys. Inr (y # ys)))"

text \<open>
  A Python function that acts on a state and may raise: it returns the outcome together
  with the state it leaves behind, also when it raises.
\<close>

type_synonym ('s, 'a) io = "'s \<Rightarrow> (exn + 'a) \<times> 's"

definition ret :: "'a \<Rightarrow> ('s, 'a) io" where
  "ret x s = (Inr x, s)"

definition throw :: "exn \<Rightarrow> ('s, 'a) io" where
  "throw e s = (Inl e, s)"

definition bindE :: "('s, 'a) io \<Rightarrow> ('a \<Rightarrow> ('s, 'b) io) \<Rightarrow> ('s, 'b) io" where
  "bindE m f s = (case m s of (Inl e, s') \<Rightarrow> (Inl e, s') | (Inr x, s') \<Rightarrow> f x s')"

definition thenE :: "('s, 'a) io \<Rightarrow> ('s, 'b) io \<Rightarrow> ('s, 'b) io" where
  "thenE m n = bindE m (\<lambda>_. n)"

text \<open>\<^verbatim>\<open>try: m except Exception as e: h(e)\<close>\<close>

definition catch :: "('s, 'a) io \<Rightarrow> (exn \<Rightarrow> ('s, 'a) io) \<Rightarrow> ('s, 'a) io" where
  "catch m h s = (case m s of (Inl e, s') \<Rightarrow> h e s' | (Inr x, s') \<Rightarrow> (Inr x, s'))"

text \<open>\<^verbatim>\<open>try: m except Exception as e: h(e) else: f\<close>, that is, handlers that do not cover \<open>f\<close>.\<close>

definition try_else :: "('s, 'a) io \<Rightarrow> (exn \<Rightarrow> ('s, 'b) io) \<Rightarrow> ('a \<Rightarrow> ('s, 'b) io) \<Rightarrow> ('s, 'b) io" where
  "try_else m h f s = (case m s of (Inl e, s') \<Rightarrow> h e s' | (Inr x, s') \<Rightarrow> f x s')"

text \<open>\<^verbatim>\<open>try: m finally: c\<close>; an exception of the clean-up replaces the outcome of \<open>m\<close>.\<close>

definition finallyE :: "('s, 'a) io \<Rightarrow> ('s, unit) io \<Rightarrow> ('s, 'a) io" where
  "finallyE m c s =
     (case m s of (r, s') \<Rightarrow>
        (case c s' of (Inl e, s'') \<Rightarrow> (Inl e, s'') | (Inr _, s'') \<Rightarrow> (r, s'')))"

fun foreachE :: "'x list \<Rightarrow> ('x \<Rightarrow> ('s, unit) io) \<Rightarrow> ('s, unit) io" where
  "foreachE [] f = ret ()"
| "foreachE (x # xs) f = thenE (f x) (foreachE xs f)"

declare ret_def [io_simps] throw_def [io_simps] bindE_def [io_simps] thenE_def [io_simps]
  catch_def [io_simps] try_else_def [io_simps] finallyE_def [io_simps]

lemma bindE_ret [simp]: "bindE (ret x) f = f x"
  by (simp add: fun_eq_iff io_simps)

lemma bindE_throw [simp]: "bindE (throw e) f = throw e"
  by (simp add: fun_eq_iff io_simps)

text \<open>When a composition succeeds.\<close>

named_theorems io_ok \<open>inversion of successful runs\<close>

lemma ret_ok [io_ok]: "ret x s = (Inr y, s') \<longleftrightarrow> y = x \<and> s' = s"
  by (auto simp: ret_def)

lemma throw_ok [io_ok]: "throw e s = (Inr y, s') \<longleftrightarrow> False"
  by (simp add: throw_def)

lemma bindE_ok [io_ok]:
  "bindE m f s = (Inr y, s') \<longleftrightarrow> (\<exists>x s1. m s = (Inr x, s1) \<and> f x s1 = (Inr y, s'))"
  by (auto simp: bindE_def split: prod.splits sum.splits)

lemma thenE_ok [io_ok]:
  "thenE m n s = (Inr y, s') \<longleftrightarrow> (\<exists>x s1. m s = (Inr x, s1) \<and> n s1 = (Inr y, s'))"
  by (simp add: thenE_def bindE_ok)

lemma bindE_run: "m s = (Inr x, s1) \<Longrightarrow> bindE m f s = f x s1"
  by (simp add: bindE_def)

lemma bindE_raise: "m s = (Inl e, s1) \<Longrightarrow> bindE m f s = (Inl e, s1)"
  by (simp add: bindE_def)

lemma thenE_run: "m s = (Inr x, s1) \<Longrightarrow> thenE m n s = n s1"
  by (simp add: thenE_def bindE_run)

lemma thenE_raise: "m s = (Inl e, s1) \<Longrightarrow> thenE m n s = (Inl e, s1)"
  by (simp add: thenE_def bindE_raise)

lemma catch_run: "m s = (Inr x, s1) \<Longrightarrow> catch m h s = (Inr x, s1)"
  by (simp add: catch_def)

lemma catch_raise: "m s = (Inl e, s1) \<Longrightarrow> catch m h s = h e s1"
  by (simp add: catch_def)

lemma try_else_run: "m s = (Inr x, s1) \<Longrightarrow> try_else m h f s = f x s1"
  by (simp add: try_else_def)

lemma try_else_raise: "m s = (Inl e, s1) \<Longrightarrow> try_else m h f s = h e s1"
  by (simp add: try_else_def)

lemmas io_run = bindE_run thenE_run catch_run try_else_run
lemmas io_raise = bindE_raise thenE_raise catch_raise try_else_raise

lemma bindE_assoc: "bindE (bindE m f) g = bindE m (\<lambda>x. bindE (f x) g)"
  by (auto simp: fun_eq_iff io_simps split: prod.splits sum.splits)

lemma foreachE_returns:
  assumes "\<And>x s. P s \<Longrightarrow> \<exists>s'. f x s = (Inr (), s') \<and> P s'"
  shows "P s \<Longrightarrow> \<exists>s'. foreachE xs f s = (Inr (), s') \<and> P s'"
proof (induction xs arbitrary: s)
  case (Cons x xs)
  obtain s1 where "f x s = (Inr (), s1)" "P s1" using assms [OF Cons.prems] by blast
  with Cons.IH show ?case by (simp add: thenE_run)
qed (simp add: ret_def)

text \<open>A value that is made at the first use and kept; making it may raise.\<close>

definition memo :: "exn + 'a \<Rightarrow> ('a option, 'a) io" where
  "memo make cache =
     (case cache of
        Some x \<Rightarrow> (Inr x, cache)
      | None \<Rightarrow> (case make of Inl e \<Rightarrow> (Inl e, None) | Inr x \<Rightarrow> (Inr x, Some x)))"

lemma memo_kept: "memo make cache = (Inr x, cache') \<Longrightarrow> memo make' cache' = (Inr x, cache')"
  by (auto simp: memo_def split: option.splits sum.splits)

text \<open>While what is made does not change, keeping it cannot be told from making it again.\<close>

lemma memo_transparent:
  assumes "\<And>x. cache = Some x \<Longrightarrow> make = Inr x"
  shows "fst (memo make cache) = make" "snd (memo make cache) = Some x \<Longrightarrow> make = Inr x"
  using assms by (auto simp: memo_def split: option.splits sum.splits)

text \<open>A property of the state that no outcome of a function breaks.\<close>

definition keeps :: "('s \<Rightarrow> bool) \<Rightarrow> ('s, 'a) io \<Rightarrow> bool" where
  "keeps P m \<longleftrightarrow> (\<forall>s. P s \<longrightarrow> P (snd (m s)))"

lemma keepsI [intro?]: "(\<And>s. P s \<Longrightarrow> P (snd (m s))) \<Longrightarrow> keeps P m"
  by (simp add: keeps_def)

lemma keepsD: "keeps P m \<Longrightarrow> P s \<Longrightarrow> P (snd (m s))"
  by (simp add: keeps_def)

named_theorems keeps_intros \<open>invariants through the combinators\<close>

lemma keeps_ret [keeps_intros]: "keeps P (ret x)"
  by (simp add: keeps_def io_simps)

lemma keeps_throw [keeps_intros]: "keeps P (throw e)"
  by (simp add: keeps_def io_simps)

lemma keeps_bindE [keeps_intros]:
  "keeps P m \<Longrightarrow> (\<And>x. keeps P (f x)) \<Longrightarrow> keeps P (bindE m f)"
  by (auto simp: keeps_def io_simps split: prod.splits sum.splits)

lemma keeps_thenE [keeps_intros]: "keeps P m \<Longrightarrow> keeps P n \<Longrightarrow> keeps P (thenE m n)"
  by (simp add: thenE_def keeps_bindE)

lemma keeps_try_else [keeps_intros]:
  "keeps P m \<Longrightarrow> (\<And>e. keeps P (h e)) \<Longrightarrow> (\<And>x. keeps P (f x)) \<Longrightarrow> keeps P (try_else m h f)"
  by (auto simp: keeps_def io_simps split: prod.splits sum.splits)

lemma keeps_catch [keeps_intros]:
  "keeps P m \<Longrightarrow> (\<And>e. keeps P (h e)) \<Longrightarrow> keeps P (catch m h)"
  by (auto simp: keeps_def io_simps split: prod.splits sum.splits)

lemma keeps_finallyE [keeps_intros]:
  "keeps P m \<Longrightarrow> keeps P c \<Longrightarrow> keeps P (finallyE m c)"
  by (auto simp: keeps_def io_simps split: prod.splits sum.splits)

lemma keeps_foreachE [keeps_intros]: "(\<And>x. keeps P (f x)) \<Longrightarrow> keeps P (foreachE xs f)"
  by (induction xs) (auto intro: keeps_intros)

lemma keeps_if [keeps_intros]:
  "(b \<Longrightarrow> keeps P m) \<Longrightarrow> (\<not> b \<Longrightarrow> keeps P n) \<Longrightarrow> keeps P (if b then m else n)"
  by simp

lemma keeps_case_option [keeps_intros]:
  "keeps P m \<Longrightarrow> (\<And>x. keeps P (f x)) \<Longrightarrow> keeps P (case v of None \<Rightarrow> m | Some x \<Rightarrow> f x)"
  by (cases v) auto

end
