(* ===== verification/Disk.thy ===== *)
theory Disk
  imports Prelude "HOL-Library.AList" "HOL-Library.Word"
begin

section \<open>Bytes and the local file system of one process\<close>

text \<open>
  The part of Python's \<^verbatim>\<open>os\<close> module the sources use on their own temporary and cache files.
  A disk lists its files by path with their bytes and last access time. Directories exist
  implicitly, and a write to the local disk does not fail.
\<close>

type_synonym bytes = "8 word list"

record file_entry =
  fe_data :: bytes
  fe_atime :: int

type_synonym disk = "(string \<times> file_entry) list"

definition path_exists :: "string \<Rightarrow> disk \<Rightarrow> bool" where
  "path_exists p d \<longleftrightarrow> map_of d p \<noteq> None"

definition write_file :: "string \<Rightarrow> bytes \<Rightarrow> int \<Rightarrow> disk \<Rightarrow> disk" where
  "write_file p b t d = AList.update p \<lparr>fe_data = b, fe_atime = t\<rparr> d"

definition remove_file :: "string \<Rightarrow> disk \<Rightarrow> disk" where
  "remove_file p d = AList.delete p d"

text \<open>\<^verbatim>\<open>os.utime(p, None)\<close>: the access time becomes the current time.\<close>

definition utime :: "string \<Rightarrow> int \<Rightarrow> disk \<Rightarrow> disk" where
  "utime p t d = map (\<lambda>(q, e). if q = p then (q, e\<lparr>fe_atime := t\<rparr>) else (q, e)) d"

definition read_file :: "string \<Rightarrow> disk \<Rightarrow> bytes option" where
  "read_file p d = map_option fe_data (map_of d p)"

text \<open>\<^verbatim>\<open>os.replace(src, dst)\<close>: one step, after which \<open>dst\<close> is the file that \<open>src\<close> was.\<close>

definition replace_file :: "string \<Rightarrow> string \<Rightarrow> (disk, unit) io" where
  "replace_file src dst d =
     (case map_of d src of
        None \<Rightarrow> (Inl (OSError src), d)
      | Some e \<Rightarrow> (Inr (), remove_file src (write_file dst (fe_data e) (fe_atime e) d)))"

text \<open>\<^verbatim>\<open>os.path.join(dir, name)\<close> for a relative name, and \<^verbatim>\<open>os.path.basename\<close>.\<close>

definition path_join :: "string \<Rightarrow> string \<Rightarrow> string" where
  "path_join dir name = dir @ ''/'' @ name"

definition basename :: "string \<Rightarrow> string" where
  "basename p = rev (takeWhile (\<lambda>c. c \<noteq> CHR ''/'') (rev p))"

text \<open>The paths \<^verbatim>\<open>os.path.join(dir, name)\<close> for the names \<^verbatim>\<open>os.listdir(dir)\<close> returns.\<close>

definition list_files :: "string \<Rightarrow> disk \<Rightarrow> (string \<times> file_entry) list" where
  "list_files dir d = filter (\<lambda>(p, e). p = path_join dir (basename p)) d"

definition disk_wf :: "disk \<Rightarrow> bool" where
  "disk_wf d \<longleftrightarrow> distinct (map fst d)"

lemma read_write_file [simp]:
  "read_file q (write_file p b t d) = (if q = p then Some b else read_file q d)"
  by (simp add: read_file_def write_file_def update_conv')

lemma read_remove_file [simp]:
  "read_file q (remove_file p d) = (if q = p then None else read_file q d)"
  by (simp add: read_file_def remove_file_def delete_conv' )

lemma map_of_utime:
  "map_of (utime p t d) q = map_option (\<lambda>e. if q = p then e\<lparr>fe_atime := t\<rparr> else e) (map_of d q)"
  by (induction d) (auto simp: utime_def)

lemma read_utime [simp]: "read_file q (utime p t d) = read_file q d"
  by (cases "map_of d q") (simp_all add: read_file_def map_of_utime)

lemma path_exists_read: "path_exists p d \<longleftrightarrow> read_file p d \<noteq> None"
  by (simp add: path_exists_def read_file_def)

lemma disk_wf_write [simp]: "disk_wf d \<Longrightarrow> disk_wf (write_file p b t d)"
  by (simp add: disk_wf_def write_file_def distinct_update)

lemma disk_wf_remove [simp]: "disk_wf d \<Longrightarrow> disk_wf (remove_file p d)"
  by (simp add: disk_wf_def remove_file_def distinct_delete)

lemma disk_wf_utime [simp]: "disk_wf (utime p t d) = disk_wf d"
proof -
  have "map fst (utime p t d) = map fst d"
    by (induction d) (auto simp: utime_def)
  then show ?thesis by (simp add: disk_wf_def)
qed

lemma remove_write_absent:
  "read_file p d = None \<Longrightarrow> remove_file p (write_file p b t d) = d"
  by (induction d) (auto simp: read_file_def remove_file_def write_file_def split: if_splits)

text \<open>A file written under a temporary name and moved into place.\<close>

lemma remove_temp:
  assumes "read_file p d = None" "q \<noteq> p"
  shows "remove_file p (write_file q b t (write_file p b' t' d)) = write_file q b t d"
  using assms
proof (induction d)
  case (Cons f d)
  then show ?case using remove_write_absent [of p "f # d" b' t']
    by (auto simp: read_file_def remove_file_def write_file_def split: if_splits)
qed (simp add: remove_file_def write_file_def)

lemma replace_written [simp]:
  "replace_file p q (write_file p b t d) = (Inr (), remove_file p (write_file q b t (write_file p b t d)))"
  by (simp add: replace_file_def write_file_def update_conv')

lemma write_twice [simp]: "write_file p b t (write_file p b' t' d) = write_file p b t d"
  by (induction d) (auto simp: write_file_def)

lemma basename_join [simp]: "CHR ''/'' \<notin> set n \<Longrightarrow> basename (path_join dir n) = n"
proof -
  assume n: "CHR ''/'' \<notin> set n"
  have "takeWhile (\<lambda>c. c \<noteq> CHR ''/'') (rev n @ CHR ''/'' # rev dir) = rev n"
    using n by (subst takeWhile_append2) auto
  then show ?thesis by (simp add: basename_def path_join_def)
qed

lemma write_file_absent: "read_file p d = None \<Longrightarrow> write_file p b t d = d @ [(p, \<lparr>fe_data = b, fe_atime = t\<rparr>)]"
  by (induction d) (auto simp: read_file_def write_file_def split: if_splits)

lemma path_join_inject [simp]: "path_join dir a = path_join dir b \<longleftrightarrow> a = b"
  by (simp add: path_join_def)

end
