(* ===== verification/Chunker.thy ===== *)
theory Chunker
  imports Disk
begin

section \<open>chunker.py: page ranges\<close>

text \<open>
  The producer plans page ranges (\<open>plan_chunks\<close>); a worker materialises one of them
  (\<open>extract_pages\<close>). pypdf is not part of the repository: reading a file as a PDF and
  writing a list of pages as a PDF are the parameters \<open>read_pdf\<close> and \<open>write_pdf\<close>. Either may
  raise: writing before the file is opened (a page cannot be added), or after some bytes of it
  are written.
\<close>

type_synonym range = "int \<times> int"

type_synonym pdf_output = "exn + bytes \<times> exn option"

definition WHOLE_FILE :: range where
  "WHOLE_FILE = (0, -1)"

definition page_count :: "(bytes \<Rightarrow> exn + 'p list) \<Rightarrow> string \<Rightarrow> disk \<Rightarrow> int option" where
  "page_count read_pdf path d =
     (case read_file path d of
        None \<Rightarrow> None
      | Some b \<Rightarrow> (case read_pdf b of Inl e \<Rightarrow> None | Inr ps \<Rightarrow> Some (int (length ps))))"

definition plan_chunks :: "int option \<Rightarrow> int \<Rightarrow> int \<Rightarrow> exn + range list" where
  "plan_chunks pages pages_per_chunk min_pages =
     (if pages_per_chunk < 1 then Inl (ValueError ''pages_per_chunk must be >= 1'')
      else case pages of
        None \<Rightarrow> Inr [WHOLE_FILE]
      | Some n \<Rightarrow>
          if n < min_pages then Inr [WHOLE_FILE]
          else Inr (map (\<lambda>start. (start, min (start + pages_per_chunk) n))
                      (py_range 0 n pages_per_chunk)))"

definition extract_pages ::
  "(bytes \<Rightarrow> exn + 'p list) \<Rightarrow> ('p list \<Rightarrow> pdf_output) \<Rightarrow> int \<Rightarrow>
   string \<Rightarrow> int \<Rightarrow> int \<Rightarrow> string \<Rightarrow> (disk, string) io" where
  "extract_pages read_pdf write_pdf now src_path start stop out_path d =
     (if stop = -1 then (Inr src_path, d)
      else case read_file src_path d of
        None \<Rightarrow> (Inl (OSError src_path), d)
      | Some b \<Rightarrow>
          (case read_pdf b of
             Inl e \<Rightarrow> (Inl e, d)
           | Inr ps \<Rightarrow>
               (case write_pdf (py_slice start stop ps) of
                  Inl e \<Rightarrow> (Inl e, d)
                | Inr (written, err) \<Rightarrow>
                    (case err of None \<Rightarrow> Inr out_path | Some e \<Rightarrow> Inl e,
                     write_file out_path written now d))))"

text \<open>The bytes of a PDF that was written completely.\<close>

definition complete_pdf :: "pdf_output \<Rightarrow> exn + bytes" where
  "complete_pdf out = sbind out (\<lambda>(written, err). case err of None \<Rightarrow> Inr written | Some e \<Rightarrow> Inl e)"

lemma complete_pdf_simps [simp]:
  "complete_pdf (Inl e) = Inl e" "complete_pdf (Inr (written, None)) = Inr written"
  "complete_pdf (Inr (written, Some e)) = Inl e"
  by (simp_all add: complete_pdf_def)

subsection \<open>Ranges as partitions\<close>

text \<open>The pages \<open>[s, e)\<close> a range stands for.\<close>

definition range_pages :: "range \<Rightarrow> int list" where
  "range_pages r = [fst r..snd r - 1]"

lemma range_pages_pair [simp]: "range_pages (a, b) = [a..b - 1]"
  by (simp add: range_pages_def)

definition step_ranges :: "int \<Rightarrow> int \<Rightarrow> int \<Rightarrow> range list" where
  "step_ranges s n k = map (\<lambda>start. (start, min (start + k) n)) (py_range s n k)"

lemma step_ranges_Cons:
  "0 < k \<Longrightarrow> s < n \<Longrightarrow> step_ranges s n k = (s, min (s + k) n) # step_ranges (s + k) n k"
  unfolding step_ranges_def by (subst py_range.simps) simp

lemma step_ranges_Nil: "n \<le> s \<Longrightarrow> step_ranges s n k = []"
  unfolding step_ranges_def by (subst py_range.simps) simp

lemma step_ranges_bounds:
  "0 < k \<Longrightarrow> (a, b) \<in> set (step_ranges s n k) \<Longrightarrow> s \<le> a \<and> a < b \<and> b \<le> n \<and> b - a \<le> k"
proof (induction s n k rule: py_range.induct)
  case (1 s n k)
  then show ?case
  proof (cases "s < n")
    case True
    with "1.prems" consider "a = s" "b = min (s + k) n" | "(a, b) \<in> set (step_ranges (s + k) n k)"
      by (auto simp: step_ranges_Cons)
    then show ?thesis
    proof cases
      case 1
      with True \<open>0 < k\<close> show ?thesis by auto
    next
      case 2
      with "1.IH" "1.prems" True show ?thesis by force
    qed
  qed (simp add: step_ranges_Nil)
qed

lemma step_ranges_partition:
  "0 < k \<Longrightarrow> concat (map range_pages (step_ranges s n k)) = [s..n - 1]"
proof (induction s n k rule: py_range.induct)
  case (1 s n k)
  show ?case
  proof (cases "s < n")
    case True
    with 1 have IH: "concat (map range_pages (step_ranges (s + k) n k)) = [s + k..n - 1]" by simp
    show ?thesis
    proof (cases "s + k \<le> n")
      case le: True
      then have "[s..s + k - 1] @ [s + k..n - 1] = [s..n - 1]"
        using upto_split2 [of s "s + k - 1" "n - 1"] \<open>0 < k\<close> by simp
      with le IH True \<open>0 < k\<close> show ?thesis
        by (simp add: step_ranges_Cons)
    qed (use True \<open>0 < k\<close> in \<open>simp add: step_ranges_Cons step_ranges_Nil\<close>)
  qed (simp add: step_ranges_Nil)
qed

lemma step_ranges_slices:
  assumes "0 < k" "0 \<le> s" "s \<le> n" "n = int (length ps)"
  shows "concat (map (\<lambda>(a, b). py_slice a b ps) (step_ranges s n k)) = py_slice s n ps"
  using assms
proof (induction s n k rule: py_range.induct)
  case (1 s n k)
  show ?case
  proof (cases "s < n")
    case True
    show ?thesis
    proof (cases "s + k \<le> n")
      case le: True
      with 1 True have "concat (map (\<lambda>(a, b). py_slice a b ps) (step_ranges (s + k) n k))
          = py_slice (s + k) n ps" by simp
      with le True "1.prems" show ?thesis
        by (simp add: step_ranges_Cons slice_adjacent)
    qed (use True "1.prems" in \<open>simp add: step_ranges_Cons step_ranges_Nil\<close>)
  qed (use "1.prems" in \<open>simp add: step_ranges_Nil slice_nonneg\<close>)
qed

lemma length_step_ranges:
  "0 < k \<Longrightarrow> s \<le> n \<Longrightarrow> int (length (step_ranges s n k)) = (n - s + k - 1) div k"
proof (induction s n k rule: py_range.induct)
  case (1 s n k)
  show ?case
  proof (cases "s < n")
    case True
    show ?thesis
    proof (cases "s + k \<le> n")
      case le: True
      have "(n - s + k - 1) div k = (n - s - 1) div k + 1"
        using \<open>0 < k\<close> div_add_self2 [of k "n - s - 1"] by (simp add: algebra_simps)
      then show ?thesis using 1 True le by (simp add: step_ranges_Cons algebra_simps)
    next
      case False
      then have "(n - s + k - 1) div k = 1"
        using True \<open>0 < k\<close> by (simp add: div_pos_geq div_pos_pos_trivial)
      with False True \<open>0 < k\<close> show ?thesis by (simp add: step_ranges_Cons step_ranges_Nil)
    qed
  qed (use "1.prems" in \<open>simp add: step_ranges_Nil div_pos_pos_trivial\<close>)
qed

subsection \<open>The plan\<close>

lemma plan_chunks_split:
  "1 \<le> k \<Longrightarrow> m \<le> n \<Longrightarrow> plan_chunks (Some n) k m = Inr (step_ranges 0 n k)"
  by (simp add: plan_chunks_def step_ranges_def)

lemma plan_chunks_whole:
  "1 \<le> k \<Longrightarrow> (\<And>n. pages = Some n \<Longrightarrow> n < m) \<Longrightarrow> plan_chunks pages k m = Inr [WHOLE_FILE]"
  by (auto simp: plan_chunks_def split: option.splits)

lemma concat_step_ranges_slices:
  "0 < k \<Longrightarrow> concat (map (\<lambda>(a, b). py_slice a b ps) (step_ranges 0 (int (length ps)) k)) = ps"
  using step_ranges_slices [of k 0 "int (length ps)" ps] by (simp add: slice_nonneg)

text \<open>
  C11. A PDF at or above the splitting threshold is cut into consecutive, non-empty page ranges
  of at most the chunk size that cover every page exactly once and in order, and there are
  exactly as many of them as the page count divided by the chunk size, rounded up.
\<close>

theorem plan_chunks_partition:
  assumes "1 \<le> pages_per_chunk" and "0 \<le> n" and "min_pages \<le> n"
  shows "\<exists>rs. plan_chunks (Some n) pages_per_chunk min_pages = Inr rs
    \<and> concat (map range_pages rs) = [0..n - 1]
    \<and> list_all (\<lambda>(s, e). 0 \<le> s \<and> s < e \<and> e \<le> n \<and> e - s \<le> pages_per_chunk) rs
    \<and> int (length rs) = (n + pages_per_chunk - 1) div pages_per_chunk"
proof -
  let ?rs = "step_ranges 0 n pages_per_chunk"
  have k: "0 < pages_per_chunk" using assms(1) by simp
  have "list_all (\<lambda>(s, e). 0 \<le> s \<and> s < e \<and> e \<le> n \<and> e - s \<le> pages_per_chunk) ?rs"
    using step_ranges_bounds [OF k, where s = 0 and n = n] unfolding list_all_iff by blast
  moreover have "int (length ?rs) = (n + pages_per_chunk - 1) div pages_per_chunk"
    using length_step_ranges [OF k assms(2)] by simp
  ultimately show ?thesis
    using plan_chunks_split [OF assms(1,3)] step_ranges_partition [OF k, of 0 n]
    by (intro exI [of _ ?rs] conjI)
qed

theorem plan_chunks_partition_witness:
  "\<exists>rs. plan_chunks (Some 45) 20 40 = Inr rs
    \<and> concat (map range_pages rs) = [0..44]
    \<and> list_all (\<lambda>(s, e). 0 \<le> s \<and> s < e \<and> e \<le> 45 \<and> e - s \<le> 20) rs
    \<and> int (length rs) = 3"
  using plan_chunks_partition [of 20 45 40] by simp

text \<open>
  C36. When the plan is anything else: a chunk size below one is rejected, and a file that is
  not a readable PDF or is below the threshold is one whole-file chunk. The plan is empty
  exactly for a PDF without pages that the threshold does not hold back, which needs a
  threshold of zero or less.
\<close>

theorem plan_chunks_cases:
  "case plan_chunks pages k m of
     Inl e \<Rightarrow> k < 1 \<and> e = ValueError ''pages_per_chunk must be >= 1''
   | Inr rs \<Rightarrow> 1 \<le> k
       \<and> (rs = [WHOLE_FILE] \<longleftrightarrow> pages = None \<or> (\<exists>n. pages = Some n \<and> n < m))
       \<and> (rs = [] \<longleftrightarrow> (\<exists>n. pages = Some n \<and> m \<le> n \<and> n \<le> 0))"
proof (cases "1 \<le> k")
  case k: True
  have not_whole: "step_ranges 0 n k \<noteq> [WHOLE_FILE]" for n
  proof
    assume "step_ranges 0 n k = [WHOLE_FILE]"
    then have "(0, - 1) \<in> set (step_ranges 0 n k)" by (simp add: WHOLE_FILE_def)
    then show False using step_ranges_bounds [of k] k by fastforce
  qed
  have empty: "step_ranges 0 n k = [] \<longleftrightarrow> n \<le> 0" for n
    using k by (cases "0 < n") (auto simp: step_ranges_Cons step_ranges_Nil)
  show ?thesis
  proof (cases pages)
    case None
    then show ?thesis using k by (simp add: plan_chunks_def)
  next
    case (Some n)
    then show ?thesis
      using k not_whole [of n] empty [of n] by (cases "n < m") (simp_all add: plan_chunks_def flip: step_ranges_def)
  qed
qed (simp add: plan_chunks_def)

end
