(* ===== verification/Pagination.thy ===== *)
theory Pagination
  imports Prelude
begin

section \<open>pagination.py: splitting markdown into pages\<close>

text \<open>
  \<open>paginate\<close> follows the nested loops of the source. The inner \<^verbatim>\<open>while\<close> runs forever for a
  page size below one, so it is a partial function and \<open>None\<close> is "does not return".
\<close>

definition newline :: nat where
  "newline = 10"

definition block_sep :: pytext where
  "block_sep = [newline, newline]"

text \<open>The inner loop, which hard-splits a block larger than a page.\<close>

partial_function (option) hard_split ::
  "int \<Rightarrow> pytext list \<Rightarrow> pytext \<Rightarrow> pytext \<Rightarrow> (pytext list \<times> pytext \<times> pytext) option" where
  "hard_split page_size pages current block =
     (if page_size < int (length block) then
        hard_split page_size
          ((if current \<noteq> [] then pages @ [current] else pages) @ [slice_to page_size block])
          []
          (slice_from page_size block)
      else Some (pages, current, block))"

text \<open>The rest of the body of the \<^verbatim>\<open>for\<close> loop: pack the remaining block.\<close>

definition pack_block :: "int \<Rightarrow> pytext list \<Rightarrow> pytext \<Rightarrow> pytext \<Rightarrow> pytext list \<times> pytext" where
  "pack_block page_size pages current block =
     (let candidate = (if current = [] then block else current @ block_sep @ block)
      in if page_size < int (length candidate) then (pages @ [current], block)
         else (pages, candidate))"

fun paginate_blocks :: "int \<Rightarrow> pytext list \<Rightarrow> pytext \<Rightarrow> pytext list \<Rightarrow> (pytext list \<times> pytext) option" where
  "paginate_blocks page_size pages current [] = Some (pages, current)"
| "paginate_blocks page_size pages current (block # blocks) =
     (case hard_split page_size pages current block of
        None \<Rightarrow> None
      | Some (pages', current', block') \<Rightarrow>
          (case pack_block page_size pages' current' block' of
             (pages'', current'') \<Rightarrow> paginate_blocks page_size pages'' current'' blocks))"

definition paginate :: "int \<Rightarrow> pytext \<Rightarrow> pytext list option" where
  "paginate page_size content =
     (if content = [] then Some [[]]
      else case paginate_blocks page_size [] [] (py_split block_sep content) of
        None \<Rightarrow> None
      | Some (pages, current) \<Rightarrow>
          Some (if current \<noteq> [] \<or> pages = [] then pages @ [current] else pages))"

record pagination =
  pg_id :: string
  pg_page :: int
  pg_page_size :: int
  pg_total_pages :: int
  pg_total_length :: int
  pg_has_next :: bool
  pg_has_prev :: bool
  pg_next_page :: "int option"
  pg_prev_page :: "int option"

definition build_pagination :: "string \<Rightarrow> int \<Rightarrow> int \<Rightarrow> int \<Rightarrow> int \<Rightarrow> pagination" where
  "build_pagination doc_id page total_pages total_length page_size =
     (let has_next = page < total_pages; has_prev = page > 1 in
      \<lparr>pg_id = doc_id, pg_page = page, pg_page_size = page_size, pg_total_pages = total_pages,
       pg_total_length = total_length, pg_has_next = has_next, pg_has_prev = has_prev,
       pg_next_page = (if has_next then Some (page + 1) else None),
       pg_prev_page = (if has_prev then Some (page - 1) else None)\<rparr>)"

subsection \<open>The inner loop\<close>

declare hard_split.simps [simp del]

lemma hard_split_done:
  "int (length block) \<le> n \<Longrightarrow> hard_split n pages current block = Some (pages, current, block)"
  by (simp add: hard_split.simps)

text \<open>The pages a block of more than \<open>n\<close> characters contributes, and what is left of it.\<close>

function full_pages :: "nat \<Rightarrow> 'a list \<Rightarrow> 'a list list" where
  "full_pages n xs = (if 0 < n \<and> n < length xs then take n xs # full_pages n (drop n xs) else [])"
  by pat_completeness auto
termination
  by (relation "measure (\<lambda>(n, xs). length xs)") auto

function last_part :: "nat \<Rightarrow> 'a list \<Rightarrow> 'a list" where
  "last_part n xs = (if 0 < n \<and> n < length xs then last_part n (drop n xs) else xs)"
  by pat_completeness auto
termination
  by (relation "measure (\<lambda>(n, xs). length xs)") auto

declare full_pages.simps [simp del] last_part.simps [simp del]

lemma full_pages_last_part: "concat (full_pages n xs) @ last_part n xs = xs"
proof (induction n xs rule: full_pages.induct)
  case (1 n xs)
  then show ?case
    by (cases "0 < n \<and> n < length xs") (auto simp: full_pages.simps [of n xs] last_part.simps [of n xs])
qed

lemma full_pages_length: "p \<in> set (full_pages n xs) \<Longrightarrow> length p = n"
proof (induction n xs rule: full_pages.induct)
  case (1 n xs)
  then show ?case
    by (cases "0 < n \<and> n < length xs") (auto simp: full_pages.simps [of n xs])
qed

lemma last_part_length: "0 < n \<Longrightarrow> length (last_part n xs) \<le> n"
proof (induction n xs rule: last_part.induct)
  case (1 n xs)
  then show ?case
    by (cases "0 < n \<and> n < length xs") (auto simp: last_part.simps [of n xs])
qed

lemma small_block: "length xs \<le> n \<Longrightarrow> full_pages n xs = [] \<and> last_part n xs = xs"
  by (simp add: full_pages.simps [of n xs] last_part.simps [of n xs])

text \<open>For a positive page size the inner loop returns, and this is what it returns.\<close>

lemma hard_split_eq:
  "0 < n \<Longrightarrow> hard_split (int n) pages current block =
     (if length block \<le> n then Some (pages, current, block)
      else Some (pages @ (if current = [] then [] else [current]) @ full_pages n block, [],
                 last_part n block))"
proof (induction n block arbitrary: pages current rule: full_pages.induct)
  case (1 n block)
  show ?case
  proof (cases "length block \<le> n")
    case True
    then show ?thesis by (simp add: hard_split_done)
  next
    case False
    let ?pages = "(if current \<noteq> [] then pages @ [current] else pages) @ [take n block]"
    have "hard_split (int n) pages current block = hard_split (int n) ?pages [] (drop n block)"
      using False by (subst hard_split.simps) (simp add: slice_to_nonneg slice_from_nonneg)
    then show ?thesis
      using False "1.prems" "1.IH" [of ?pages "[]"] small_block [of "drop n block" n]
      by (auto simp: full_pages.simps [of n block] last_part.simps [of n block])
  qed
qed

text \<open>For a page size below one the loop never gets past a non-empty block.\<close>

lemma hard_split_returns:
  assumes "hard_split n pages current block = Some r"
  shows "0 < n \<or> (n = 0 \<and> block = [])"
proof (rule hard_split.raw_induct
    [where P = "\<lambda>n pages current block r. 0 < n \<or> (n = 0 \<and> block = [])", OF _ assms])
  fix f :: "int \<Rightarrow> pytext list \<Rightarrow> pytext \<Rightarrow> pytext \<Rightarrow> (pytext list \<times> pytext \<times> pytext) option"
    and n pages current block r
  assume IH: "\<And>n pages current block r.
      f n pages current block = Some r \<Longrightarrow> 0 < n \<or> (n = 0 \<and> block = [])"
    and eq: "(if n < int (length block)
        then f n ((if current \<noteq> [] then pages @ [current] else pages) @ [slice_to n block]) []
               (slice_from n block)
        else Some (pages, current, block)) = Some r"
  show "0 < n \<or> (n = 0 \<and> block = [])"
  proof (cases "n < int (length block)")
    case True
    with eq have "0 < n \<or> (n = 0 \<and> slice_from n block = [])" by (auto dest: IH)
    then show ?thesis by (auto simp: slice_from_nonneg)
  next
    case False
    then show ?thesis by (cases "n = 0") auto
  qed
qed

lemma paginate_blocks_returns:
  "paginate_blocks n pages current blocks = Some r \<Longrightarrow> b \<in> set blocks \<Longrightarrow> 0 < n \<or> (n = 0 \<and> b = [])"
  by (induction n pages current blocks rule: paginate_blocks.induct)
    (auto split: option.splits prod.splits dest: hard_split_returns)

lemma paginate_blocks_zero:
  "\<forall>b \<in> set blocks. b = [] \<Longrightarrow> paginate_blocks 0 pages [] blocks = Some (pages, [])"
  by (induction blocks) (auto simp: hard_split_done pack_block_def)

subsection \<open>What the pages hold\<close>

text \<open>
  \<open>covers pages s\<close>: \<open>s\<close> is the pages in order, with nothing but block separators before,
  between and after them.
\<close>

inductive covers :: "pytext list \<Rightarrow> pytext \<Rightarrow> bool" where
  covers_nil: "covers [] []"
| covers_gap: "covers ps s \<Longrightarrow> covers ps (s @ block_sep)"
| covers_page: "covers ps s \<Longrightarrow> covers (ps @ [p]) (s @ p)"

lemma covers_pages: "covers ps s \<Longrightarrow> covers (ps @ qs) (s @ concat qs)"
proof (induction qs rule: rev_induct)
  case (snoc q qs)
  then have "covers ((ps @ qs) @ [q]) ((s @ concat qs) @ q)" by (blast intro: covers_page)
  then show ?case by simp
qed simp

lemma covers_text:
  "covers ps s \<Longrightarrow> filter (\<lambda>c. c \<noteq> newline) (concat ps) = filter (\<lambda>c. c \<noteq> newline) s"
  by (induction rule: covers.induct) (auto simp: block_sep_def)

definition holds_block :: "pytext \<Rightarrow> pytext \<Rightarrow> bool" where
  "holds_block b p \<longleftrightarrow> (\<exists>us vs. p = us @ b @ vs)"

lemma holds_block_refl [simp]: "holds_block b b"
  unfolding holds_block_def by (metis append_Nil append_Nil2)

lemma holds_block_Nil [simp]: "holds_block [] p" "holds_block b [] \<longleftrightarrow> b = []"
  by (auto simp: holds_block_def)

lemma holds_block_append1 [simp]: "holds_block b p \<Longrightarrow> holds_block b (p @ q)"
  unfolding holds_block_def by (metis append.assoc)

lemma holds_block_append2 [simp]: "holds_block b q \<Longrightarrow> holds_block b (p @ q)"
  unfolding holds_block_def by (metis append.assoc)

lemma holds_block_Cons [simp]: "holds_block b q \<Longrightarrow> holds_block b (c # q)"
  using holds_block_append2 [of b q "[c]"] by simp

text \<open>
  The loop invariant, for the text \<open>t\<close> and the blocks \<open>bs\<close> consumed so far: the emitted pages
  and the current one make up \<open>t\<close>, every page is within the page size and not empty, and
  every block that fits on a page is whole on one.
\<close>

definition page_inv :: "nat \<Rightarrow> pytext \<Rightarrow> pytext list \<Rightarrow> pytext list \<Rightarrow> pytext \<Rightarrow> bool" where
  "page_inv n t bs pages current \<longleftrightarrow>
     (\<exists>s. covers pages s \<and> t = s @ current)
     \<and> (\<forall>p \<in> set pages. p \<noteq> [] \<and> length p \<le> n) \<and> length current \<le> n
     \<and> (\<forall>b \<in> set bs. length b \<le> n \<longrightarrow> (\<exists>p \<in> set (pages @ [current]). holds_block b p))"

lemma page_invI:
  assumes "covers pages s" and "t = s @ current"
    and "\<And>p. p \<in> set pages \<Longrightarrow> p \<noteq> [] \<and> length p \<le> n" and "length current \<le> n"
    and "\<And>b. b \<in> set bs \<Longrightarrow> length b \<le> n \<Longrightarrow> \<exists>p \<in> set (pages @ [current]). holds_block b p"
  shows "page_inv n t bs pages current"
  using assms unfolding page_inv_def by blast

lemma page_invD:
  assumes "page_inv n t bs pages current"
  shows "\<exists>s. covers pages s \<and> t = s @ current"
    and "p \<in> set pages \<Longrightarrow> p \<noteq> [] \<and> length p \<le> n"
    and "length current \<le> n"
    and "b \<in> set bs \<Longrightarrow> length b \<le> n \<Longrightarrow> \<exists>p \<in> set (pages @ [current]). holds_block b p"
  using assms unfolding page_inv_def by blast+

text \<open>The three ways a block is placed: on the current page, on the next one, on pages of its own.\<close>

lemma covers_current:
  assumes "covers pages s" and "sp = block_sep \<or> (sp = [] \<and> current = [])"
  shows "covers (pages @ (if current = [] then [] else [current])) (s @ current @ sp)"
proof (cases "current = []")
  case True
  then show ?thesis using assms by (auto intro: covers_gap)
next
  case False
  then show ?thesis using assms(2) covers_gap [OF covers_page [OF assms(1), of current]] by auto
qed

lemma page_inv_join:
  assumes inv: "page_inv n t bs pages current" and sp: "sp = block_sep \<or> (sp = [] \<and> current = [])"
    and fits: "length (if current = [] then block else current @ block_sep @ block) \<le> n"
  shows "page_inv n (t @ sp @ block) (bs @ [block]) pages (if current = [] then block else current @ block_sep @ block)"
    (is "page_inv n _ _ _ ?cand")
proof -
  obtain s where cov: "covers pages s" and t: "t = s @ current" using page_invD(1) [OF inv] by blast
  show ?thesis
  proof (rule page_invI [where s = "if current = [] then s @ sp else s"])
    show "covers pages (if current = [] then s @ sp else s)" using cov covers_current [OF cov sp] by auto
    show "t @ sp @ block = (if current = [] then s @ sp else s) @ ?cand" using t sp by auto
    show "p \<noteq> [] \<and> length p \<le> n" if "p \<in> set pages" for p using page_invD(2) [OF inv that] .
    show "length ?cand \<le> n" by (rule fits)
    show "\<exists>p \<in> set (pages @ [?cand]). holds_block b p" if "b \<in> set (bs @ [block])" "length b \<le> n" for b
      using that page_invD(4) [OF inv, of b] by (cases "current = []") auto
  qed
qed

lemma page_inv_close:
  assumes inv: "page_inv n t bs pages current" and cur: "current \<noteq> []" and fits: "length block \<le> n"
  shows "page_inv n (t @ block_sep @ block) (bs @ [block]) (pages @ [current]) block"
proof -
  obtain s where cov: "covers pages s" and t: "t = s @ current" using page_invD(1) [OF inv] by blast
  show ?thesis
  proof (rule page_invI)
    show "covers (pages @ [current]) (s @ current @ block_sep)"
      using covers_current [OF cov, of block_sep current] cur by simp
    show "t @ block_sep @ block = (s @ current @ block_sep) @ block" using t by simp
    show "p \<noteq> [] \<and> length p \<le> n" if "p \<in> set (pages @ [current])" for p
      using that cur page_invD(2,3) [OF inv] by auto
    show "\<exists>p \<in> set ((pages @ [current]) @ [block]). holds_block b p"
      if "b \<in> set (bs @ [block])" "length b \<le> n" for b
      using that page_invD(4) [OF inv, of b] by auto
  qed (rule fits)
qed

lemma page_inv_split:
  assumes n: "0 < n" and inv: "page_inv n t bs pages current" and long: "n < length block"
    and sp: "sp = block_sep \<or> (sp = [] \<and> current = [])"
  shows "page_inv n (t @ sp @ block) (bs @ [block])
    ((pages @ (if current = [] then [] else [current])) @ full_pages n block) (last_part n block)"
    (is "page_inv n _ _ ?pages ?rest")
proof -
  obtain s where cov: "covers pages s" and t: "t = s @ current" using page_invD(1) [OF inv] by blast
  show ?thesis
  proof (rule page_invI)
    show "covers ?pages ((s @ current @ sp) @ concat (full_pages n block))"
      by (rule covers_pages [OF covers_current [OF cov sp]])
    show "t @ sp @ block = ((s @ current @ sp) @ concat (full_pages n block)) @ ?rest"
      using t full_pages_last_part [of n block] by simp
    show "p \<noteq> [] \<and> length p \<le> n" if "p \<in> set ?pages" for p
      using that n full_pages_length [of p n block] page_invD(2,3) [OF inv] by (auto split: if_splits)
    show "length ?rest \<le> n" by (rule last_part_length [OF n])
    show "\<exists>p \<in> set (?pages @ [?rest]). holds_block b p" if "b \<in> set (bs @ [block])" "length b \<le> n" for b
      using that long page_invD(4) [OF inv, of b] by auto
  qed
qed

text \<open>One iteration of the outer loop, for a positive page size.\<close>

lemma page_inv_step:
  assumes n: "0 < n" and inv: "page_inv n t bs pages current"
    and sp: "sp = block_sep \<or> (sp = [] \<and> current = [])"
  obtains pages' current' where
    "\<And>blocks. paginate_blocks (int n) pages current (block # blocks)
       = paginate_blocks (int n) pages' current' blocks"
    and "page_inv n (t @ sp @ block) (bs @ [block]) pages' current'"
proof (cases "n < length block")
  case True
  show thesis
    using that [OF _ page_inv_split [OF n inv True sp]] True last_part_length [OF n, of block]
    by (simp add: hard_split_eq [OF n] pack_block_def)
next
  case fits: False
  let ?cand = "if current = [] then block else current @ block_sep @ block"
  show thesis
  proof (cases "length ?cand \<le> n")
    case True
    show thesis using that [OF _ page_inv_join [OF inv sp True]] True fits
      by (simp add: hard_split_done pack_block_def Let_def)
  next
    case False
    then have cur: "current \<noteq> []" and "sp = block_sep" using fits sp by auto
    then show thesis using that [OF _ page_inv_close [OF inv cur, of block, folded \<open>sp = block_sep\<close>]] False fits
      by (simp add: hard_split_done pack_block_def Let_def)
  qed
qed

lemma page_inv_blocks:
  assumes "0 < n" and "page_inv n t bs pages current"
  shows "\<exists>pages' current'. paginate_blocks (int n) pages current blocks = Some (pages', current')
    \<and> page_inv n (t @ concat (map (\<lambda>b. block_sep @ b) blocks)) (bs @ blocks) pages' current'"
  using assms(2)
proof (induction blocks arbitrary: t bs pages current)
  case Nil
  then show ?case by simp
next
  case (Cons b blocks)
  obtain pages' current' where
    "paginate_blocks (int n) pages current (b # blocks) = paginate_blocks (int n) pages' current' blocks"
    and "page_inv n (t @ block_sep @ b) (bs @ [b]) pages' current'"
    using page_inv_step [OF assms(1) Cons.prems, of block_sep b] by blast
  with Cons.IH [of "t @ block_sep @ b" "bs @ [b]" pages' current'] show ?case by simp
qed

lemma py_join_blocks: "py_join sep (b # bs) = b @ concat (map (\<lambda>b. sep @ b) bs)"
  by (induction bs arbitrary: b) auto

lemma paginate_inv:
  assumes n: "0 < n" and ne: "content \<noteq> []"
  shows "\<exists>pages current. paginate_blocks (int n) [] [] (py_split block_sep content) = Some (pages, current)
    \<and> page_inv n content (py_split block_sep content) pages current"
proof -
  obtain b bs where bs: "py_split block_sep content = b # bs"
    by (meson list.exhaust py_split_not_Nil)
  have "page_inv n [] [] [] []" by (auto simp: page_inv_def intro: covers_nil)
  then obtain p c where
    *: "paginate_blocks (int n) [] [] (b # bs) = paginate_blocks (int n) p c bs"
    and inv: "page_inv n ([] @ [] @ b) ([] @ [b]) p c"
    using page_inv_step [OF n, of "[]" "[]" "[]" "[]" "[]" b] by blast
  moreover have "b @ concat (map (\<lambda>b. block_sep @ b) bs) = content"
    using py_join_split [of block_sep content] by (simp add: bs py_join_blocks)
  ultimately show ?thesis
    using page_inv_blocks [OF n inv, of bs] by (auto simp: bs)
qed

subsection \<open>Correctness of paginate\<close>

lemma pos_int_cases: "1 \<le> (k :: int) \<Longrightarrow> \<exists>n. k = int n \<and> 0 < n"
  by (metis int_one_le_iff_zero_less zero_less_imp_eq_int)

text \<open>Everything the loop invariant says about the result.\<close>

lemma paginate_result:
  assumes "1 \<le> page_size"
  obtains pages where "paginate page_size content = Some pages" "pages \<noteq> []" "covers pages content"
    and "list_all (\<lambda>p. int (length p) \<le> page_size) pages" "pages = [[]] \<or> [] \<notin> set pages"
    and "\<And>b. b \<in> set (py_split block_sep content) \<Longrightarrow> int (length b) \<le> page_size \<Longrightarrow>
           \<exists>p \<in> set pages. holds_block b p"
proof (cases "content = []")
  case True
  have "covers [[]] []" using covers_page [OF covers_nil, of "[]"] by simp
  moreover have "py_split block_sep [] = [[]]"
    by (subst py_split.simps) (simp add: block_sep_def)
  ultimately show thesis using that True assms by (simp add: paginate_def)
next
  case False
  obtain n where n: "page_size = int n" "0 < n" using pos_int_cases [OF assms] by blast
  obtain pages current where
    run: "paginate_blocks page_size [] [] (py_split block_sep content) = Some (pages, current)"
    and inv: "page_inv n content (py_split block_sep content) pages current"
    using paginate_inv [OF n(2) False] n by auto
  obtain s where cov: "covers pages s" "content = s @ current" using page_invD(1) [OF inv] by blast
  let ?res = "if current \<noteq> [] \<or> pages = [] then pages @ [current] else pages"
  show thesis
  proof (rule that [of ?res])
    show "paginate page_size content = Some ?res" using False run by (simp add: paginate_def)
    show "?res \<noteq> []" by simp
    show "covers ?res content" using cov by (auto intro: covers_page)
    show "list_all (\<lambda>p. int (length p) \<le> page_size) ?res"
      using page_invD(2,3) [OF inv] n by (auto simp: list_all_iff)
    show "?res = [[]] \<or> [] \<notin> set ?res" using page_invD(2) [OF inv] by auto
    show "\<exists>p \<in> set ?res. holds_block b p"
      if "b \<in> set (py_split block_sep content)" "int (length b) \<le> page_size" for b
      using that n page_invD(4) [OF inv that(1)] by (cases pages) auto
  qed
qed

text \<open>
  C10. For a positive page size \<open>paginate\<close> returns at least one page; no page is longer than the
  page size; no page is empty unless the whole result is one empty page; and the pages in
  order are the content, with nothing but blank-line separators left out between them.
\<close>

theorem paginate_correct:
  assumes "1 \<le> page_size"
  shows "\<exists>pages. paginate page_size content = Some pages \<and> pages \<noteq> [] \<and> covers pages content
    \<and> list_all (\<lambda>p. int (length p) \<le> page_size) pages \<and> (pages = [[]] \<or> [] \<notin> set pages)"
  by (rule paginate_result [OF assms, of content]) blast

theorem paginate_correct_witness:
  "\<exists>pages. paginate 3 [65, 66, 10, 10, 67, 68, 69, 70] = Some pages \<and> pages \<noteq> []
    \<and> covers pages [65, 66, 10, 10, 67, 68, 69, 70]
    \<and> list_all (\<lambda>p. int (length p) \<le> 3) pages \<and> (pages = [[]] \<or> [] \<notin> set pages)"
  using paginate_correct [of 3 "[65, 66, 10, 10, 67, 68, 69, 70]"] by simp

text \<open>
  C17. A paragraph that fits on a page is whole on one page, and no text is lost, duplicated
  or reordered: newlines apart, the concatenated pages hold the characters of the content in
  order.
\<close>

theorem paginate_keeps_text:
  assumes "1 \<le> page_size" and "paginate page_size content = Some pages"
  shows "filter (\<lambda>c. c \<noteq> newline) (concat pages) = filter (\<lambda>c. c \<noteq> newline) content
    \<and> list_all (\<lambda>b. page_size < int (length b) \<or> list_ex (holds_block b) pages)
        (py_split block_sep content)"
proof (rule paginate_result [OF assms(1), of content])
  fix pages'
  assume "paginate page_size content = Some pages'" "covers pages' content"
    and blocks: "\<And>b. b \<in> set (py_split block_sep content) \<Longrightarrow> int (length b) \<le> page_size \<Longrightarrow>
           \<exists>p \<in> set pages'. holds_block b p"
  then have "pages' = pages" "covers pages content" using assms(2) by auto
  moreover have "page_size < int (length b) \<or> list_ex (holds_block b) pages"
    if "b \<in> set (py_split block_sep content)" for b
    using blocks [OF that] \<open>pages' = pages\<close> by (cases "int (length b) \<le> page_size") (auto simp: list_ex_iff)
  ultimately show ?thesis
    by (auto simp: list_all_iff intro: covers_text)
qed

theorem paginate_keeps_text_witness:
  "filter (\<lambda>c. c \<noteq> newline) (concat [[65, 66], [67, 68, 69], [70]])
     = filter (\<lambda>c. c \<noteq> newline) [65, 66, 10, 10, 67, 68, 69, 70]
   \<and> list_all (\<lambda>b. 3 < int (length b) \<or> list_ex (holds_block b) [[65, 66], [67, 68, 69], [70]])
        (py_split block_sep [65, 66, 10, 10, 67, 68, 69, 70])"
proof -
  have "py_split block_sep [65, 66, 10, 10, 67, 68, 69, 70] = [[65, 66], [67, 68, 69, 70]]"
    by (simp add: py_split.simps block_sep_def newline_def)
  then have "paginate 3 [65, 66, 10, 10, 67, 68, 69, 70] = Some [[65, 66], [67, 68, 69], [70]]"
    by (simp add: paginate_def hard_split.simps pack_block_def slice_to_nonneg slice_from_nonneg
        block_sep_def)
  from paginate_keeps_text [OF _ this] show ?thesis by simp
qed

text \<open>
  C35. Exactly when \<open>paginate\<close> returns: for a positive page size always; for page size zero only
  when the content is blank-line separators at most; for a negative page size only for the
  empty content. In every other case its inner loop runs forever.
\<close>

theorem paginate_returns_iff:
  "paginate page_size content \<noteq> None \<longleftrightarrow>
     1 \<le> page_size \<or> content = []
     \<or> (page_size = 0 \<and> list_all (\<lambda>b. b = []) (py_split block_sep content))"
proof (cases "1 \<le> page_size \<or> content = []")
  case True
  then show ?thesis
    by (metis paginate_def option.distinct(1) paginate_result)
next
  case False
  obtain b bs where split: "py_split block_sep content = b # bs"
    by (meson list.exhaust py_split_not_Nil)
  show ?thesis
  proof (cases "page_size = 0 \<and> list_all (\<lambda>b. b = []) (py_split block_sep content)")
    case True
    then have "paginate_blocks 0 [] [] (py_split block_sep content) = Some ([], [])"
      by (simp add: paginate_blocks_zero list_all_iff)
    with True False show ?thesis by (simp add: paginate_def)
  next
    case diverge: False
    have "paginate_blocks page_size [] [] (py_split block_sep content) = None"
    proof (rule ccontr)
      assume "paginate_blocks page_size [] [] (py_split block_sep content) \<noteq> None"
      then have "\<forall>b \<in> set (py_split block_sep content). 0 < page_size \<or> (page_size = 0 \<and> b = [])"
        by (blast dest: paginate_blocks_returns)
      with False diverge show False by (auto simp: list_all_iff split)
    qed
    with False diverge show ?thesis by (simp add: paginate_def)
  qed
qed

subsection \<open>The same pages without the loops\<close>

text \<open>
  A reference definition: the pages in order, from the page that is still open and the blocks to
  come. A block that is too long closes the open page, fills pages of its own and leaves its rest
  open; a block that fits joins the open page; any other block closes it and is open next.
\<close>

fun layout :: "nat \<Rightarrow> pytext \<Rightarrow> pytext list \<Rightarrow> pytext list" where
  "layout n current [] = (if current = [] then [] else [current])"
| "layout n current (block # blocks) =
     (if n < length block
      then (if current = [] then [] else [current]) @ full_pages n block @ layout n (last_part n block) blocks
      else if current = [] then layout n block blocks
      else if length current + 2 + length block \<le> n then layout n (current @ block_sep @ block) blocks
      else current # layout n block blocks)"

fun close_page :: "pytext list \<times> pytext \<Rightarrow> pytext list" where
  "close_page (pages, current) = pages @ (if current = [] then [] else [current])"

lemma paginate_blocks_layout:
  assumes "0 < n"
  shows "map_option close_page (paginate_blocks (int n) pages current blocks) = Some (pages @ layout n current blocks)"
proof (induction blocks arbitrary: pages current)
  case (Cons block blocks)
  have "length (last_part n block) \<le> n" using last_part_length [OF assms] .
  then show ?case
    by (simp add: hard_split_eq [OF assms] pack_block_def Let_def Cons block_sep_def del: map_option_eq_Some)
qed simp

text \<open>
  C18. For a positive page size the nested loops of \<open>paginate\<close> compute the reference layout.
\<close>

theorem paginate_equals_layout:
  assumes "0 < n"
  shows "paginate (int n) content =
    Some (case layout n [] (py_split block_sep content) of [] \<Rightarrow> [[]] | page # pages \<Rightarrow> page # pages)"
proof -
  obtain r where r: "paginate_blocks (int n) [] [] (py_split block_sep content) = Some r"
    and close: "close_page r = layout n [] (py_split block_sep content)"
    using paginate_blocks_layout [OF assms, of "[]" "[]" "py_split block_sep content"] by auto
  obtain pages current where run: "r = (pages, current)" by (cases r)
  have eq: "layout n [] (py_split block_sep content) = pages @ (if current = [] then [] else [current])"
    using close by (simp add: run)
  show ?thesis
  proof (cases "content = []")
    case True
    have "py_split block_sep [] = [[]]" by (simp add: py_split.simps block_sep_def)
    with True assms show ?thesis by (simp add: paginate_def)
  next
    case False
    with r run show ?thesis unfolding eq by (simp add: paginate_def split: list.split)
  qed
qed

theorem paginate_equals_layout_witness:
  "paginate (int 3) [65, 66, 10, 10, 67, 68, 69, 70] = Some [[65, 66], [67, 68, 69], [70]]"
  using paginate_equals_layout [of 3 "[65, 66, 10, 10, 67, 68, 69, 70]"]
  by (simp add: py_split.simps block_sep_def newline_def full_pages.simps last_part.simps)

end
