(* ===== verification/Decimal.thy ===== *)
theory Decimal
  imports Prelude
begin

section \<open>Decimal numerals in strings\<close>

text \<open>
  \<^verbatim>\<open>str(n)\<close>, the format \<^verbatim>\<open>{n:05d}\<close> and \<^verbatim>\<open>int(s)\<close>: object keys, JSON numbers, queue
  names and environment variables are built from them.
\<close>

definition digit_char :: "nat \<Rightarrow> char" where
  "digit_char d = char_of (48 + d)"

definition digit_val :: "char \<Rightarrow> nat option" where
  "digit_val c = (let k = of_char c in if 48 \<le> k \<and> k \<le> 57 then Some (k - 48) else None)"

fun show_nat :: "nat \<Rightarrow> string" where
  "show_nat n = (if n < 10 then [digit_char n] else show_nat (n div 10) @ [digit_char (n mod 10)])"

declare show_nat.simps [simp del]

definition show_int :: "int \<Rightarrow> string" where
  "show_int i = (if i < 0 then ''-'' @ show_nat (nat (- i)) else show_nat (nat i))"

text \<open>\<^verbatim>\<open>{i:05d}\<close>: at least five characters, zeros after the sign.\<close>

definition show_pad5 :: "int \<Rightarrow> string" where
  "show_pad5 i =
     (if i < 0 then ''-'' @ replicate (4 - length (show_nat (nat (- i)))) (CHR ''0'') @ show_nat (nat (- i))
      else replicate (5 - length (show_nat (nat i))) (CHR ''0'') @ show_nat (nat i))"

fun read_digits :: "nat \<Rightarrow> string \<Rightarrow> nat option" where
  "read_digits acc [] = Some acc"
| "read_digits acc (c # cs) =
     (case digit_val c of None \<Rightarrow> None | Some d \<Rightarrow> read_digits (10 * acc + d) cs)"

text \<open>\<^verbatim>\<open>int(s)\<close> on a string: surrounding whitespace, one sign, digits with single underscores between.\<close>

fun drop_underscores :: "string \<Rightarrow> string option" where
  "drop_underscores [] = None"
| "drop_underscores [c] = (if digit_val c = None then None else Some [c])"
| "drop_underscores (c # d # cs) =
     (if digit_val c = None then None
      else if d = CHR ''_'' then map_option ((#) c) (drop_underscores cs)
      else map_option ((#) c) (drop_underscores (d # cs)))"

definition strip_string :: "string \<Rightarrow> string" where
  "strip_string s =
     rev (dropWhile (\<lambda>c. is_space (of_char c)) (rev (dropWhile (\<lambda>c. is_space (of_char c)) s)))"

definition py_int :: "string \<Rightarrow> exn + int" where
  "py_int s =
     (let t = strip_string s;
          neg = (t \<noteq> [] \<and> hd t = CHR ''-'');
          body = (if t \<noteq> [] \<and> (hd t = CHR ''-'' \<or> hd t = CHR ''+'') then tl t else t)
      in case Option.bind (drop_underscores body) (read_digits 0) of
           None \<Rightarrow> Inl (ValueError (''invalid literal for int() with base 10: '' @ [CHR 0x27] @ s @ [CHR 0x27]))
         | Some n \<Rightarrow> Inr (if neg then - int n else int n))"

subsection \<open>Reading back what was shown\<close>

lemma digit_val_char: "d < 10 \<Longrightarrow> digit_val (digit_char d) = Some d"
  by (simp add: digit_val_def digit_char_def)

lemma read_digits_append:
  "read_digits acc (xs @ ys) = Option.bind (read_digits acc xs) (\<lambda>a. read_digits a ys)"
  by (induction xs arbitrary: acc) (auto split: option.splits)

lemma read_show_nat: "read_digits 0 (show_nat n) = Some n"
proof (induction n rule: show_nat.induct)
  case (1 n)
  then show ?case
    by (cases "n < 10") (auto simp: show_nat.simps [of n] digit_val_char read_digits_append)
qed

lemma show_nat_inject [simp]: "show_nat m = show_nat n \<longleftrightarrow> m = n"
  by (metis option.inject read_show_nat)

lemma show_nat_digits: "c \<in> set (show_nat n) \<Longrightarrow> digit_val c \<noteq> None"
proof (induction n rule: show_nat.induct)
  case (1 n)
  then show ?case
    by (cases "n < 10") (auto simp: show_nat.simps [of n] digit_val_char)
qed

lemma show_nat_not_Nil [simp]: "show_nat n \<noteq> []"
  by (subst show_nat.simps) simp

lemma minus_not_digit [simp]: "digit_val (CHR ''-'') = None" "digit_val (CHR ''/'') = None"
    "digit_val (CHR ''_'') = None" "digit_val (CHR ''+'') = None"
  by (simp_all add: digit_val_def)

lemma hd_show_nat: "hd (show_nat n) \<noteq> CHR ''-''"
  using show_nat_digits [of "hd (show_nat n)" n] by auto

lemma show_int_inject [simp]: "show_int i = show_int j \<longleftrightarrow> i = j"
proof
  assume eq: "show_int i = show_int j"
  show "i = j"
  proof (cases "i < 0"; cases "j < 0")
    assume "i < 0" "\<not> j < 0"
    with eq hd_show_nat [of "nat j"] show ?thesis by (auto simp: show_int_def) (metis list.sel(1))
  next
    assume "\<not> i < 0" "j < 0"
    with eq hd_show_nat [of "nat i"] show ?thesis by (auto simp: show_int_def)
  qed (use eq in \<open>auto simp: show_int_def\<close>)
qed simp

lemma show_int_no_slash: "CHR ''/'' \<notin> set (show_int i)"
  using show_nat_digits [of "CHR ''/''"] by (auto simp: show_int_def)

lemma read_digits_zeros: "read_digits 0 (replicate k (CHR ''0'') @ s) = read_digits 0 s"
  by (induction k) (auto simp: digit_val_def)

lemma show_pad5_inject [simp]: "0 \<le> i \<Longrightarrow> 0 \<le> j \<Longrightarrow> show_pad5 i = show_pad5 j \<longleftrightarrow> i = j"
proof
  assume nn: "0 \<le> i" "0 \<le> j" and eq: "show_pad5 i = show_pad5 j"
  have "read_digits 0 (show_pad5 k) = Some (nat k)" if "0 \<le> k" for k
    using that by (simp add: show_pad5_def read_digits_zeros read_show_nat)
  with nn eq show "i = j" by (metis eq_nat_nat_iff option.inject)
qed simp

lemma show_pad5_no_slash: "CHR ''/'' \<notin> set (show_pad5 i)"
  using show_nat_digits [of "CHR ''/''"] by (auto simp: show_pad5_def)

text \<open>\<^verbatim>\<open>int(str(n)) == n\<close>: a default passed through the environment parser is itself.\<close>

lemma drop_underscores_digits:
  "s \<noteq> [] \<Longrightarrow> \<forall>c \<in> set s. digit_val c \<noteq> None \<Longrightarrow> drop_underscores s = Some s"
  by (induction s rule: drop_underscores.induct) auto

lemma digit_not_space: "digit_val c \<noteq> None \<Longrightarrow> \<not> is_space (of_char c)"
  by (auto simp: digit_val_def is_space_def Let_def split: if_splits)

lemma minus_not_space: "\<not> is_space (of_char (CHR ''-''))"
  by (simp add: is_space_def)

lemma strip_string_id:
  assumes "s \<noteq> []" "\<not> is_space (of_char (hd s))" "\<not> is_space (of_char (last s))"
  shows "strip_string s = s"
proof -
  have "dropWhile (\<lambda>c. is_space (of_char c)) s = s" using assms by (cases s) auto
  moreover have "dropWhile (\<lambda>c. is_space (of_char c)) (rev s) = rev s"
    using assms by (cases "rev s") (auto simp: last_rev [symmetric] simp del: last_rev)
  ultimately show ?thesis by (simp add: strip_string_def)
qed

lemma last_show_nat: "digit_val (last (show_nat n)) \<noteq> None"
  by (rule show_nat_digits [of _ n]) simp

lemma py_int_show_int: "py_int (show_int i) = Inr i"
proof (cases "i < 0")
  case True
  have "strip_string (CHR ''-'' # show_nat (nat (- i))) = CHR ''-'' # show_nat (nat (- i))"
    using digit_not_space [OF last_show_nat [of "nat (- i)"]] minus_not_space
    by (intro strip_string_id) simp_all
  with True show ?thesis
    by (simp add: py_int_def show_int_def drop_underscores_digits show_nat_digits read_show_nat)
next
  case False
  let ?s = "show_nat (nat i)"
  have hd: "digit_val (hd ?s) \<noteq> None" by (rule show_nat_digits [of _ "nat i"]) simp
  then have "hd ?s \<noteq> CHR ''-''" "hd ?s \<noteq> CHR ''+''" by auto
  moreover have "strip_string ?s = ?s"
    using last_show_nat [of "nat i"] hd by (intro strip_string_id) (simp_all add: digit_not_space)
  ultimately show ?thesis
    using False by (simp add: py_int_def show_int_def drop_underscores_digits show_nat_digits read_show_nat)
qed

end
