(* ===== verification/Utf8.thy ===== *)
theory Utf8
  imports Disk
begin

section \<open>UTF-8\<close>

text \<open>
  \<^verbatim>\<open>str.encode("utf-8")\<close> and the strict \<^verbatim>\<open>bytes.decode("utf-8")\<close>. Encoding raises on a lone
  surrogate; decoding raises on truncated, overlong, surrogate and out-of-range sequences.
\<close>

definition is_surrogate :: "nat \<Rightarrow> bool" where
  "is_surrogate c \<longleftrightarrow> 55296 \<le> c \<and> c \<le> 57343"

text \<open>The code points a Python string can hold, and those UTF-8 can encode.\<close>

definition encodable :: "nat \<Rightarrow> bool" where
  "encodable c \<longleftrightarrow> c < 1114112 \<and> \<not> is_surrogate c"

definition encode_point :: "nat \<Rightarrow> nat list" where
  "encode_point c =
     (if c < 128 then [c]
      else if c < 2048 then [192 + c div 64, 128 + c mod 64]
      else if c < 65536 then [224 + c div 4096, 128 + c div 64 mod 64, 128 + c mod 64]
      else [240 + c div 262144, 128 + c div 4096 mod 64, 128 + c div 64 mod 64, 128 + c mod 64])"

definition utf8_encode :: "pytext \<Rightarrow> exn + bytes" where
  "utf8_encode s =
     (if list_all encodable s then Inr (map word_of_nat (concat (map encode_point s)))
      else Inl (UnicodeError ''surrogates not allowed''))"

definition is_cont :: "nat \<Rightarrow> bool" where
  "is_cont b \<longleftrightarrow> 128 \<le> b \<and> b < 192"

definition cont_val :: "nat \<Rightarrow> nat" where
  "cont_val b = b - 128"

fun decode_points :: "nat list \<Rightarrow> pytext option" where
  "decode_points [] = Some []"
| "decode_points (a # bs) =
     (if a < 128 then map_option ((#) a) (decode_points bs)
      else if 194 \<le> a \<and> a < 224 then
        (case bs of
           b # bs' \<Rightarrow>
             if is_cont b then map_option ((#) ((a - 192) * 64 + cont_val b)) (decode_points bs')
             else None
         | _ \<Rightarrow> None)
      else if 224 \<le> a \<and> a < 240 then
        (case bs of
           b # c # bs' \<Rightarrow>
             let v = (a - 224) * 4096 + cont_val b * 64 + cont_val c in
             if is_cont b \<and> is_cont c \<and> 2048 \<le> v \<and> \<not> is_surrogate v
             then map_option ((#) v) (decode_points bs') else None
         | _ \<Rightarrow> None)
      else if 240 \<le> a \<and> a < 245 then
        (case bs of
           b # c # d # bs' \<Rightarrow>
             let v = (a - 240) * 262144 + cont_val b * 4096 + cont_val c * 64 + cont_val d in
             if is_cont b \<and> is_cont c \<and> is_cont d \<and> 65536 \<le> v \<and> v < 1114112
             then map_option ((#) v) (decode_points bs') else None
         | _ \<Rightarrow> None)
      else None)"

definition utf8_decode :: "bytes \<Rightarrow> exn + pytext" where
  "utf8_decode b =
     (case decode_points (map unat b) of
        None \<Rightarrow> Inl (OtherError ''UnicodeDecodeError'' ''invalid start byte'')
      | Some s \<Rightarrow> Inr s)"

subsection \<open>Round trip\<close>

lemma encode_point_bytes: "c < 1114112 \<Longrightarrow> b \<in> set (encode_point c) \<Longrightarrow> b < 256"
  by (auto simp: encode_point_def split: if_splits)

text \<open>The lead byte carries \<open>q\<close>, the continuation bytes the 6-bit digits \<open>x\<close>, \<open>y\<close>, \<open>z\<close>.\<close>

lemma decode_two:
  assumes "2 \<le> q" "q < 32" "x < 64"
  shows "decode_points ((192 + q) # (128 + x) # bs) = map_option ((#) (q * 64 + x)) (decode_points bs)"
  using assms by (simp add: is_cont_def cont_val_def)

lemma decode_three:
  assumes "q < 16" "x < 64" "y < 64" "2048 \<le> q * 4096 + x * 64 + y" "\<not> is_surrogate (q * 4096 + x * 64 + y)"
  shows "decode_points ((224 + q) # (128 + x) # (128 + y) # bs)
    = map_option ((#) (q * 4096 + x * 64 + y)) (decode_points bs)"
  using assms by (simp add: is_cont_def cont_val_def Let_def)

lemma decode_four:
  assumes "q < 5" "x < 64" "y < 64" "z < 64"
    "65536 \<le> q * 262144 + x * 4096 + y * 64 + z" "q * 262144 + x * 4096 + y * 64 + z < 1114112"
  shows "decode_points ((240 + q) # (128 + x) # (128 + y) # (128 + z) # bs)
    = map_option ((#) (q * 262144 + x * 4096 + y * 64 + z)) (decode_points bs)"
  using assms by (simp add: is_cont_def cont_val_def Let_def)

lemma digits64:
  "c div 64 * 64 + c mod 64 = (c :: nat)"
  "c div 4096 * 4096 + c div 64 mod 64 * 64 + c mod 64 = c"
  "c div 262144 * 262144 + c div 4096 mod 64 * 4096 + c div 64 mod 64 * 64 + c mod 64 = c"
proof -
  have a: "c div 64 * 64 + c mod 64 = c" by (rule div_mult_mod_eq)
  have b: "c div 4096 * 64 + c div 64 mod 64 = c div 64"
    using div_mult_mod_eq [of "c div 64" 64] by (simp add: div_mult2_eq [symmetric])
  have c: "c div 262144 * 64 + c div 4096 mod 64 = c div 4096"
    using div_mult_mod_eq [of "c div 4096" 64] by (simp add: div_mult2_eq [symmetric])
  show "c div 64 * 64 + c mod 64 = c" by (rule a)
  show "c div 4096 * 4096 + c div 64 mod 64 * 64 + c mod 64 = c" using a b by linarith
  show "c div 262144 * 262144 + c div 4096 mod 64 * 4096 + c div 64 mod 64 * 64 + c mod 64 = c"
    using a b c by linarith
qed

lemma decode_encode_point:
  assumes "encodable c"
  shows "decode_points (encode_point c @ bs) = map_option ((#) c) (decode_points bs)"
proof -
  consider "c < 128" | "128 \<le> c" "c < 2048" | "2048 \<le> c" "c < 65536" | "65536 \<le> c" "c < 1114112"
    using assms unfolding encodable_def by linarith
  then show ?thesis
  proof cases
    case 1
    then show ?thesis by (simp add: encode_point_def)
  next
    case 2
    then have "2 \<le> c div 64" "c div 64 < 32" "c mod 64 < 64" by simp_all
    from decode_two [OF this, of bs] 2 show ?thesis
      by (simp only: encode_point_def digits64 append_Cons append_Nil if_False if_True not_less [symmetric] simp_thms)
  next
    case 3
    have "\<not> is_surrogate c" using assms by (simp add: encodable_def)
    with 3 decode_three [of "c div 4096" "c div 64 mod 64" "c mod 64" bs] show ?thesis
      unfolding digits64 by (simp add: encode_point_def del: decode_points.simps)
  next
    case 4
    with decode_four [of "c div 262144" "c div 4096 mod 64" "c div 64 mod 64" "c mod 64" bs]
    show ?thesis unfolding digits64 by (simp add: encode_point_def del: decode_points.simps)
  qed
qed

lemma decode_encode_points:
  "list_all encodable s \<Longrightarrow> decode_points (concat (map encode_point s)) = Some s"
  by (induction s) (auto simp: decode_encode_point)

lemma unat_bytes: "\<forall>b \<in> set bs. b < 256 \<Longrightarrow> map unat (map (word_of_nat :: nat \<Rightarrow> 8 word) bs) = bs"
  by (induction bs) (auto simp: unat_of_nat)

lemma utf8_round_trip: "utf8_encode s = Inr b \<Longrightarrow> utf8_decode b = Inr s"
proof -
  assume enc: "utf8_encode s = Inr b"
  then have s: "list_all encodable s" and b: "b = map word_of_nat (concat (map encode_point s))"
    by (auto simp: utf8_encode_def split: if_splits)
  have "\<forall>x \<in> set (concat (map encode_point s)). x < 256"
    using s encode_point_bytes by (fastforce simp: list_all_iff encodable_def)
  then have "map unat b = concat (map encode_point s)" unfolding b by (rule unat_bytes)
  with s show "utf8_decode b = Inr s" by (simp add: utf8_decode_def decode_encode_points)
qed

lemma utf8_encode_ok: "list_all encodable s \<Longrightarrow> \<exists>b. utf8_encode s = Inr b"
  by (simp add: utf8_encode_def)

end
