(* ===== verification/Json.thy ===== *)
theory Json
  imports Decimal Utf8
begin

section \<open>JSON messages and manifests\<close>

text \<open>
  \<^verbatim>\<open>json.dumps(v).encode()\<close> with the default separators and ASCII output, and
  \<^verbatim>\<open>json.loads(raw)\<close> on UTF-8 bytes without a byte-order mark. A number with a fraction or
  an exponent is kept as its text.
\<close>

datatype json =
    JNull
  | JBool bool
  | JInt int
  | JFloat pytext
  | JStr pytext
  | JArr "json list"
  | JObj "(pytext \<times> json) list"

definition codes :: "string \<Rightarrow> pytext" where
  "codes s = map of_char s"

definition chars :: "pytext \<Rightarrow> string option" where
  "chars s = (if list_all (\<lambda>c. c < 256) s then Some (map char_of s) else None)"

subsection \<open>Writing\<close>

definition hex_digit :: "nat \<Rightarrow> nat" where
  "hex_digit d = (if d < 10 then 48 + d else 87 + d)"

definition u_escape :: "nat \<Rightarrow> pytext" where
  "u_escape c = [92, 117, hex_digit (c div 4096 mod 16), hex_digit (c div 256 mod 16),
     hex_digit (c div 16 mod 16), hex_digit (c mod 16)]"

definition escape_point :: "nat \<Rightarrow> pytext" where
  "escape_point c =
     (if c = 34 then [92, 34] else if c = 92 then [92, 92] else if c = 10 then [92, 110]
      else if c = 13 then [92, 114] else if c = 9 then [92, 116] else if c = 12 then [92, 102]
      else if c = 8 then [92, 98] else if 32 \<le> c \<and> c \<le> 126 then [c]
      else if c < 65536 then u_escape c
      else u_escape (55296 + (c - 65536) div 1024) @ u_escape (56320 + (c - 65536) mod 1024))"

definition dumps_str :: "pytext \<Rightarrow> pytext" where
  "dumps_str s = [34] @ concat (map escape_point s) @ [34]"

fun dumps :: "json \<Rightarrow> pytext" where
  "dumps JNull = codes ''null''"
| "dumps (JBool b) = codes (if b then ''true'' else ''false'')"
| "dumps (JInt i) = codes (show_int i)"
| "dumps (JFloat t) = t"
| "dumps (JStr s) = dumps_str s"
| "dumps (JArr vs) = [91] @ py_join [44, 32] (map dumps vs) @ [93]"
| "dumps (JObj kvs) =
     [123] @ py_join [44, 32] (map (\<lambda>kv. dumps_str (fst kv) @ [58, 32] @ dumps (snd kv)) kvs) @ [125]"

subsection \<open>Reading\<close>

definition is_ws :: "nat \<Rightarrow> bool" where
  "is_ws c \<longleftrightarrow> c = 32 \<or> c = 9 \<or> c = 10 \<or> c = 13"

abbreviation skip_ws :: "pytext \<Rightarrow> pytext" where
  "skip_ws \<equiv> dropWhile is_ws"

definition starts :: "nat \<Rightarrow> pytext \<Rightarrow> bool" where
  "starts c s \<longleftrightarrow> s \<noteq> [] \<and> hd s = c"

definition is_digit :: "nat \<Rightarrow> bool" where
  "is_digit c \<longleftrightarrow> 48 \<le> c \<and> c \<le> 57"

definition hex_val :: "nat \<Rightarrow> nat option" where
  "hex_val c = (if 48 \<le> c \<and> c \<le> 57 then Some (c - 48)
     else if 97 \<le> c \<and> c \<le> 102 then Some (c - 87)
     else if 65 \<le> c \<and> c \<le> 70 then Some (c - 55) else None)"

fun hex4 :: "pytext \<Rightarrow> (nat \<times> pytext) option" where
  "hex4 (a # b # c # d # r) =
     (case (hex_val a, hex_val b, hex_val c, hex_val d) of
        (Some w, Some x, Some y, Some z) \<Rightarrow> Some (w * 4096 + x * 256 + y * 16 + z, r)
      | _ \<Rightarrow> None)"
| "hex4 _ = None"

definition simple_escape :: "nat \<Rightarrow> nat option" where
  "simple_escape e = (if e = 34 then Some 34 else if e = 92 then Some 92 else if e = 47 then Some 47
     else if e = 98 then Some 8 else if e = 102 then Some 12 else if e = 110 then Some 10
     else if e = 114 then Some 13 else if e = 116 then Some 9 else None)"

text \<open>A \<^verbatim>\<open>\uXXXX\<close> escape, with the second half of a surrogate pair when there is one.\<close>

definition u_unescape :: "pytext \<Rightarrow> (nat \<times> pytext) option" where
  "u_unescape s =
     (case hex4 s of
        None \<Rightarrow> None
      | Some (u, r) \<Rightarrow>
          if 55296 \<le> u \<and> u \<le> 56319 \<and> take 2 r = [92, 117] then
            (case hex4 (drop 2 r) of
               None \<Rightarrow> None
             | Some (v, r') \<Rightarrow>
                 if 56320 \<le> v \<and> v \<le> 57343
                 then Some (65536 + (u - 55296) * 1024 + (v - 56320), r') else Some (u, r))
          else Some (u, r))"

lemma hex4_length: "hex4 s = Some (u, r) \<Longrightarrow> length r < length s"
  by (induction s rule: hex4.induct) (auto split: option.splits)

lemma u_unescape_length: "u_unescape s = Some (u, r) \<Longrightarrow> length r < length s"
  by (auto simp: u_unescape_def split: option.splits prod.splits if_splits dest!: hex4_length)

text \<open>The rest of a string literal after its opening quote.\<close>

function str_body :: "pytext \<Rightarrow> (pytext \<times> pytext) option" where
  "str_body s =
     (case s of
        [] \<Rightarrow> None
      | c # r \<Rightarrow>
          if c = 34 then Some ([], r)
          else if c = 92 then
            (case r of
               [] \<Rightarrow> None
             | e # r' \<Rightarrow>
                 if e = 117 then
                   (case u_unescape r' of
                      None \<Rightarrow> None
                    | Some (u, r'') \<Rightarrow> map_option (\<lambda>(x, t). (u # x, t)) (str_body r''))
                 else
                   (case simple_escape e of
                      None \<Rightarrow> None
                    | Some u \<Rightarrow> map_option (\<lambda>(x, t). (u # x, t)) (str_body r')))
          else if c < 32 then None
          else map_option (\<lambda>(x, t). (c # x, t)) (str_body r))"
  by pat_completeness auto
termination
  by (relation "measure length") (auto dest: u_unescape_length)

declare str_body.simps [simp del]

definition int_digits :: "pytext \<Rightarrow> pytext" where
  "int_digits t = (if starts 48 t then [48] else takeWhile is_digit t)"

definition fraction :: "pytext \<Rightarrow> pytext" where
  "fraction r = (if starts 46 r \<and> takeWhile is_digit (tl r) \<noteq> []
     then 46 # takeWhile is_digit (tl r) else [])"

definition exponent :: "pytext \<Rightarrow> pytext" where
  "exponent r =
     (if starts 101 r \<or> starts 69 r then
        (let sgn = (if starts 43 (tl r) \<or> starts 45 (tl r) then take 1 (tl r) else []);
             ds = takeWhile is_digit (drop (length sgn) (tl r))
         in if ds = [] then [] else take 1 r @ sgn @ ds)
      else [])"

definition parse_number :: "pytext \<Rightarrow> (json \<times> pytext) option" where
  "parse_number s =
     (let neg = starts 45 s;
          t = (if neg then tl s else s);
          ds = int_digits t;
          r = drop (length ds) t;
          frac = fraction r;
          ex = exponent (drop (length frac) r)
      in if ds = [] then None
         else if frac = [] \<and> ex = [] then
           (case read_digits 0 (map char_of ds) of
              None \<Rightarrow> None
            | Some n \<Rightarrow> Some (JInt (if neg then - int n else int n), r))
         else Some (JFloat ((if neg then [45] else []) @ ds @ frac @ ex),
                    drop (length frac + length ex) r))"

definition strip_prefix :: "string \<Rightarrow> pytext \<Rightarrow> pytext option" where
  "strip_prefix p s = (if take (length p) s = codes p then Some (drop (length p) s) else None)"

fun parse_value :: "nat \<Rightarrow> pytext \<Rightarrow> (json \<times> pytext) option"
  and parse_members :: "nat \<Rightarrow> pytext \<Rightarrow> ((pytext \<times> json) list \<times> pytext) option"
  and parse_elements :: "nat \<Rightarrow> pytext \<Rightarrow> (json list \<times> pytext) option" where
  "parse_value 0 s = None"
| "parse_value (Suc n) s =
     (if starts 34 s then map_option (\<lambda>(x, t). (JStr x, t)) (str_body (tl s))
      else if starts 123 s then
        (let t = skip_ws (tl s) in
         if starts 125 t then Some (JObj [], tl t)
         else map_option (\<lambda>(kvs, t). (JObj kvs, t)) (parse_members n t))
      else if starts 91 s then
        (let t = skip_ws (tl s) in
         if starts 93 t then Some (JArr [], tl t)
         else map_option (\<lambda>(vs, t). (JArr vs, t)) (parse_elements n t))
      else if strip_prefix ''null'' s \<noteq> None then Some (JNull, drop 4 s)
      else if strip_prefix ''true'' s \<noteq> None then Some (JBool True, drop 4 s)
      else if strip_prefix ''false'' s \<noteq> None then Some (JBool False, drop 5 s)
      else if strip_prefix ''NaN'' s \<noteq> None then Some (JFloat (codes ''NaN''), drop 3 s)
      else if strip_prefix ''Infinity'' s \<noteq> None then Some (JFloat (codes ''Infinity''), drop 8 s)
      else if strip_prefix ''-Infinity'' s \<noteq> None then Some (JFloat (codes ''-Infinity''), drop 9 s)
      else parse_number s)"
| "parse_members 0 s = None"
| "parse_members (Suc n) s =
     (if \<not> starts 34 s then None
      else case str_body (tl s) of
        None \<Rightarrow> None
      | Some (k, t) \<Rightarrow>
          if \<not> starts 58 (skip_ws t) then None
          else case parse_value n (skip_ws (tl (skip_ws t))) of
            None \<Rightarrow> None
          | Some (v, t') \<Rightarrow>
              let u = skip_ws t' in
              if starts 125 u then Some ([(k, v)], tl u)
              else if starts 44 u then
                map_option (\<lambda>(kvs, w). ((k, v) # kvs, w)) (parse_members n (skip_ws (tl u)))
              else None)"
| "parse_elements 0 s = None"
| "parse_elements (Suc n) s =
     (case parse_value n s of
        None \<Rightarrow> None
      | Some (v, t') \<Rightarrow>
          let u = skip_ws t' in
          if starts 93 u then Some ([v], tl u)
          else if starts 44 u then
            map_option (\<lambda>(vs, w). (v # vs, w)) (parse_elements n (skip_ws (tl u)))
          else None)"

text \<open>The fuel is twice the length of the input: every level of nesting spends two units and at least one character.\<close>

definition json_loads :: "bytes \<Rightarrow> exn + json" where
  "json_loads raw =
     (case utf8_decode raw of
        Inl e \<Rightarrow> Inl e
      | Inr s \<Rightarrow>
          (case parse_value (2 * length s + 1) (skip_ws s) of
             None \<Rightarrow> Inl (OtherError ''JSONDecodeError'' ''Expecting value'')
           | Some (v, t) \<Rightarrow>
               if skip_ws t = [] then Inr v else Inl (OtherError ''JSONDecodeError'' ''Extra data'')))"

definition json_dumps :: "json \<Rightarrow> exn + bytes" where
  "json_dumps v = utf8_encode (dumps v)"

text \<open>A key of a JSON object: of two members with one key, Python keeps the last.\<close>

definition json_get :: "string \<Rightarrow> (pytext \<times> json) list \<Rightarrow> json option" where
  "json_get k kvs = map_of (rev kvs) (codes k)"

subsection \<open>Reading back what was written\<close>

lemma hex_val_digit [simp]: "d < 16 \<Longrightarrow> hex_val (hex_digit d) = Some d"
  by (simp add: hex_val_def hex_digit_def)

lemma hex_digits: "c div 4096 mod 16 * 4096 + c div 256 mod 16 * 256 + c div 16 mod 16 * 16 + c mod 16 = c"
  if "c < 65536" for c :: nat
proof -
  have a: "c div 16 * 16 + c mod 16 = c" by (rule div_mult_mod_eq)
  have b: "c div 256 * 16 + c div 16 mod 16 = c div 16"
    using div_mult_mod_eq [of "c div 16" 16] by (simp add: div_mult2_eq [symmetric])
  have d: "c div 4096 * 16 + c div 256 mod 16 = c div 256"
    using div_mult_mod_eq [of "c div 256" 16] by (simp add: div_mult2_eq [symmetric])
  have "c div 4096 < 16" using that by (simp add: less_mult_imp_div_less)
  then have "c div 4096 mod 16 = c div 4096" by simp
  with a b d show ?thesis by linarith
qed

lemma hex4_digits:
  "w < 16 \<Longrightarrow> x < 16 \<Longrightarrow> y < 16 \<Longrightarrow> z < 16 \<Longrightarrow>
   hex4 (hex_digit w # hex_digit x # hex_digit y # hex_digit z # r)
     = Some (w * 4096 + x * 256 + y * 16 + z, r)"
  by simp

lemma u_escape_hex4:
  assumes "c < 65536"
  shows "\<exists>e. u_escape c = 92 # 117 # e \<and> hex4 (e @ r) = Some (c, r)"
proof -
  have "hex4 ([hex_digit (c div 4096 mod 16), hex_digit (c div 256 mod 16),
      hex_digit (c div 16 mod 16), hex_digit (c mod 16)] @ r) = Some (c, r)"
    using hex4_digits [of "c div 4096 mod 16" "c div 256 mod 16" "c div 16 mod 16" "c mod 16" r]
    unfolding hex_digits [OF assms] append_Cons append_Nil by (rule; simp)
  then show ?thesis unfolding u_escape_def by blast
qed

lemma u_unescape_low:
  assumes "c < 65536" "\<not> is_surrogate c"
  shows "\<exists>e. u_escape c = 92 # 117 # e \<and> u_unescape (e @ r) = Some (c, r)"
  using u_escape_hex4 [OF assms(1), of r] assms(2)
  by (auto simp: u_unescape_def is_surrogate_def)

lemma u_unescape_pair:
  assumes "65536 \<le> c" "c < 1114112"
  shows "\<exists>e. u_escape (55296 + (c - 65536) div 1024) @ u_escape (56320 + (c - 65536) mod 1024)
      = 92 # 117 # e \<and> u_unescape (e @ r) = Some (c, r)"
proof -
  let ?h = "55296 + (c - 65536) div 1024" and ?l = "56320 + (c - 65536) mod 1024"
  have d: "(c - 65536) div 1024 < 1024" using assms by (simp add: less_mult_imp_div_less)
  have m: "(c - 65536) mod 1024 < 1024" by simp
  obtain e where e: "u_escape ?l = 92 # 117 # e" "hex4 (e @ r) = Some (?l, r)"
    using u_escape_hex4 [of ?l r] m by auto
  obtain f where f: "u_escape ?h = 92 # 117 # f" "hex4 (f @ 92 # 117 # e @ r) = Some (?h, 92 # 117 # e @ r)"
    using u_escape_hex4 [of ?h "92 # 117 # e @ r"] d by auto
  have "65536 + (c - 65536) div 1024 * 1024 + (c - 65536) mod 1024 = c"
    using assms div_mult_mod_eq [of "c - 65536" 1024] by linarith
  then have "u_unescape (f @ 92 # 117 # e @ r) = Some (c, r)"
    using e(2) f(2) d m by (simp add: u_unescape_def)
  with e(1) f(1) show ?thesis by simp
qed

lemma str_body_point:
  assumes "encodable c"
  shows "str_body (escape_point c @ r) = map_option (\<lambda>(x, t). (c # x, t)) (str_body r)"
proof -
  consider "c \<in> {34, 92, 10, 13, 9, 12, 8}"
    | "32 \<le> c" "c \<le> 126" "c \<noteq> 34" "c \<noteq> 92"
    | "c \<notin> {34, 92, 10, 13, 9, 12, 8}" "\<not> (32 \<le> c \<and> c \<le> 126)" "c < 65536"
    | "65536 \<le> c" "c < 1114112"
    using assms unfolding encodable_def by fastforce
  then show ?thesis
  proof cases
    case 1
    then show ?thesis
      by (elim insertE emptyE) (simp_all add: escape_point_def str_body.simps [of "_ # _"] simple_escape_def)
  next
    case 2
    then show ?thesis by (simp add: escape_point_def str_body.simps [of "_ # _"])
  next
    case 3
    then have "escape_point c = u_escape c" unfolding escape_point_def by auto
    with u_unescape_low [of c r] 3 assms show ?thesis
      by (auto simp: encodable_def str_body.simps [of "_ # _"])
  next
    case 4
    then have "escape_point c
        = u_escape (55296 + (c - 65536) div 1024) @ u_escape (56320 + (c - 65536) mod 1024)"
      by (simp add: escape_point_def)
    then obtain e where "escape_point c = 92 # 117 # e" "u_unescape (e @ r) = Some (c, r)"
      using u_unescape_pair [OF 4, of r] by auto
    then show ?thesis by (simp add: str_body.simps [of "_ # _"])
  qed
qed

lemma str_body_dumps:
  "list_all encodable s \<Longrightarrow> str_body (concat (map escape_point s) @ 34 # r) = Some (s, r)"
  by (induction s) (simp_all add: str_body_point str_body.simps [of "34 # r"])

text \<open>What may follow a value inside an object or at the end of the input.\<close>

definition value_end :: "pytext \<Rightarrow> bool" where
  "value_end r \<longleftrightarrow> r = [] \<or> hd r \<in> {44, 93, 125}"

lemma digit_code: "digit_val c \<noteq> None \<longleftrightarrow> is_digit (of_char c)"
  by (auto simp: digit_val_def is_digit_def Let_def split: if_splits)

lemma map_char_of_codes [simp]: "map char_of (codes s) = s"
  by (simp add: codes_def comp_def)

lemma length_codes [simp]: "length (codes s) = length s"
  by (simp add: codes_def)

lemma codes_eq_Nil [simp]: "codes s = [] \<longleftrightarrow> s = []"
  by (simp add: codes_def)

lemma value_end_not_digit: "value_end r \<Longrightarrow> takeWhile is_digit r = []"
  by (cases r) (auto simp: value_end_def is_digit_def)

lemma takeWhile_show_nat:
  assumes "value_end r"
  shows "takeWhile is_digit (codes (show_nat n) @ r) = codes (show_nat n)"
proof -
  have "\<forall>c \<in> set (codes (show_nat n)). is_digit c"
    using show_nat_digits digit_code by (auto simp: codes_def)
  then show ?thesis using value_end_not_digit [OF assms] by (simp add: takeWhile_append2)
qed

text \<open>A decimal numeral starts with 0 only if it is 0.\<close>

lemma hd_show_nat_zero: "hd (show_nat n) = CHR ''0'' \<Longrightarrow> show_nat n = ''0''"
proof (induction n rule: show_nat.induct)
  case (1 n)
  show ?case
  proof (cases "n < 10")
    case True
    then show ?thesis using "1.prems" by (simp add: show_nat.simps [of n])
  next
    case False
    then have "hd (show_nat n) = hd (show_nat (n div 10))"
      by (simp add: show_nat.simps [of n] hd_append)
    then have "show_nat (n div 10) = ''0''" using "1.IH" "1.prems" False by simp
    then have "n div 10 = 0" using read_show_nat [of "n div 10"] by (simp add: digit_val_def)
    with False show ?thesis by simp
  qed
qed

lemma parse_show_nat:
  assumes "value_end r"
  shows "int_digits (codes (show_nat n) @ r) = codes (show_nat n)"
proof (cases "starts 48 (codes (show_nat n) @ r)")
  case True
  then have "of_char (hd (show_nat n)) = (48 :: nat)"
    by (cases "show_nat n") (auto simp: starts_def codes_def)
  moreover have "of_char (CHR ''0'') = (48 :: nat)" by simp
  ultimately have "hd (show_nat n) = CHR ''0''" by (metis char_of_char)
  then have "show_nat n = ''0''" by (rule hd_show_nat_zero)
  then show ?thesis using True by (simp add: codes_def int_digits_def)
next
  case False
  then show ?thesis by (simp only: int_digits_def if_False takeWhile_show_nat [OF assms])
qed

lemma value_end_number: "value_end r \<Longrightarrow> fraction r = []" "value_end r \<Longrightarrow> exponent r = []"
  by (auto simp: value_end_def starts_def fraction_def exponent_def)

lemma not_starts_minus: "\<not> starts 45 (codes (show_nat n) @ r)"
proof -
  have "is_digit (of_char (hd (show_nat n)))"
    using show_nat_digits [of "hd (show_nat n)" n] digit_code by simp
  then show ?thesis by (cases "show_nat n") (auto simp: starts_def codes_def is_digit_def)
qed

lemma parse_number_show_int:
  assumes "value_end r"
  shows "parse_number (codes (show_int i) @ r) = Some (JInt i, r)"
proof -
  note ends = value_end_number [OF assms] and digits = parse_show_nat [OF assms]
  show ?thesis
  proof (cases "i < 0")
    case True
    have "codes (show_int i) @ r = 45 # codes (show_nat (nat (- i))) @ r"
      using True by (simp add: show_int_def codes_def)
    moreover have "starts 45 (45 # s)" for s by (simp add: starts_def)
    ultimately show ?thesis
      using True ends digits [of "nat (- i)"] unfolding parse_number_def Let_def
      by (simp add: read_show_nat)
  next
    case False
    then have "codes (show_int i) @ r = codes (show_nat (nat i)) @ r" by (simp add: show_int_def)
    with False ends digits [of "nat i"] not_starts_minus [of "nat i" r] show ?thesis
      unfolding parse_number_def Let_def by (simp add: read_show_nat)
  qed
qed

text \<open>The scalars the sources put into JSON objects.\<close>

fun scalar_ok :: "json \<Rightarrow> bool" where
  "scalar_ok JNull = True"
| "scalar_ok (JBool b) = True"
| "scalar_ok (JInt i) = True"
| "scalar_ok (JStr s) = list_all encodable s"
| "scalar_ok _ = False"

lemma hd_show_int_code:
  "\<exists>c s. codes (show_int i) = c # s \<and> (c = 45 \<and> s = codes (show_nat (nat (- i))) \<or> is_digit c)"
proof (cases "i < 0")
  case True
  then show ?thesis by (simp add: show_int_def codes_def)
next
  case False
  have "is_digit (of_char (hd (show_nat (nat i))))"
    using show_nat_digits [of "hd (show_nat (nat i))" "nat i"] digit_code by simp
  with False show ?thesis by (cases "show_nat (nat i)") (auto simp: show_int_def codes_def)
qed

lemma show_int_not_Infinity: "strip_prefix ''-Infinity'' (codes (show_int i) @ r) = None"
proof -
  have "is_digit (of_char (hd (show_nat (nat (- i)))))"
    using show_nat_digits [of "hd (show_nat (nat (- i)))" "nat (- i)"] digit_code by simp
  then show ?thesis
    using hd_show_int_code [of i]
    by (cases "show_nat (nat (- i))") (auto simp: strip_prefix_def codes_def is_digit_def)
qed

lemma parse_value_scalar:
  assumes "scalar_ok v" and "value_end r" and "0 < n"
  shows "parse_value n (dumps v @ r) = Some (v, r)"
proof -
  obtain m where n: "n = Suc m" using assms(3) by (cases n) auto
  show ?thesis
  proof (cases v)
    case (JInt i)
    obtain c s where cs: "codes (show_int i) = c # s" "c = 45 \<or> is_digit c"
      using hd_show_int_code [of i] by blast
    have "strip_prefix p (c # s @ r) = None" if "p \<noteq> []" "65 \<le> (of_char (hd p) :: nat)" for p
      using that cs(2) by (cases p) (auto simp: strip_prefix_def codes_def is_digit_def)
    then show ?thesis
      using JInt n cs parse_number_show_int [OF assms(2), of i] show_int_not_Infinity [of i r]
      by (auto simp: starts_def is_digit_def)
  next
    case (JStr s)
    then show ?thesis
      using n assms(1) str_body_dumps [of s r] by (simp add: dumps_str_def starts_def)
  qed (use assms n in \<open>auto simp: starts_def strip_prefix_def codes_def\<close>)
qed

text \<open>Flat objects, the only values the sources write.\<close>

definition flat_ok :: "(pytext \<times> json) list \<Rightarrow> bool" where
  "flat_ok kvs \<longleftrightarrow> list_all (\<lambda>(k, v). list_all encodable k \<and> scalar_ok v) kvs"

abbreviation dumps_members :: "(pytext \<times> json) list \<Rightarrow> pytext" where
  "dumps_members kvs \<equiv> py_join [44, 32] (map (\<lambda>kv. dumps_str (fst kv) @ [58, 32] @ dumps (snd kv)) kvs)"

lemma hd_dumps_scalar: "scalar_ok v \<Longrightarrow> \<not> is_ws (hd (dumps v @ r)) \<and> dumps v \<noteq> []"
proof (cases v)
  case (JInt i)
  obtain c s where "codes (show_int i) = c # s" "c = 45 \<or> is_digit c"
    using hd_show_int_code [of i] by blast
  with JInt show ?thesis by (auto simp: is_ws_def is_digit_def)
qed (auto simp: codes_def is_ws_def dumps_str_def)

lemma skip_ws_scalar: "scalar_ok v \<Longrightarrow> skip_ws (dumps v @ r) = dumps v @ r"
  using hd_dumps_scalar [of v r] by (cases "dumps v @ r") auto

lemma parse_members_step:
  assumes "list_all encodable k" "scalar_ok v" "value_end r"
  shows "parse_members (Suc (Suc n)) (dumps_str k @ [58, 32] @ dumps v @ r) =
    (let u = skip_ws r in
     if starts 125 u then Some ([(k, v)], tl u)
     else if starts 44 u then
       map_option (\<lambda>(kvs, w). ((k, v) # kvs, w)) (parse_members (Suc n) (skip_ws (tl u)))
     else None)"
proof -
  let ?t = "58 # 32 # dumps v @ r"
  have body: "str_body (concat (map escape_point k) @ 34 # ?t) = Some (k, ?t)"
    by (rule str_body_dumps [OF assms(1)])
  have "skip_ws ?t = ?t" by (simp add: is_ws_def)
  moreover have "skip_ws (32 # dumps v @ r) = dumps v @ r"
    using skip_ws_scalar [OF assms(2), of r] by (simp add: is_ws_def)
  moreover have "parse_value (Suc n) (dumps v @ r) = Some (v, r)"
    by (rule parse_value_scalar [OF assms(2,3)]) simp
  ultimately show ?thesis
    using body by (simp add: dumps_str_def starts_def del: parse_value.simps)
qed

lemma parse_members_dumps:
  "flat_ok kvs \<Longrightarrow> kvs \<noteq> [] \<Longrightarrow> length kvs < n \<Longrightarrow>
   parse_members n (dumps_members kvs @ 125 # r) = Some (kvs, r)"
proof (induction kvs arbitrary: n)
  case (Cons kv kvs)
  obtain k v where kv: "kv = (k, v)" by (cases kv)
  with Cons.prems have ok: "list_all encodable k" "scalar_ok v" "flat_ok kvs"
    by (auto simp: flat_ok_def)
  obtain m where n: "n = Suc (Suc m)" using Cons.prems(3) by (cases n; cases "n - 1") auto
  show ?case
  proof (cases kvs)
    case Nil
    have "value_end (125 # r)" by (simp add: value_end_def)
    from parse_members_step [OF ok(1,2) this, of m] show ?thesis
      by (simp add: n kv Nil starts_def is_ws_def del: parse_members.simps)
  next
    case (Cons kv' kvs')
    let ?r = "44 # 32 # dumps_members kvs @ 125 # r"
    have "value_end ?r" by (simp add: value_end_def)
    moreover have "\<not> is_ws (hd (dumps_members kvs @ 125 # r))" "dumps_members kvs \<noteq> []"
      using Cons by (cases kvs'; simp add: dumps_str_def is_ws_def)+
    then have "skip_ws (dumps_members kvs @ 125 # r) = dumps_members kvs @ 125 # r"
      by (cases "dumps_members kvs") auto
    moreover have "parse_members (Suc m) (dumps_members kvs @ 125 # r) = Some (kvs, r)"
      using Cons.IH ok(3) Cons Cons.prems(3) n by (auto simp del: parse_members.simps)
    ultimately show ?thesis
      using parse_members_step [OF ok(1,2), of ?r m]
      by (simp add: n kv py_join_Cons Cons starts_def is_ws_def del: parse_members.simps)
  qed
qed simp

lemma parse_value_object:
  assumes "flat_ok kvs" "length kvs + 1 < n"
  shows "parse_value n (dumps (JObj kvs) @ r) = Some (JObj kvs, r)"
proof -
  obtain m where n: "n = Suc m" using assms(2) by (cases n) auto
  show ?thesis
  proof (cases kvs)
    case Nil
    then show ?thesis by (simp add: n starts_def is_ws_def)
  next
    case (Cons kv kvs')
    have "skip_ws (dumps_members kvs @ 125 # r) = dumps_members kvs @ 125 # r"
      and "\<not> starts 125 (dumps_members kvs @ 125 # r)"
      using Cons by (cases kvs'; simp add: dumps_str_def is_ws_def starts_def)+
    moreover have "parse_members m (dumps_members kvs @ 125 # r) = Some (kvs, r)"
      using assms n Cons by (intro parse_members_dumps) auto
    ultimately show ?thesis by (simp add: n starts_def Let_def)
  qed
qed

text \<open>The output is ASCII, so encoding it never fails.\<close>

lemma hex_digit_ascii: "hex_digit (d mod 16) < 128"
  using mod_less_divisor [of 16 d] unfolding hex_digit_def by (simp del: mod_less_divisor)

lemma u_escape_ascii: "x \<in> set (u_escape c) \<Longrightarrow> x < 128"
  using hex_digit_ascii by (auto simp: u_escape_def)

lemma escape_point_ascii: "x \<in> set (escape_point c) \<Longrightarrow> x < 128"
  by (auto simp: escape_point_def split: if_splits dest: u_escape_ascii)

lemma dumps_str_ascii: "x \<in> set (dumps_str s) \<Longrightarrow> x < 128"
  by (auto simp: dumps_str_def dest: escape_point_ascii)

lemma show_int_ascii: "x \<in> set (codes (show_int i)) \<Longrightarrow> x < 128"
proof -
  have "of_char c < (128 :: nat)" if "c \<in> set (show_nat n)" for c n
    using show_nat_digits [OF that] digit_code [of c] by (simp add: is_digit_def)
  then show "x \<in> set (codes (show_int i)) \<Longrightarrow> x < 128"
    by (auto simp: codes_def show_int_def split: if_splits)
qed

lemma dumps_scalar_ascii: "scalar_ok v \<Longrightarrow> x \<in> set (dumps v) \<Longrightarrow> x < 128"
proof (cases v)
  case (JInt i)
  then show "x \<in> set (dumps v) \<Longrightarrow> x < 128" using show_int_ascii [of x i] by simp
qed (auto simp: codes_def dest: dumps_str_ascii split: if_splits)

lemma in_py_join: "x \<in> set (py_join sep xs) \<Longrightarrow> x \<in> set sep \<or> (\<exists>y \<in> set xs. x \<in> set y)"
  by (induction sep xs rule: py_join.induct) auto

lemma dumps_flat_ascii:
  assumes "flat_ok kvs" and "x \<in> set (dumps (JObj kvs))"
  shows "x < 128"
proof -
  have "x \<in> {123, 125} \<or> x \<in> set (dumps_members kvs)" using assms(2) by auto
  then consider "x \<in> {123, 125, 44, 32}"
    | kv where "kv \<in> set kvs" "x \<in> set (dumps_str (fst kv) @ [58, 32] @ dumps (snd kv))"
    using in_py_join [of x "[44, 32]"] by fastforce
  then show ?thesis
  proof cases
    case 2
    then have "scalar_ok (snd kv)" using assms(1) by (auto simp: flat_ok_def list_all_iff)
    with 2 show ?thesis using dumps_str_ascii [of x] dumps_scalar_ascii [of "snd kv" x] by auto
  qed auto
qed

lemma length_py_join: "[] \<notin> set xs \<Longrightarrow> length xs \<le> length (py_join sep xs)"
proof (induction sep xs rule: py_join.induct)
  case (2 sep x)
  then show ?case by (cases x) auto
next
  case (3 sep x y ys)
  then show ?case by (cases x) auto
qed simp

text \<open>The round trip of a flat JSON object through bytes.\<close>

lemma json_round_trip:
  assumes "flat_ok kvs"
  shows "\<exists>b. json_dumps (JObj kvs) = Inr b \<and> json_loads b = Inr (JObj kvs)"
proof -
  let ?s = "dumps (JObj kvs)"
  have "list_all encodable ?s"
    using dumps_flat_ascii [OF assms] by (force simp: list_all_iff encodable_def is_surrogate_def)
  then obtain b where b: "utf8_encode ?s = Inr b" using utf8_encode_ok by blast
  have "length kvs \<le> length (dumps_members kvs)"
    using length_py_join [of "map (\<lambda>kv. dumps_str (fst kv) @ [58, 32] @ dumps (snd kv)) kvs" "[44, 32]"]
    by (force simp: dumps_str_def)
  then have "length kvs + 1 < 2 * length ?s + 1" by simp
  from parse_value_object [OF assms this, of "[]"]
  have "parse_value (2 * length ?s + 1) ?s = Some (JObj kvs, [])" by (simp only: append_Nil2)
  moreover have "skip_ws ?s = ?s" by (simp add: is_ws_def)
  ultimately have "json_loads b = Inr (JObj kvs)"
    using utf8_round_trip [OF b] unfolding json_loads_def
    by (simp del: dumps.simps parse_value.simps)
  with b show ?thesis by (auto simp: json_dumps_def)
qed

lemma of_char_less_256: "of_char c < (256 :: nat)" for c :: char
  by simp

lemma codes_encodable: "list_all encodable (codes s)"
proof -
  have "encodable (of_char c)" for c :: char
    using of_char_less_256 [of c] unfolding encodable_def is_surrogate_def by linarith
  then show ?thesis by (simp add: codes_def list_all_iff)
qed

lemma chars_codes [simp]: "chars (codes s) = Some s"
proof -
  have "of_char c < (256 :: nat)" for c :: char by simp
  then show ?thesis unfolding chars_def codes_def by (simp add: list_all_iff comp_def)
qed

lemma codes_inject [simp]: "codes s = codes t \<longleftrightarrow> s = t"
  by (metis chars_codes option.inject)

end
