(* ===== verification/Remote.thy ===== *)
theory Remote
  imports Prelude
begin

section \<open>Calls to a service that may fail\<close>

text \<open>
  The database, the object store and the broker are other processes. A call to one of them
  may be refused before it takes effect, or take effect and lose its reply; either way the
  caller sees an exception. A \<open>remote\<close> is the state of a service together with the outcome
  of the calls still to come; when the list is used up, calls succeed. Quantifying over the
  list quantifies over every pattern of failures.
\<close>

datatype fault = Pass | Refuse exn | Lose exn

record 'd remote =
  r_state :: 'd
  r_faults :: "fault list"

definition call :: "('d, 'a) io \<Rightarrow> ('d remote, 'a) io" where
  "call f r =
     (case r_faults r of
        [] \<Rightarrow> (case f (r_state r) of (x, d) \<Rightarrow> (x, r\<lparr>r_state := d\<rparr>))
      | Pass # fs \<Rightarrow> (case f (r_state r) of (x, d) \<Rightarrow> (x, r\<lparr>r_state := d, r_faults := fs\<rparr>))
      | Refuse e # fs \<Rightarrow> (Inl e, r\<lparr>r_faults := fs\<rparr>)
      | Lose e # fs \<Rightarrow> (case f (r_state r) of (x, d) \<Rightarrow> (Inl e, r\<lparr>r_state := d, r_faults := fs\<rparr>)))"

definition healthy :: "'d remote \<Rightarrow> bool" where
  "healthy r \<longleftrightarrow> r_faults r = []"

abbreviation healthy_at :: "'d \<Rightarrow> 'd remote" where
  "healthy_at d \<equiv> \<lparr>r_state = d, r_faults = []\<rparr>"

lemma call_healthy [simp]:
  "call f (healthy_at d) = (case f d of (x, d') \<Rightarrow> (x, healthy_at d'))"
  by (simp add: call_def)

lemma call_cases:
  obtains
    (ok) fs where "call f r = (fst (f (r_state r)), \<lparr>r_state = snd (f (r_state r)), r_faults = fs\<rparr>)"
  | (refused) e fs where "call f r = (Inl e, \<lparr>r_state = r_state r, r_faults = fs\<rparr>)"
  | (lost) e fs where "call f r = (Inl e, \<lparr>r_state = snd (f (r_state r)), r_faults = fs\<rparr>)"
proof -
  obtain x d where f: "f (r_state r) = (x, d)" by fastforce
  show thesis
  proof (cases "r_faults r")
    case Nil
    then have "call f r = (x, \<lparr>r_state = d, r_faults = []\<rparr>)" using f by (simp add: call_def)
    then show ?thesis using ok f by simp
  next
    case (Cons a fs)
    show ?thesis
    proof (cases a)
      case Pass
      then have "call f r = (x, \<lparr>r_state = d, r_faults = fs\<rparr>)" using f Cons by (simp add: call_def)
      then show ?thesis using ok f by simp
    next
      case (Refuse e)
      then have "call f r = (Inl e, \<lparr>r_state = r_state r, r_faults = fs\<rparr>)" using Cons by (simp add: call_def)
      then show ?thesis by (rule refused)
    next
      case (Lose e)
      then have "call f r = (Inl e, \<lparr>r_state = d, r_faults = fs\<rparr>)" using f Cons by (simp add: call_def)
      then show ?thesis using lost f by simp
    qed
  qed
qed

text \<open>A call either leaves the service as it was or applies the operation once.\<close>

lemma call_state: "r_state (snd (call f r)) = r_state r \<or> r_state (snd (call f r)) = snd (f (r_state r))"
  by (cases rule: call_cases [of f r]) auto

lemma call_success:
  "call f r = (Inr x, r') \<Longrightarrow> f (r_state r) = (Inr x, r_state r')"
  by (cases rule: call_cases [of f r]) (auto simp: prod_eq_iff)

lemma keeps_call:
  "keeps P f \<Longrightarrow> keeps (\<lambda>r. P (r_state r)) (call f)"
  unfolding keeps_def using call_state by metis

text \<open>How many of the calls to come will fail; a call that fails uses up one.\<close>

definition failures :: "fault list \<Rightarrow> nat" where
  "failures fs = length (filter (\<lambda>f. f \<noteq> Pass) fs)"

lemma call_failures:
  assumes "call f r = (x, r')" "\<And>e. fst (f (r_state r)) \<noteq> Inl e"
  shows "failures (r_faults r') + (case x of Inl e \<Rightarrow> 1 | Inr _ \<Rightarrow> 0) \<le> failures (r_faults r)"
  using assms
  by (cases "f (r_state r)"; cases "fst (f (r_state r))")
    (auto simp: call_def failures_def split: list.splits fault.splits)

end
