(* ===== verification/Storage.thy ===== *)
theory Storage
  imports Json Settings Remote
begin

section \<open>storage.py: content-addressed object storage\<close>

text \<open>
  Key derivation and the object operations. The S3 client is not part of the repository: it
  is the record \<open>s3_api\<close> of the calls the source makes, over an arbitrary state, and the
  locale \<open>object_store\<close> states what the source relies on. SHA-256 and the installed
  markitdown version are parameters too. Every call names the configured bucket, and nothing in
  the program reads the content type of an object, so both arguments are left out.
  \<^verbatim>\<open>download_file\<close> writes to the path it is given: its value is what it has written there, with the
  exception that ended it if one did. Nothing is assumed of the bytes an interrupted download has
  written.
\<close>

record 's s3_api =
  get_object :: "string \<Rightarrow> ('s, bytes) io"
  put_object :: "string \<Rightarrow> bytes \<Rightarrow> ('s, unit) io"
  head_object :: "string \<Rightarrow> ('s, unit) io"
  download_file :: "string \<Rightarrow> ('s, bytes \<times> exn option) io"   \<comment> \<open>\<open>Inl\<close>: raised before writing\<close>
  head_bucket :: "('s, unit) io"
  create_bucket :: "('s, unit) io"

subsection \<open>Key derivation\<close>

text \<open>\<^verbatim>\<open>iter(lambda: fh.read(n), b"")\<close>: the file in blocks of at most \<open>n\<close> bytes.\<close>

function read_blocks :: "nat \<Rightarrow> bytes \<Rightarrow> bytes list" where
  "read_blocks n b = (if 0 < n \<and> b \<noteq> [] then take n b # read_blocks n (drop n b) else [])"
  by pat_completeness auto
termination
  by (relation "measure (\<lambda>(n, b). length b)") auto

declare read_blocks.simps [simp del]

text \<open>
  \<^verbatim>\<open>hashlib\<close> documents that successive updates are one update with the concatenation of
  their arguments.
\<close>

definition hash_file :: "(bytes \<Rightarrow> string) \<Rightarrow> bytes \<Rightarrow> string" where
  "hash_file sha256 content = sha256 (concat (read_blocks (1024 * 1024) content))"

definition str_bytes :: "string \<Rightarrow> bytes" where
  "str_bytes s = map word_of_nat (concat (map encode_point (codes s)))"

definition config_fingerprint ::
  "settings \<Rightarrow> (exn + string) \<Rightarrow> (bytes \<Rightarrow> string) \<Rightarrow> bool \<Rightarrow> string" where
  "config_fingerprint cfg version sha256 use_llm =
     (let markitdown_version = (case version of Inl e \<Rightarrow> ''unknown'' | Inr v \<Rightarrow> v);
          parts = py_join ''|''
            [markitdown_version,
             if use_llm then ''llm'' else ''nollm'',
             if use_llm then OPENAI_MODEL cfg else ''-'',
             show_int (PAGE_SIZE cfg),
             show_int (PAGES_PER_CHUNK cfg),
             show_int (MIN_PAGES_FOR_PARALLEL cfg)]
      in take 16 (sha256 (str_bytes parts)))"

definition make_doc_key ::
  "settings \<Rightarrow> (exn + string) \<Rightarrow> (bytes \<Rightarrow> string) \<Rightarrow> string \<Rightarrow> bool \<Rightarrow> string" where
  "make_doc_key cfg version sha256 file_hash use_llm =
     file_hash @ '':'' @ config_fingerprint cfg version sha256 use_llm"

definition source_key :: "string \<Rightarrow> string" where
  "source_key file_hash = ''src/'' @ file_hash"

definition part_key :: "string \<Rightarrow> int \<Rightarrow> string" where
  "part_key doc_key chunk_index = ''parts/'' @ doc_key @ ''/'' @ show_pad5 chunk_index @ ''.md''"

definition manifest_key :: "string \<Rightarrow> string" where
  "manifest_key doc_key = ''docs/'' @ doc_key @ ''/manifest.json''"

definition page_key :: "string \<Rightarrow> int \<Rightarrow> string" where
  "page_key doc_key page = ''docs/'' @ doc_key @ ''/pages/'' @ show_int page @ ''.md''"

subsection \<open>Operations\<close>

text \<open>
  The thread's client is made once from the settings; \<open>make_client\<close> is \<^verbatim>\<open>boto3.client\<close>. The
  operations below take the client they got this way as their argument.
\<close>

record client_options =
  endpoint_url :: "string option"
  region_name :: string
  aws_access_key_id :: "string option"
  aws_secret_access_key :: "string option"
  max_attempts :: nat
  retry_mode :: string

definition client_options_of :: "settings \<Rightarrow> client_options" where
  "client_options_of cfg =
     \<lparr>endpoint_url = S3_ENDPOINT cfg, region_name = S3_REGION cfg,
      aws_access_key_id = S3_ACCESS_KEY_ID cfg, aws_secret_access_key = S3_SECRET_ACCESS_KEY cfg,
      max_attempts = 3, retry_mode = ''standard''\<rparr>"

definition get_client :: "(client_options \<Rightarrow> exn + 'c) \<Rightarrow> settings \<Rightarrow> ('c option, 'c) io" where
  "get_client make_client cfg = memo (make_client (client_options_of cfg))"

definition reset_client :: "('c option, unit) io" where
  "reset_client local = (Inr (), None)"

lemma get_client_kept:
  "get_client make_client cfg local = (Inr c, local') \<Longrightarrow> get_client make_client' cfg' local' = (Inr c, local')"
  unfolding get_client_def by (rule memo_kept)

lemma get_client_after_reset:
  "fst (get_client make_client cfg (snd (reset_client local))) = make_client (client_options_of cfg)"
  by (simp add: get_client_def reset_client_def memo_def split: sum.split)

definition missing_code :: "string \<Rightarrow> bool" where
  "missing_code code \<longleftrightarrow> code = ''NoSuchKey'' \<or> code = ''404''"

definition get_bytes :: "'s s3_api \<Rightarrow> string \<Rightarrow> ('s, bytes option) io" where
  "get_bytes S key =
     try_else (get_object S key)
       (\<lambda>e. case e of
          ClientError code m \<Rightarrow> if missing_code code then ret None else throw e
        | _ \<Rightarrow> throw e)
       (\<lambda>b. ret (Some b))"

definition put_bytes :: "'s s3_api \<Rightarrow> string \<Rightarrow> bytes \<Rightarrow> ('s, unit) io" where
  "put_bytes S key data = put_object S key data"

definition is_client_error :: "exn \<Rightarrow> bool" where
  "is_client_error e = (case e of ClientError c m \<Rightarrow> True | _ \<Rightarrow> False)"

definition ensure_bucket :: "'s s3_api \<Rightarrow> ('s, unit) io" where
  "ensure_bucket S =
     try_else (head_bucket S)
       (\<lambda>e. if is_client_error e then
              catch (create_bucket S)
                (\<lambda>e'. case e' of
                   ClientError code m \<Rightarrow>
                     if code = ''BucketAlreadyOwnedByYou'' \<or> code = ''BucketAlreadyExists''
                     then ret () else throw e'
                 | _ \<Rightarrow> throw e')
            else throw e)
       ret"

definition object_exists :: "'s s3_api \<Rightarrow> string \<Rightarrow> ('s, bool) io" where
  "object_exists S key =
     try_else (head_object S key)
       (\<lambda>e. if is_client_error e then ret False else throw e)
       (\<lambda>_. ret True)"

definition put_source :: "'s s3_api \<Rightarrow> string \<Rightarrow> bytes \<Rightarrow> ('s, string) io" where
  "put_source S file_hash content =
     (let key = source_key file_hash in
      bindE (object_exists S key) (\<lambda>present.
      if present then ret key
      else thenE (put_object S key content) (ret key)))"

text \<open>The state is the store and the local disk, where the download writes at time \<open>t\<close>.\<close>

definition get_source :: "'s s3_api \<Rightarrow> string \<Rightarrow> string \<Rightarrow> int \<Rightarrow> ('s \<times> disk, string) io" where
  "get_source S file_hash dest_path t = (\<lambda>(s, d).
     case download_file S (source_key file_hash) s of
       (Inl e, s') \<Rightarrow> (Inl e, (s', d))
     | (Inr (written, err), s') \<Rightarrow>
         (case err of None \<Rightarrow> Inr dest_path | Some e \<Rightarrow> Inl e, (s', write_file dest_path written t d)))"

definition encode_text :: "pytext \<Rightarrow> ('s, bytes) io" where
  "encode_text t = (case utf8_encode t of Inl e \<Rightarrow> throw e | Inr b \<Rightarrow> ret b)"

definition decode_text :: "bytes option \<Rightarrow> ('s, pytext option) io" where
  "decode_text d = (case d of None \<Rightarrow> ret None
     | Some b \<Rightarrow> (case utf8_decode b of Inl e \<Rightarrow> throw e | Inr t \<Rightarrow> ret (Some t)))"

definition put_part :: "'s s3_api \<Rightarrow> string \<Rightarrow> int \<Rightarrow> pytext \<Rightarrow> ('s, string) io" where
  "put_part S doc_key chunk_index markdown =
     (let key = part_key doc_key chunk_index in
      bindE (encode_text markdown) (\<lambda>b.
      thenE (put_bytes S key b) (ret key)))"

definition get_part :: "'s s3_api \<Rightarrow> string \<Rightarrow> int \<Rightarrow> ('s, pytext option) io" where
  "get_part S doc_key chunk_index = bindE (get_bytes S (part_key doc_key chunk_index)) decode_text"

record manifest =
  m_doc_key :: string
  m_total_pages :: int
  m_total_length :: int
  m_page_size :: int

definition manifest_json :: "manifest \<Rightarrow> json" where
  "manifest_json m = JObj
     [(codes ''doc_key'', JStr (codes (m_doc_key m))),
      (codes ''total_pages'', JInt (m_total_pages m)),
      (codes ''total_length'', JInt (m_total_length m)),
      (codes ''page_size'', JInt (m_page_size m))]"

definition put_page :: "'s s3_api \<Rightarrow> string \<Rightarrow> int \<times> pytext \<Rightarrow> ('s, unit) io" where
  "put_page S doc_key page =
     bindE (encode_text (snd page)) (put_bytes S (page_key doc_key (fst page)))"

definition put_pages :: "'s s3_api \<Rightarrow> string \<Rightarrow> pytext list \<Rightarrow> ('s, unit) io" where
  "put_pages S doc_key pages = foreachE (py_enumerate 1 pages) (put_page S doc_key)"

definition put_document :: "settings \<Rightarrow> 's s3_api \<Rightarrow> string \<Rightarrow> pytext list \<Rightarrow> int \<Rightarrow> ('s, manifest) io" where
  "put_document cfg S doc_key pages total_length =
     (let manifest = \<lparr>m_doc_key = doc_key, m_total_pages = int (length pages),
                      m_total_length = total_length, m_page_size = PAGE_SIZE cfg\<rparr>
      in thenE (put_pages S doc_key pages)
         (bindE (case json_dumps (manifest_json manifest) of Inl e \<Rightarrow> throw e | Inr b \<Rightarrow> ret b) (\<lambda>b.
          thenE (put_bytes S (manifest_key doc_key) b) (ret manifest))))"

text \<open>
  The dictionary \<^verbatim>\<open>json.loads\<close> returns, read at the four keys the callers index it with. The
  lookups are made here; a manifest without one of the keys raises.
\<close>

definition manifest_of_json :: "json \<Rightarrow> manifest option" where
  "manifest_of_json j =
     (case j of
        JObj kvs \<Rightarrow>
          (case (json_get ''doc_key'' kvs, json_get ''total_pages'' kvs,
                 json_get ''total_length'' kvs, json_get ''page_size'' kvs) of
             (Some (JStr k), Some (JInt p), Some (JInt l), Some (JInt z)) \<Rightarrow>
               (case chars k of
                  None \<Rightarrow> None
                | Some k' \<Rightarrow> Some \<lparr>m_doc_key = k', m_total_pages = p, m_total_length = l, m_page_size = z\<rparr>)
           | _ \<Rightarrow> None)
      | _ \<Rightarrow> None)"

definition decode_manifest :: "bytes \<Rightarrow> exn + manifest" where
  "decode_manifest b =
     sbind (json_loads b) (\<lambda>j.
       case manifest_of_json j of
         None \<Rightarrow> Inl (OtherError ''KeyError'' ''manifest'')
       | Some m \<Rightarrow> Inr m)"

definition get_manifest :: "'s s3_api \<Rightarrow> string \<Rightarrow> ('s, manifest option) io" where
  "get_manifest S doc_key =
     bindE (get_bytes S (manifest_key doc_key)) (\<lambda>d.
       case d of
         None \<Rightarrow> ret None
       | Some b \<Rightarrow> (case decode_manifest b of Inl e \<Rightarrow> throw e | Inr m \<Rightarrow> ret (Some m)))"

definition get_page :: "'s s3_api \<Rightarrow> string \<Rightarrow> int \<Rightarrow> ('s, pytext option) io" where
  "get_page S doc_key page = bindE (get_bytes S (page_key doc_key page)) decode_text"

definition storage_health :: "'s s3_api \<Rightarrow> ('s, bool) io" where
  "storage_health S = try_else (head_bucket S) (\<lambda>e. ret False) (\<lambda>_. ret True)"

subsection \<open>Keys and codecs\<close>

lemma concat_read_blocks: "0 < n \<Longrightarrow> concat (read_blocks n b) = b"
proof (induction n b rule: read_blocks.induct)
  case (1 n b)
  then show ?case by (cases "b = []") (simp_all add: read_blocks.simps [of n])
qed

lemma page_key_inject [simp]: "page_key dk i = page_key dk j \<longleftrightarrow> i = j"
  by (simp add: page_key_def)

lemma part_key_inject [simp]: "0 \<le> i \<Longrightarrow> 0 \<le> j \<Longrightarrow> part_key dk i = part_key dk j \<longleftrightarrow> i = j"
  by (simp add: part_key_def)

lemma manifest_key_inject [simp]: "manifest_key dk = manifest_key dk' \<longleftrightarrow> dk = dk'"
  by (simp add: manifest_key_def)

text \<open>Keys of different families never coincide.\<close>

lemma last_key:
  "last (page_key dk i) = CHR ''d''" "last (part_key dk i) = CHR ''d''"
  "last (manifest_key dk) = CHR ''n''"
  by (simp_all add: page_key_def part_key_def manifest_key_def)

lemma hd_key:
  "hd (page_key dk i) = CHR ''d''" "hd (part_key dk i) = CHR ''p''"
  "hd (manifest_key dk) = CHR ''d''" "hd (source_key h) = CHR ''s''"
  by (simp_all add: page_key_def part_key_def manifest_key_def source_key_def)

lemma key_families_last [simp]:
  "page_key dk i \<noteq> manifest_key dk'" "manifest_key dk' \<noteq> page_key dk i"
  by (auto dest!: arg_cong [where f = last] simp: last_key)

lemma key_families_hd [simp]:
  "part_key dk i \<noteq> manifest_key dk'" "manifest_key dk' \<noteq> part_key dk i"
  "part_key dk i \<noteq> page_key dk' j" "page_key dk' j \<noteq> part_key dk i"
  "source_key h \<noteq> manifest_key dk" "manifest_key dk \<noteq> source_key h"
  "source_key h \<noteq> page_key dk i" "page_key dk i \<noteq> source_key h"
  "source_key h \<noteq> part_key dk i" "part_key dk i \<noteq> source_key h"
  by (auto dest!: arg_cong [where f = hd] simp: hd_key)

text \<open>A manifest read back from its JSON bytes is the manifest that was written.\<close>

lemma manifest_round_trip: "\<exists>b. json_dumps (manifest_json m) = Inr b \<and> decode_manifest b = Inr m"
proof -
  have "flat_ok [(codes ''doc_key'', JStr (codes (m_doc_key m))),
      (codes ''total_pages'', JInt (m_total_pages m)),
      (codes ''total_length'', JInt (m_total_length m)),
      (codes ''page_size'', JInt (m_page_size m))]"
    by (simp add: flat_ok_def codes_encodable)
  from json_round_trip [OF this] obtain b where
    b: "json_dumps (manifest_json m) = Inr b" "json_loads b = Inr (manifest_json m)"
    unfolding manifest_json_def by blast
  moreover have "manifest_of_json (manifest_json m) = Some m"
    by (simp add: manifest_of_json_def manifest_json_def json_get_def)
  ultimately show ?thesis by (simp add: decode_manifest_def)
qed

subsection \<open>What the object store promises\<close>

text \<open>
  A read returns the last write to its key; a failing write either did nothing or took
  effect; nothing else changes what is stored.
\<close>

abbreviation doc_manifest :: "settings \<Rightarrow> string \<Rightarrow> pytext list \<Rightarrow> int \<Rightarrow> manifest" where
  "doc_manifest cfg dk pages len \<equiv>
     \<lparr>m_doc_key = dk, m_total_pages = int (length pages), m_total_length = len, m_page_size = PAGE_SIZE cfg\<rparr>"

locale object_store =
  fixes S :: "'s s3_api"
    and view :: "'s \<Rightarrow> string \<Rightarrow> bytes option"
  assumes get_ok: "get_object S k s = (Inr b, s') \<Longrightarrow> view s k = Some b"
    and get_missing:
      "get_object S k s = (Inl (ClientError c m), s') \<Longrightarrow> missing_code c \<Longrightarrow> view s k = None"
    and get_view: "view (snd (get_object S k s)) = view s"
    and head_ok: "head_object S k s = (Inr u, s') \<Longrightarrow> view s k \<noteq> None"
    and head_view: "view (snd (head_object S k s)) = view s"
    and download_ok: "download_file S k s = (Inr (b, None), s') \<Longrightarrow> view s k = Some b"
    and download_view: "view (snd (download_file S k s)) = view s"
    and put_ok: "put_object S k b s = (Inr u, s') \<Longrightarrow> view s' = (view s)(k \<mapsto> b)"
    and put_fail: "put_object S k b s = (Inl e, s') \<Longrightarrow> view s' = view s \<or> view s' = (view s)(k \<mapsto> b)"
    and bucket_view: "view (snd (head_bucket S s)) = view s" "view (snd (create_bucket S s)) = view s"

text \<open>No manifest points at a page that is not stored.\<close>

definition manifests_closed :: "(string \<Rightarrow> bytes option) \<Rightarrow> bool" where
  "manifests_closed v \<longleftrightarrow>
     (\<forall>dk b m i. v (manifest_key dk) = Some b \<longrightarrow> decode_manifest b = Inr m \<longrightarrow>
        1 \<le> i \<longrightarrow> i \<le> m_total_pages m \<longrightarrow> v (page_key dk i) \<noteq> None)"

lemma manifests_closed_put:
  "manifests_closed v \<Longrightarrow> (\<And>dk. k \<noteq> manifest_key dk) \<Longrightarrow> manifests_closed (v(k \<mapsto> b))"
  unfolding manifests_closed_def by simp metis

lemma manifests_closed_manifest:
  assumes "manifests_closed v" and "decode_manifest b = Inr m"
    and "\<And>i. 1 \<le> i \<Longrightarrow> i \<le> m_total_pages m \<Longrightarrow> v (page_key dk i) \<noteq> None"
  shows "manifests_closed (v(manifest_key dk \<mapsto> b))"
  using assms unfolding manifests_closed_def by auto

context object_store
begin

lemma put_view:
  "view (snd (put_object S k b s)) = view s \<or> view (snd (put_object S k b s)) = (view s)(k \<mapsto> b)"
proof (cases "put_object S k b s")
  case (Pair r s')
  then show ?thesis using put_ok [of k b s] put_fail [of k b s] by (cases r) auto
qed

lemma get_bytes_view: "get_bytes S k s = (r, s') \<Longrightarrow> view s' = view s"
  using get_view [of k s]
  by (auto simp: get_bytes_def io_simps split: prod.splits sum.splits exn.splits if_splits)

lemma get_bytes_result: "get_bytes S k s = (Inr d, s') \<Longrightarrow> d = view s k"
  by (auto simp: get_bytes_def io_simps get_ok split: prod.splits sum.splits exn.splits if_splits
      dest: get_missing)

lemma put_part_view:
  "view (snd (put_part S dk i t s)) = view s
   \<or> (\<exists>b. utf8_encode t = Inr b \<and> view (snd (put_part S dk i t s)) = (view s)(part_key dk i \<mapsto> b))"
  using put_view [of "part_key dk i" _ s]
  by (auto simp: put_part_def put_bytes_def encode_text_def io_simps Let_def split: sum.splits prod.splits)
    (metis snd_conv)+

lemma put_part_ok:
  "put_part S dk i t s = (Inr k, s') \<Longrightarrow>
   k = part_key dk i \<and> (\<exists>b. utf8_encode t = Inr b \<and> view s' = (view s)(part_key dk i \<mapsto> b))"
  by (auto simp: put_part_def put_bytes_def encode_text_def io_simps Let_def
      split: sum.splits prod.splits dest: put_ok)

lemma get_part_view: "get_part S dk i s = (r, s') \<Longrightarrow> view s' = view s"
  by (auto simp: get_part_def decode_text_def io_simps dest: get_bytes_view
      split: prod.splits sum.splits option.splits)

lemma get_part_result:
  "get_part S dk i s = (Inr (Some t), s') \<Longrightarrow>
   \<exists>b. view s (part_key dk i) = Some b \<and> utf8_decode b = Inr t"
  by (auto simp: get_part_def decode_text_def io_simps
      split: prod.splits sum.splits option.splits dest: get_bytes_result [symmetric])

lemma put_pages_closed:
  "keeps (\<lambda>s. manifests_closed (view s)) (put_pages S dk pages)"
proof -
  have "keeps (\<lambda>s. manifests_closed (view s)) (put_bytes S (page_key dk i) b)" for i b
    unfolding put_bytes_def using put_view manifests_closed_put
    by (intro keepsI) (metis key_families_last(1))
  moreover have "keeps P (encode_text c)" for P c
    by (auto simp: encode_text_def split: sum.split intro: keeps_intros)
  ultimately show ?thesis
    unfolding put_pages_def put_page_def by (intro keeps_foreachE) (auto intro!: keeps_bindE)
qed

text \<open>What a successful \<open>put_pages\<close> has stored, and what it has left alone.\<close>

lemma put_page_ok:
  "put_page S dk (i, t) s = (Inr u, s') \<Longrightarrow>
   \<exists>b. utf8_encode t = Inr b \<and> put_object S (page_key dk i) b s = (Inr (), s')"
  by (auto simp: put_page_def io_ok encode_text_def put_bytes_def split: sum.splits)

lemma put_pages_ok_from:
  assumes "foreachE (py_enumerate n pages) (put_page S dk) s = (Inr u, s')"
  shows "(\<forall>j < length pages. \<exists>b. utf8_encode (pages ! j) = Inr b \<and> view s' (page_key dk (n + int j)) = Some b)
    \<and> (\<forall>k. (\<forall>i \<ge> n. k \<noteq> page_key dk i) \<longrightarrow> view s' k = view s k)"
  using assms
proof (induction pages arbitrary: n s)
  case Nil
  then show ?case by (simp add: io_simps)
next
  case (Cons p pages)
  obtain b s1 where b: "utf8_encode p = Inr b" and put: "put_object S (page_key dk n) b s = (Inr (), s1)"
    and rest: "foreachE (py_enumerate (n + 1) pages) (put_page S dk) s1 = (Inr u, s')"
    using Cons.prems by (auto simp: io_ok dest!: put_page_ok)
  note IH = Cons.IH [OF rest]
  have "view s1 = (view s)(page_key dk n \<mapsto> b)" by (rule put_ok [OF put])
  then have first: "view s' (page_key dk n) = Some b" and frame: "\<And>k. \<forall>i \<ge> n. k \<noteq> page_key dk i \<Longrightarrow> view s' k = view s k"
    using IH by auto
  have "\<exists>c. utf8_encode ((p # pages) ! j) = Inr c \<and> view s' (page_key dk (n + int j)) = Some c"
    if "j < length (p # pages)" for j
    using that b first IH by (cases j) (auto simp: algebra_simps)
  with frame show ?case by blast
qed

lemma put_pages_ok:
  assumes "put_pages S dk pages s = (Inr u, s')"
  shows "\<And>j. j < length pages \<Longrightarrow> \<exists>b. utf8_encode (pages ! j) = Inr b \<and> view s' (page_key dk (1 + int j)) = Some b"
    and "\<And>k. (\<And>i. k \<noteq> page_key dk i) \<Longrightarrow> view s' k = view s k"
  using put_pages_ok_from [OF assms [unfolded put_pages_def]] by blast+

lemma put_pages_stored:
  assumes "put_pages S dk pages s = (Inr u, s')" "1 \<le> i" "i \<le> int (length pages)"
  shows "view s' (page_key dk i) \<noteq> None"
proof -
  have "nat (i - 1) < length pages" using assms(2,3) by auto
  from put_pages_ok(1) [OF assms(1) this] assms(2) show ?thesis by auto
qed

text \<open>The manifest \<open>put_document\<close> writes.\<close>

lemma put_document_closed:
  "keeps (\<lambda>s. manifests_closed (view s)) (put_document cfg S dk pages len)"
proof (rule keepsI)
  fix s assume closed: "manifests_closed (view s)"
  obtain b where b: "json_dumps (manifest_json (doc_manifest cfg dk pages len)) = Inr b"
    "decode_manifest b = Inr (doc_manifest cfg dk pages len)"
    using manifest_round_trip by blast
  obtain r s1 where put: "put_pages S dk pages s = (r, s1)" by fastforce
  have closed1: "manifests_closed (view s1)"
    using keepsD [OF put_pages_closed closed, of dk pages] put by simp
  show "manifests_closed (view (snd (put_document cfg S dk pages len s)))"
  proof (cases r)
    case (Inl e)
    with put closed1 show ?thesis by (simp add: put_document_def Let_def thenE_raise)
  next
    case (Inr u)
    obtain r2 s2 where man: "put_object S (manifest_key dk) b s1 = (r2, s2)" by fastforce
    have "manifests_closed ((view s1)(manifest_key dk \<mapsto> b))"
      using closed1 b(2) put_pages_stored [of dk pages s u s1] put Inr
      by (intro manifests_closed_manifest) auto
    then have "manifests_closed (view s2)"
      using put_view [of "manifest_key dk" b s1] man closed1 by auto
    moreover have "snd (put_document cfg S dk pages len s) = s2"
      using put man Inr b(1) by (auto simp: put_document_def put_bytes_def io_simps Let_def split: sum.splits)
    ultimately show ?thesis by simp
  qed
qed

lemma put_document_ok:
  assumes "put_document cfg S dk pages len s = (Inr m, s')"
  shows "m = doc_manifest cfg dk pages len"
    and "\<exists>b. view s' (manifest_key dk) = Some b \<and> decode_manifest b = Inr m"
    and "\<And>j. j < length pages \<Longrightarrow> \<exists>b. utf8_encode (pages ! j) = Inr b \<and> view s' (page_key dk (1 + int j)) = Some b"
    and "\<And>k. k \<noteq> manifest_key dk \<Longrightarrow> (\<And>i. k \<noteq> page_key dk i) \<Longrightarrow> view s' k = view s k"
proof -
  obtain b where b: "json_dumps (manifest_json (doc_manifest cfg dk pages len)) = Inr b"
    "decode_manifest b = Inr (doc_manifest cfg dk pages len)"
    using manifest_round_trip by blast
  obtain s1 where put: "put_pages S dk pages s = (Inr (), s1)"
    and man: "put_object S (manifest_key dk) b s1 = (Inr (), s')" and m: "m = doc_manifest cfg dk pages len"
    using assms b(1) by (auto simp: put_document_def put_bytes_def io_ok Let_def split: sum.splits)
  have v: "view s' = (view s1)(manifest_key dk \<mapsto> b)" by (rule put_ok [OF man])
  show "m = doc_manifest cfg dk pages len" by (rule m)
  show "\<exists>b. view s' (manifest_key dk) = Some b \<and> decode_manifest b = Inr m" using v b m by simp
  show "\<exists>b. utf8_encode (pages ! j) = Inr b \<and> view s' (page_key dk (1 + int j)) = Some b"
    if "j < length pages" for j using put_pages_ok(1) [OF put that] v by simp
  show "view s' k = view s k" if "k \<noteq> manifest_key dk" "\<And>i. k \<noteq> page_key dk i" for k
    using put_pages_ok(2) [OF put, of k] that v by simp
qed

end

text \<open>An object store that is up: every call returns what the store holds.\<close>

locale object_store_up = object_store +
  fixes up :: "'s \<Rightarrow> bool"
  assumes up_get: "up s \<Longrightarrow> view s k = Some b \<Longrightarrow> \<exists>s'. get_object S k s = (Inr b, s') \<and> up s'"
    and up_get_missing: "up s \<Longrightarrow> view s k = None \<Longrightarrow>
      \<exists>c m s'. get_object S k s = (Inl (ClientError c m), s') \<and> missing_code c \<and> up s'"
    and up_put: "up s \<Longrightarrow> \<exists>s'. put_object S k b s = (Inr (), s') \<and> up s'"
    and up_head: "up s \<Longrightarrow> view s k \<noteq> None \<Longrightarrow> \<exists>s'. head_object S k s = (Inr (), s') \<and> up s'"
    and up_head_missing: "up s \<Longrightarrow> view s k = None \<Longrightarrow>
      \<exists>c m s'. head_object S k s = (Inl (ClientError c m), s') \<and> up s'"
    and up_download: "up s \<Longrightarrow> view s k = Some b \<Longrightarrow> \<exists>s'. download_file S k s = (Inr (b, None), s') \<and> up s'"
begin

lemma up_get_bytes: "up s \<Longrightarrow> \<exists>s'. get_bytes S k s = (Inr (view s k), s') \<and> up s' \<and> view s' = view s"
proof -
  assume up: "up s"
  show ?thesis
  proof (cases "view s k")
    case None
    then obtain c m s' where "get_object S k s = (Inl (ClientError c m), s')" "missing_code c" "up s'"
      using up_get_missing [OF up] by blast
    with None show ?thesis using get_view [of k s]
      by (simp add: get_bytes_def try_else_raise io_simps)
  next
    case (Some b)
    then obtain s' where "get_object S k s = (Inr b, s')" "up s'" using up_get [OF up] by blast
    with Some show ?thesis using get_view [of k s]
      by (simp add: get_bytes_def try_else_run io_simps)
  qed
qed

lemma up_put_part:
  assumes "up s" "utf8_encode t = Inr b"
  shows "\<exists>s'. put_part S dk i t s = (Inr (part_key dk i), s') \<and> up s'
    \<and> view s' = (view s)(part_key dk i \<mapsto> b)"
proof -
  obtain s' where s': "put_object S (part_key dk i) b s = (Inr (), s')" "up s'"
    using up_put [OF assms(1)] by blast
  then show ?thesis
    using assms(2) put_ok [OF s'(1)]
    by (simp add: put_part_def encode_text_def put_bytes_def thenE_run ret_def Let_def)
qed

lemma up_get_part:
  assumes "up s" "view s (part_key dk i) = Some b" "utf8_decode b = Inr t"
  shows "\<exists>s'. get_part S dk i s = (Inr (Some t), s') \<and> up s' \<and> view s' = view s"
  using up_get_bytes [OF assms(1), of "part_key dk i"] assms(2,3)
  by (auto simp: get_part_def bindE_run decode_text_def ret_def)

lemma up_put_pages_from:
  "up s \<Longrightarrow> list_all (list_all encodable) pages \<Longrightarrow>
   \<exists>s'. foreachE (py_enumerate n pages) (put_page S dk) s = (Inr (), s') \<and> up s'"
proof (induction pages arbitrary: n s)
  case (Cons p pages)
  then obtain b where b: "utf8_encode p = Inr b" using utf8_encode_ok [of p] by auto
  obtain s1 where "put_object S (page_key dk n) b s = (Inr (), s1)" and up1: "up s1"
    using up_put [OF Cons.prems(1)] by blast
  then have "put_page S dk (n, p) s = (Inr (), s1)"
    using b by (simp add: put_page_def encode_text_def put_bytes_def)
  with Cons.IH [OF up1] Cons.prems(2) show ?case by (simp add: thenE_run)
qed (simp add: ret_def)

lemma up_put_document:
  assumes "up s" "list_all (list_all encodable) pages"
  shows "\<exists>s'. put_document cfg S dk pages len s = (Inr (doc_manifest cfg dk pages len), s') \<and> up s'"
proof -
  obtain b where b: "json_dumps (manifest_json (doc_manifest cfg dk pages len)) = Inr b"
    using manifest_round_trip by blast
  obtain s1 where s1: "put_pages S dk pages s = (Inr (), s1)" "up s1"
    using up_put_pages_from [OF assms, of 1 dk] unfolding put_pages_def by blast
  obtain s2 where "put_object S (manifest_key dk) b s1 = (Inr (), s2)" "up s2"
    using up_put [OF s1(2)] by blast
  with s1 b show ?thesis
    by (simp add: put_document_def put_bytes_def Let_def thenE_run ret_def)
qed

lemma up_get_manifest:
  assumes "up s" "view s (manifest_key dk) = Some b" "decode_manifest b = Inr m"
  shows "\<exists>s'. get_manifest S dk s = (Inr (Some m), s') \<and> up s' \<and> view s' = view s"
  using up_get_bytes [OF assms(1), of "manifest_key dk"] assms(2,3)
  by (auto simp: get_manifest_def bindE_run ret_def)

lemma up_get_page:
  assumes "up s" "view s (page_key dk i) = Some b" "utf8_decode b = Inr t"
  shows "\<exists>s'. get_page S dk i s = (Inr (Some t), s') \<and> up s' \<and> view s' = view s"
  using up_get_bytes [OF assms(1), of "page_key dk i"] assms(2,3)
  by (auto simp: get_page_def bindE_run decode_text_def ret_def)

end

subsection \<open>An S3-like store\<close>

text \<open>
  A bucket of objects behind calls that may fail, with the error codes S3 documents. It
  satisfies both contracts; it is up when no failure is pending and the bucket exists.
\<close>

record s3 =
  s3_bucket :: bool
  s3_objects :: "string \<Rightarrow> bytes option"

text \<open>A failing call does not claim that the object is missing.\<close>

definition s3_exn :: "exn \<Rightarrow> exn" where
  "s3_exn e = (case e of ClientError c m \<Rightarrow> ClientError ''InternalError'' m | _ \<Rightarrow> e)"

fun s3_fault :: "fault \<Rightarrow> fault" where
  "s3_fault Pass = Pass"
| "s3_fault (Refuse e) = Refuse (s3_exn e)"
| "s3_fault (Lose e) = Lose (s3_exn e)"

definition s3_call :: "(s3, 'a) io \<Rightarrow> (s3 remote, 'a) io" where
  "s3_call f r = call f (r\<lparr>r_faults := map s3_fault (r_faults r)\<rparr>)"

definition s3_get :: "string \<Rightarrow> (s3, bytes) io" where
  "s3_get k d =
     (if \<not> s3_bucket d then (Inl (ClientError ''NoSuchBucket'' ''bucket''), d)
      else case s3_objects d k of
        None \<Rightarrow> (Inl (ClientError ''NoSuchKey'' k), d)
      | Some b \<Rightarrow> (Inr b, d))"

definition s3_put :: "string \<Rightarrow> bytes \<Rightarrow> (s3, unit) io" where
  "s3_put k b d =
     (if \<not> s3_bucket d then (Inl (ClientError ''NoSuchBucket'' ''bucket''), d)
      else (Inr (), d\<lparr>s3_objects := (s3_objects d)(k \<mapsto> b)\<rparr>))"

definition s3_head :: "string \<Rightarrow> (s3, unit) io" where
  "s3_head k d =
     (if s3_bucket d \<and> s3_objects d k \<noteq> None then (Inr (), d) else (Inl (ClientError ''404'' k), d))"

definition s3_head_bucket :: "(s3, unit) io" where
  "s3_head_bucket d = (if s3_bucket d then (Inr (), d) else (Inl (ClientError ''404'' ''bucket''), d))"

definition s3_create_bucket :: "(s3, unit) io" where
  "s3_create_bucket d =
     (if s3_bucket d then (Inl (ClientError ''BucketAlreadyOwnedByYou'' ''bucket''), d)
      else (Inr (), d\<lparr>s3_bucket := True\<rparr>))"

text \<open>A download whose reply is lost has written the first half of the object.\<close>

definition s3_download :: "string \<Rightarrow> (s3 remote, bytes \<times> exn option) io" where
  "s3_download k r =
     (case s3_call (s3_get k) r of
        (Inr b, r') \<Rightarrow> (Inr (b, None), r')
      | (Inl e, r') \<Rightarrow>
          (case (r_faults r, s3_objects (r_state r) k) of
             (Lose _ # _, Some b) \<Rightarrow> (Inr (take (length b div 2) b, Some e), r')
           | _ \<Rightarrow> (Inl e, r')))"

definition s3_client :: "s3 remote s3_api" where
  "s3_client =
     \<lparr>get_object = (\<lambda>k. s3_call (s3_get k)), put_object = (\<lambda>k b. s3_call (s3_put k b)),
      head_object = (\<lambda>k. s3_call (s3_head k)), download_file = s3_download,
      head_bucket = s3_call s3_head_bucket, create_bucket = s3_call s3_create_bucket\<rparr>"

definition s3_view :: "s3 remote \<Rightarrow> string \<Rightarrow> bytes option" where
  "s3_view r = s3_objects (r_state r)"

definition s3_up :: "s3 remote \<Rightarrow> bool" where
  "s3_up r \<longleftrightarrow> r_faults r = [] \<and> s3_bucket (r_state r)"

definition s3_fresh :: "s3 remote" where
  "s3_fresh = healthy_at \<lparr>s3_bucket = True, s3_objects = Map.empty\<rparr>"

lemma s3_call_cases:
  obtains
    (ok) fs where "s3_call f r = (fst (f (r_state r)), \<lparr>r_state = snd (f (r_state r)), r_faults = fs\<rparr>)"
  | (failed) e fs d where "s3_call f r = (Inl (s3_exn e), \<lparr>r_state = d, r_faults = fs\<rparr>)"
      "d = r_state r \<or> d = snd (f (r_state r))"
proof -
  obtain x d where f: "f (r_state r) = (x, d)" by fastforce
  show thesis
  proof (cases "r_faults r")
    case Nil
    then have "s3_call f r = (x, \<lparr>r_state = d, r_faults = []\<rparr>)" using f by (simp add: s3_call_def call_def)
    then show ?thesis using ok f by simp
  next
    case (Cons a fs)
    let ?fs = "map s3_fault fs"
    show ?thesis
    proof (cases a)
      case Pass
      then have "s3_call f r = (x, \<lparr>r_state = d, r_faults = ?fs\<rparr>)"
        using f Cons by (simp add: s3_call_def call_def)
      then show ?thesis using ok f by simp
    next
      case (Refuse e)
      then have "s3_call f r = (Inl (s3_exn e), \<lparr>r_state = r_state r, r_faults = ?fs\<rparr>)"
        using Cons by (simp add: s3_call_def call_def)
      then show ?thesis using failed by blast
    next
      case (Lose e)
      then have "s3_call f r = (Inl (s3_exn e), \<lparr>r_state = d, r_faults = ?fs\<rparr>)"
        using f Cons by (simp add: s3_call_def call_def)
      then show ?thesis using failed f by simp
    qed
  qed
qed

lemma s3_exn_not_missing: "s3_exn e = ClientError c m \<Longrightarrow> \<not> missing_code c"
  by (auto simp: s3_exn_def missing_code_def split: exn.splits)

lemma s3_call_up: "s3_up r \<Longrightarrow> s3_call f r = (fst (f (r_state r)), \<lparr>r_state = snd (f (r_state r)), r_faults = []\<rparr>)"
  by (cases "f (r_state r)") (simp add: s3_up_def s3_call_def call_def)

lemma s3_call_ok: "s3_call f r = (Inr x, r') \<Longrightarrow> f (r_state r) = (Inr x, r_state r')"
  by (cases rule: s3_call_cases [of f r]) (auto simp: prod_eq_iff)

lemma s3_call_result:
  "s3_call f r = (Inr x, r') \<Longrightarrow> fst (f (r_state r)) = Inr x \<and> r_state r' = snd (f (r_state r))"
  by (drule s3_call_ok) simp

lemma s3_call_frame:
  "(\<And>d. s3_objects (snd (f d)) = s3_objects d) \<Longrightarrow> s3_view (snd (s3_call f r)) = s3_view r"
  by (cases rule: s3_call_cases [of f r]) (auto simp: s3_view_def)

lemma s3_get_frame: "snd (s3_get k d) = d"
  by (auto simp: s3_get_def split: option.split)

lemma s3_download_view: "s3_view (snd (s3_download k r)) = s3_view r"
  using s3_call_frame [of "s3_get k" r] s3_get_frame
  by (auto simp: s3_download_def split: prod.splits sum.splits list.splits fault.splits option.splits)

lemma s3_head_frame: "snd (s3_head k d) = d"
  by (auto simp: s3_head_def)

interpretation s3c: object_store s3_client s3_view
proof
  show "get_object s3_client k s = (Inr b, s') \<Longrightarrow> s3_view s k = Some b" for k s b s'
    by (auto simp: s3_client_def s3_view_def s3_get_def dest!: s3_call_ok split: if_splits option.splits)
  show "download_file s3_client k s = (Inr (b, None), s') \<Longrightarrow> s3_view s k = Some b" for k s b s'
    by (auto simp: s3_client_def s3_view_def s3_get_def s3_download_def dest!: s3_call_ok
        split: if_splits option.splits prod.splits sum.splits list.splits fault.splits)
  show "head_object s3_client k s = (Inr u, s') \<Longrightarrow> s3_view s k \<noteq> None" for k s u s'
    by (auto simp: s3_client_def s3_view_def s3_head_def dest!: s3_call_ok split: if_splits)
  show "s3_view s k = None"
    if get: "get_object s3_client k s = (Inl (ClientError c m), s')" and miss: "missing_code c" for k s c m s'
  proof (cases rule: s3_call_cases [of "s3_get k" s])
    case (ok fs)
    with get miss show ?thesis
      by (auto simp: s3_client_def s3_view_def s3_get_def missing_code_def split: if_splits option.splits)
  next
    case (failed e fs d)
    with get miss show ?thesis
      using s3_exn_not_missing [of e c m] by (simp add: s3_client_def)
  qed
  show "s3_view s' = (s3_view s)(k \<mapsto> b)" if "put_object s3_client k b s = (Inr u, s')" for k b s u s'
    using that by (auto simp: s3_client_def s3_view_def s3_put_def dest!: s3_call_result split: if_splits)
  show "s3_view s' = s3_view s \<or> s3_view s' = (s3_view s)(k \<mapsto> b)"
    if "put_object s3_client k b s = (Inl e, s')" for k b s e s'
    using that by (cases rule: s3_call_cases [of "s3_put k b" s])
      (auto simp: s3_client_def s3_view_def s3_put_def split: if_splits)
qed (simp_all add: s3_client_def s3_call_frame s3_get_frame s3_head_frame s3_download_view
      s3_head_bucket_def s3_create_bucket_def)

interpretation s3c: object_store_up s3_client s3_view s3_up
proof
  fix s k b assume up: "s3_up s"
  note run = s3_call_up [OF up]
  show "\<exists>s'. put_object s3_client k b s = (Inr (), s') \<and> s3_up s'"
    using up by (simp add: s3_client_def run s3_put_def s3_up_def)
  show "\<exists>s'. get_object s3_client k s = (Inr b, s') \<and> s3_up s'" if "s3_view s k = Some b"
    using up that by (simp add: s3_client_def run s3_get_def s3_up_def s3_view_def)
  show "\<exists>s'. download_file s3_client k s = (Inr (b, None), s') \<and> s3_up s'" if "s3_view s k = Some b"
    using up that by (simp add: s3_client_def s3_download_def run s3_get_def s3_up_def s3_view_def)
  show "\<exists>s'. head_object s3_client k s = (Inr (), s') \<and> s3_up s'" if "s3_view s k \<noteq> None"
    using up that by (simp add: s3_client_def run s3_head_def s3_up_def s3_view_def)
  show "\<exists>c m s'. get_object s3_client k s = (Inl (ClientError c m), s') \<and> missing_code c \<and> s3_up s'"
    if "s3_view s k = None"
    using up that by (simp add: s3_client_def run s3_get_def s3_up_def s3_view_def missing_code_def)
  show "\<exists>c m s'. head_object s3_client k s = (Inl (ClientError c m), s') \<and> s3_up s'"
    if "s3_view s k = None"
    using up that by (simp add: s3_client_def run s3_head_def s3_up_def s3_view_def)
qed

subsection \<open>Documents\<close>

text \<open>
  C8. Pages are written before the manifest: whatever calls fail on the way, storing a
  document never leaves a manifest that points at a page that is not stored.
\<close>

theorem put_document_never_dangling:
  assumes "object_store S view" and "manifests_closed (view s)"
  shows "manifests_closed (view (snd (put_document cfg S doc_key pages total_length s)))"
  using keepsD [OF object_store.put_document_closed [OF assms(1)] assms(2)] .

theorem put_document_never_dangling_witness:
  "manifests_closed (s3_view (snd (put_document default_settings s3_client ''k''
     [codes ''one'', codes ''two''] 6
     \<lparr>r_state = \<lparr>s3_bucket = True, s3_objects = Map.empty\<rparr>, r_faults = [Pass, Lose (OSError ''reset'')]\<rparr>)))"
  by (rule put_document_never_dangling [OF s3c.object_store_axioms])
    (simp add: manifests_closed_def s3_view_def)

text \<open>
  C19. On a store that is up, storing a document succeeds whenever its pages can be encoded,
  and afterwards the manifest and every page read back as they were written.
\<close>

theorem put_document_round_trip:
  assumes "object_store_up S view up" and "up s" and "list_all (list_all encodable) pages"
  shows "\<exists>s'. put_document cfg S doc_key pages total_length s
        = (Inr \<lparr>m_doc_key = doc_key, m_total_pages = int (length pages),
                m_total_length = total_length, m_page_size = PAGE_SIZE cfg\<rparr>, s')
    \<and> fst (get_manifest S doc_key s')
        = Inr (Some \<lparr>m_doc_key = doc_key, m_total_pages = int (length pages),
                     m_total_length = total_length, m_page_size = PAGE_SIZE cfg\<rparr>)
    \<and> map (\<lambda>i. fst (get_page S doc_key i s')) [1..int (length pages)] = map (\<lambda>p. Inr (Some p)) pages"
proof -
  note store = object_store_up.axioms(1) [OF assms(1)]
  obtain s' where put: "put_document cfg S doc_key pages total_length s
      = (Inr (doc_manifest cfg doc_key pages total_length), s')" and up': "up s'"
    using object_store_up.up_put_document [OF assms] by blast
  note stored = object_store.put_document_ok [OF store put]
  have "fst (get_page S doc_key (1 + int j) s') = Inr (Some (pages ! j))" if "j < length pages" for j
    using stored(3) [OF that] object_store_up.up_get_page [OF assms(1) up', of doc_key "1 + int j"]
      utf8_round_trip by fastforce
  then have "map (\<lambda>i. fst (get_page S doc_key i s')) [1..int (length pages)] = map (\<lambda>p. Inr (Some p)) pages"
    by (intro nth_equalityI) simp_all
  moreover have "fst (get_manifest S doc_key s') = Inr (Some (doc_manifest cfg doc_key pages total_length))"
    using stored(2) object_store_up.up_get_manifest [OF assms(1) up'] by fastforce
  ultimately show ?thesis using put by blast
qed

theorem put_document_round_trip_witness:
  "\<exists>s'. put_document default_settings s3_client ''k'' [codes ''one'', codes ''two''] 6 s3_fresh
        = (Inr \<lparr>m_doc_key = ''k'', m_total_pages = 2, m_total_length = 6, m_page_size = 5000\<rparr>, s')
    \<and> fst (get_manifest s3_client ''k'' s')
        = Inr (Some \<lparr>m_doc_key = ''k'', m_total_pages = 2, m_total_length = 6, m_page_size = 5000\<rparr>)
    \<and> map (\<lambda>i. fst (get_page s3_client ''k'' i s')) [1..2] = [Inr (Some (codes ''one'')), Inr (Some (codes ''two''))]"
  using put_document_round_trip [OF s3c.object_store_up_axioms, of s3_fresh "[codes ''one'', codes ''two'']"
      default_settings "''k''" 6]
  by (simp add: s3_up_def s3_fresh_def codes_encodable default_settings_def)

end
