(* ===== verification/Db.thy ===== *)
theory Db
  imports Settings Remote "HOL-Library.List_Lexorder" "HOL-Library.Char_ord"
begin

section \<open>db.py: connections, statements, transactions, migrations\<close>

text \<open>
  The state is the database together with this thread's connection. A statement is a function
  on the data that returns a cursor; what it changed stays pending on the connection until
  \<^verbatim>\<open>commit\<close>. Every call that reaches the database (connect, execute, commit, rollback) may be
  refused or may lose its reply, as in \<^theory_text>\<open>Remote\<close>; closing a connection discards what is
  pending on it. Both drivers have this DB-API surface, so one model serves both; which one
  is opened, and on what address, is \<open>connect_target\<close>. A row is what its reader takes out of
  \<^verbatim>\<open>dict(zip(columns, row))\<close>: a record with a field for every column.
\<close>

subsection \<open>Statements and cursors\<close>

record 'r cursor =
  description :: "string list option"
  fetched :: "'r list option"  \<comment> \<open>\<^verbatim>\<open>fetchall()\<close>; libsql returns None where nothing matched\<close>

text \<open>
  What a statement did: read only, changed rows inside the open transaction, or changed the
  schema, which takes effect at once when no transaction is open. A statement that raises
  changes nothing.
\<close>

datatype effect = Read | Wrote nat | Schema

type_synonym ('d, 'r) stmt = "'d \<Rightarrow> exn + ('r cursor \<times> effect \<times> 'd)"

definition rows_to_dicts :: "'r cursor \<Rightarrow> 'r list" where
  "rows_to_dicts cur =
     (case description cur of
        None \<Rightarrow> []
      | Some columns \<Rightarrow> (case fetched cur of None \<Rightarrow> [] | Some rows \<Rightarrow> rows))"

abbreviation no_rows :: "'r cursor" where
  "no_rows \<equiv> \<lparr>description = None, fetched = None\<rparr>"

record 'd database =
  committed :: 'd
  pending :: "'d option"
  last_changes :: nat

record 'd client =
  server :: "'d database remote"
  connected :: bool      \<comment> \<open>\<^verbatim>\<open>_local.conn is not None\<close>\<close>
  migrated :: bool       \<comment> \<open>\<^verbatim>\<open>_migrated\<close>\<close>

definition visible :: "'d database \<Rightarrow> 'd" where
  "visible s = (case pending s of None \<Rightarrow> committed s | Some d \<Rightarrow> d)"

definition execute_on :: "('d, 'r) stmt \<Rightarrow> ('d database, 'r cursor) io" where
  "execute_on st s =
     (case st (visible s) of
        Inl e \<Rightarrow> (Inl e, s)
      | Inr (cur, Read, d) \<Rightarrow> (Inr cur, s)
      | Inr (cur, Wrote n, d) \<Rightarrow> (Inr cur, s\<lparr>pending := Some d, last_changes := n\<rparr>)
      | Inr (cur, Schema, d) \<Rightarrow>
          (Inr cur, (case pending s of None \<Rightarrow> s\<lparr>committed := d\<rparr> | Some _ \<Rightarrow> s\<lparr>pending := Some d\<rparr>)))"

definition commit_on :: "('d database, unit) io" where
  "commit_on s = (Inr (), s\<lparr>committed := visible s, pending := None\<rparr>)"

definition rollback_on :: "('d database, unit) io" where
  "rollback_on s = (Inr (), s\<lparr>pending := None\<rparr>)"

definition on_server :: "('d database, 'a) io \<Rightarrow> ('d client, 'a) io" where
  "on_server f c = (case call f (server c) of (r, sv) \<Rightarrow> (r, c\<lparr>server := sv\<rparr>))"

definition conn_execute :: "('d, 'r) stmt \<Rightarrow> ('d client, 'r cursor) io" where
  "conn_execute st = on_server (execute_on st)"

definition conn_commit :: "('d client, unit) io" where
  "conn_commit = on_server commit_on"

definition conn_rollback :: "('d client, unit) io" where
  "conn_rollback = on_server rollback_on"

subsection \<open>Connections\<close>

datatype target =
    Libsql string "string option"   \<comment> \<open>url, auth token\<close>
  | Sqlite_memory                   \<comment> \<open>the shared-cache in-memory database\<close>
  | Sqlite_file string

definition BUSY_TIMEOUT_SECONDS :: int where
  "BUSY_TIMEOUT_SECONDS = 30"

definition uses_libsql :: "settings \<Rightarrow> bool" where
  "uses_libsql cfg \<longleftrightarrow>
     list_ex (\<lambda>p. starts_with p (DATABASE_URL cfg)) [''libsql://'', ''http://'', ''https://'']
     \<or> (case DATABASE_AUTH_TOKEN cfg of None \<Rightarrow> False | Some t \<Rightarrow> t \<noteq> [])"

definition connect_libsql :: "settings \<Rightarrow> target" where
  "connect_libsql cfg =
     Libsql (remove_prefix ''file:'' (DATABASE_URL cfg))
       (case DATABASE_AUTH_TOKEN cfg of None \<Rightarrow> None | Some t \<Rightarrow> if t = [] then None else Some t)"

definition connect_sqlite :: "settings \<Rightarrow> target \<times> string list" where
  "connect_sqlite cfg =
     (let url = remove_prefix ''file:'' (DATABASE_URL cfg);
          busy = ''PRAGMA busy_timeout='' @ show_int (BUSY_TIMEOUT_SECONDS * 1000)
      in if url = '':memory:'' then (Sqlite_memory, [busy])
         else (Sqlite_file url, [''PRAGMA journal_mode=WAL'', busy]))"

text \<open>The target to open and the pragmas to run on the new connection.\<close>

definition connect_target :: "settings \<Rightarrow> target \<times> string list" where
  "connect_target cfg = (if uses_libsql cfg then (connect_libsql cfg, []) else connect_sqlite cfg)"

definition pragma :: "string \<Rightarrow> ('d, unit) stmt" where
  "pragma sql d = Inr (no_rows, Read, d)"

definition get_connection :: "settings \<Rightarrow> ('d client, unit) io" where
  "get_connection cfg c =
     (if connected c then ret () c
      else thenE (on_server (\<lambda>s. (Inr (), s\<lparr>pending := None\<rparr>)))
             (thenE (foreachE (snd (connect_target cfg))
                       (\<lambda>sql. thenE (conn_execute (pragma sql)) (ret ())))
               (\<lambda>c'. (Inr (), c'\<lparr>connected := True\<rparr>))) c)"

text \<open>An error of \<^verbatim>\<open>conn.close()\<close> is only logged; the connection is forgotten either way.\<close>

definition close_connection :: "('d client, unit) io" where
  "close_connection c =
     (Inr (), if connected c
              then c\<lparr>server := (server c)\<lparr>r_state := (r_state (server c))\<lparr>pending := None\<rparr>\<rparr>,
                     connected := False\<rparr>
              else c)"

definition reset :: "('d client, unit) io" where
  "reset = thenE close_connection (\<lambda>c. (Inr (), c\<lparr>migrated := False\<rparr>))"

subsection \<open>Migrations\<close>

text \<open>\<^verbatim>\<open>str.splitlines()\<close>: every line boundary of an 8-bit string, with CR LF as one.\<close>

definition is_line_end :: "char \<Rightarrow> bool" where
  "is_line_end ch = (let k = of_char ch :: nat in (10 \<le> k \<and> k \<le> 13) \<or> (28 \<le> k \<and> k \<le> 30) \<or> k = 133)"

fun splitlines_from :: "string \<Rightarrow> string \<Rightarrow> string list" where
  "splitlines_from acc [] = (if acc = [] then [] else [rev acc])"
| "splitlines_from acc (ch # cs) =
     (if is_line_end ch
      then rev acc # splitlines_from [] (if ch = CHR 0x0D \<and> cs \<noteq> [] \<and> hd cs = CHR 0x0A then tl cs else cs)
      else splitlines_from (ch # acc) cs)"

definition splitlines :: "string \<Rightarrow> string list" where
  "splitlines s = splitlines_from [] s"

definition split_statements :: "string \<Rightarrow> string list" where
  "split_statements sql =
     (let without_comments =
            py_join [CHR 0x0A] (map (\<lambda>line. hd (py_split ''--'' line)) (splitlines sql))
      in map strip_string (filter (\<lambda>s. strip_string s \<noteq> []) (py_split '';'' without_comments)))"

text \<open>
  What the module takes from its surroundings: the settings, the effect of one migration
  statement on the data, and the files of the migrations directory with their contents.
\<close>

record 'd db_env =
  db_config :: settings
  db_ddl :: "string \<Rightarrow> ('d, unit) stmt"
  db_dir :: "(string \<times> string) list"

definition run_migrations :: "'d db_env \<Rightarrow> ('d client, unit) io" where
  "run_migrations E =
     foreachE (sort_key fst (db_dir E)) (\<lambda>(name, sql).
       if \<not> ends_with ''.sql'' name then ret ()
       else foreachE (split_statements sql) (\<lambda>st. thenE (conn_execute (db_ddl E st)) (ret ())))"

definition migrate :: "'d db_env \<Rightarrow> ('d client, unit) io" where
  "migrate E c =
     (if migrated c then ret () c
      else thenE (get_connection (db_config E))
            (thenE (run_migrations E)
              (thenE conn_commit (\<lambda>c'. (Inr (), c'\<lparr>migrated := True\<rparr>)))) c)"

definition ensure_ready :: "'d db_env \<Rightarrow> ('d client, unit) io" where
  "ensure_ready E c = (if migrated c then ret () c else migrate E c)"

subsection \<open>Statements with one retry on a stale connection\<close>

definition STALE_CONNECTION_MARKERS :: "string list" where
  "STALE_CONNECTION_MARKERS =
     [''stream handle'', ''stream is closed'', ''stream not found'', ''connection reset'',
      ''connection closed'', ''broken pipe'']"

definition is_stale_connection :: "exn \<Rightarrow> bool" where
  "is_stale_connection e =
     (let message = lower_string (exn_str e)
      in list_ex (\<lambda>marker. substring marker message) STALE_CONNECTION_MARKERS)"

definition run_once :: "('d, 'r) stmt \<Rightarrow> bool \<Rightarrow> ('d client, 'r list) io" where
  "run_once st commit =
     bindE (conn_execute st) (\<lambda>cur.
       let rows = rows_to_dicts cur
       in if commit then thenE conn_commit (ret rows) else ret rows)"

definition run :: "'d db_env \<Rightarrow> ('d, 'r) stmt \<Rightarrow> bool \<Rightarrow> ('d client, 'r list) io" where
  "run E st commit =
     thenE (ensure_ready E)
       (thenE (get_connection (db_config E))
         (catch (run_once st commit) (\<lambda>e.
            if is_stale_connection e
            then thenE close_connection
                   (thenE (get_connection (db_config E)) (run_once st commit))
            else throw e)))"

definition query :: "'d db_env \<Rightarrow> ('d, 'r) stmt \<Rightarrow> ('d client, 'r list) io" where
  "query E st = run E st False"

definition query_one :: "'d db_env \<Rightarrow> ('d, 'r) stmt \<Rightarrow> ('d client, 'r option) io" where
  "query_one E st =
     bindE (query E st) (\<lambda>rows. ret (case rows of [] \<Rightarrow> None | row # _ \<Rightarrow> Some row))"

definition execute :: "'d db_env \<Rightarrow> ('d, 'r) stmt \<Rightarrow> ('d client, 'r list) io" where
  "execute E st = run E st True"

subsection \<open>Transactions\<close>

definition select_one :: "('d, int) stmt" where
  "select_one d = Inr (\<lparr>description = Some [''ok''], fetched = Some [1]\<rparr>, Read, d)"

definition try_rollback :: "('d client, unit) io" where
  "try_rollback = catch conn_rollback (\<lambda>_. ret ())"

definition transaction :: "'d db_env \<Rightarrow> ('d client, 'a) io \<Rightarrow> ('d client, 'a) io" where
  "transaction E body =
     thenE (ensure_ready E)
      (thenE (query E select_one)
       (thenE (get_connection (db_config E))
         (catch (bindE body (\<lambda>x. thenE conn_commit (ret x)))
           (\<lambda>e. thenE try_rollback (throw e)))))"

definition changes :: "('d client, nat) io" where
  "changes = on_server (\<lambda>s. (Inr (last_changes s), s))"

definition db_health :: "'d db_env \<Rightarrow> ('d client, bool) io" where
  "db_health E = catch (thenE (query E select_one) (ret True)) (\<lambda>_. ret False)"

subsection \<open>What holds whatever fails\<close>

text \<open>
  A property of the data that every statement keeps is kept by every operation, in what is
  committed and in what is pending, for every pattern of failures.
\<close>

definition all_data :: "('d \<Rightarrow> bool) \<Rightarrow> 'd client \<Rightarrow> bool" where
  "all_data P c \<longleftrightarrow> (let s = r_state (server c) in P (committed s) \<and> P (visible s))"

definition stmt_keeps :: "('d \<Rightarrow> bool) \<Rightarrow> ('d, 'r) stmt \<Rightarrow> bool" where
  "stmt_keeps P st \<longleftrightarrow> (\<forall>d cur eff d'. P d \<longrightarrow> st d = Inr (cur, eff, d') \<longrightarrow> P d')"

lemma stmt_keepsD: "stmt_keeps P st \<Longrightarrow> P d \<Longrightarrow> st d = Inr (cur, eff, d') \<Longrightarrow> P d'"
  by (simp add: stmt_keeps_def)

lemma all_data_connected [simp]: "all_data P (c\<lparr>connected := b\<rparr>) = all_data P c"
  by (simp add: all_data_def)

lemma all_data_migrated [simp]: "all_data P (c\<lparr>migrated := b\<rparr>) = all_data P c"
  by (simp add: all_data_def)

lemma keeps_on_server:
  assumes "\<And>s. P (committed s) \<Longrightarrow> P (visible s) \<Longrightarrow> P (committed (snd (f s))) \<and> P (visible (snd (f s)))"
  shows "keeps (all_data P) (on_server f)"
proof
  fix c assume "all_data P c"
  then have s: "P (committed (r_state (server c)))" "P (visible (r_state (server c)))"
    by (simp_all add: all_data_def Let_def)
  have "snd (on_server f c) = c\<lparr>server := snd (call f (server c))\<rparr>"
    by (simp add: on_server_def split: prod.splits)
  moreover have "P (committed (r_state (snd (call f (server c)))))"
    "P (visible (r_state (snd (call f (server c)))))"
    using call_state [of f "server c"] s assms [OF s] by auto
  ultimately show "all_data P (snd (on_server f c))" by (simp add: all_data_def)
qed

lemma keeps_conn_execute [keeps_intros]:
  "stmt_keeps P st \<Longrightarrow> keeps (all_data P) (conn_execute st)"
  unfolding conn_execute_def
  by (rule keeps_on_server)
    (auto simp: execute_on_def visible_def split: sum.splits prod.splits effect.splits option.splits
      dest: stmt_keepsD)

lemma keeps_conn_commit [keeps_intros]: "keeps (all_data P) conn_commit"
  unfolding conn_commit_def by (rule keeps_on_server) (simp add: commit_on_def visible_def)

lemma keeps_conn_rollback [keeps_intros]: "keeps (all_data P) conn_rollback"
  unfolding conn_rollback_def by (rule keeps_on_server) (simp add: rollback_on_def visible_def)

lemma keeps_close [keeps_intros]: "keeps (all_data P) close_connection"
  by (auto simp: keeps_def close_connection_def all_data_def visible_def Let_def)

lemma keeps_set_connected [keeps_intros]: "keeps (all_data P) (\<lambda>c. (Inr (), c\<lparr>connected := b\<rparr>))"
  by (simp add: keeps_def)

lemma keeps_set_migrated [keeps_intros]: "keeps (all_data P) (\<lambda>c. (Inr (), c\<lparr>migrated := b\<rparr>))"
  by (simp add: keeps_def)

lemma keeps_cond:
  "keeps P m \<Longrightarrow> keeps P n \<Longrightarrow> keeps P (\<lambda>c. if b c then m c else n c)"
  by (simp add: keeps_def)

lemma stmt_keeps_pragma [simp]: "stmt_keeps P (pragma sql)"
  by (simp add: stmt_keeps_def pragma_def)

lemma stmt_keeps_select_one [simp]: "stmt_keeps P select_one"
  by (simp add: stmt_keeps_def select_one_def)

lemma keeps_get_connection [keeps_intros]: "keeps (all_data P) (get_connection cfg)"
  unfolding get_connection_def
  by (intro keeps_cond keeps_intros stmt_keeps_pragma keeps_on_server) (simp add: visible_def)

lemma keeps_reset [keeps_intros]: "keeps (all_data P) reset"
  unfolding reset_def by (intro keeps_intros)

definition env_keeps :: "('d \<Rightarrow> bool) \<Rightarrow> 'd db_env \<Rightarrow> bool" where
  "env_keeps P E \<longleftrightarrow> (\<forall>sql. stmt_keeps P (db_ddl E sql))"

lemma keeps_run_migrations [keeps_intros]:
  "env_keeps P E \<Longrightarrow> keeps (all_data P) (run_migrations E)"
  unfolding run_migrations_def case_prod_beta env_keeps_def by (intro keeps_intros) simp

lemma keeps_migrate [keeps_intros]: "env_keeps P E \<Longrightarrow> keeps (all_data P) (migrate E)"
  unfolding migrate_def by (intro keeps_cond keeps_intros)

lemma keeps_ensure_ready [keeps_intros]: "env_keeps P E \<Longrightarrow> keeps (all_data P) (ensure_ready E)"
  unfolding ensure_ready_def by (intro keeps_cond keeps_intros)

lemma keeps_run_once [keeps_intros]: "stmt_keeps P st \<Longrightarrow> keeps (all_data P) (run_once st b)"
  unfolding run_once_def Let_def by (intro keeps_intros)

lemma keeps_run [keeps_intros]:
  "env_keeps P E \<Longrightarrow> stmt_keeps P st \<Longrightarrow> keeps (all_data P) (run E st b)"
  unfolding run_def by (intro keeps_intros)

lemma keeps_query [keeps_intros]:
  "env_keeps P E \<Longrightarrow> stmt_keeps P st \<Longrightarrow> keeps (all_data P) (query E st)"
  unfolding query_def by (intro keeps_intros)

lemma keeps_query_one [keeps_intros]:
  "env_keeps P E \<Longrightarrow> stmt_keeps P st \<Longrightarrow> keeps (all_data P) (query_one E st)"
  unfolding query_one_def by (intro keeps_intros)

lemma keeps_execute [keeps_intros]:
  "env_keeps P E \<Longrightarrow> stmt_keeps P st \<Longrightarrow> keeps (all_data P) (execute E st)"
  unfolding execute_def by (intro keeps_intros)

lemma keeps_changes [keeps_intros]: "keeps (all_data P) changes"
  unfolding changes_def by (rule keeps_on_server) simp

lemma keeps_transaction [keeps_intros]:
  "env_keeps P E \<Longrightarrow> keeps (all_data P) body \<Longrightarrow> keeps (all_data P) (transaction E body)"
  unfolding transaction_def try_rollback_def by (intro keeps_intros stmt_keeps_select_one)

lemma keeps_db_health [keeps_intros]: "env_keeps P E \<Longrightarrow> keeps (all_data P) (db_health E)"
  unfolding db_health_def by (intro keeps_intros stmt_keeps_select_one)

subsection \<open>Runs without failures\<close>

abbreviation db_data :: "'d client \<Rightarrow> 'd" where
  "db_data c \<equiv> committed (r_state (server c))"

abbreviation db_visible :: "'d client \<Rightarrow> 'd" where
  "db_visible c \<equiv> visible (r_state (server c))"

text \<open>Nothing pending and the schema in place: the state between two operations.\<close>

definition clean :: "'d \<Rightarrow> 'd client \<Rightarrow> bool" where
  "clean d c \<longleftrightarrow> db_data c = d \<and> pending (r_state (server c)) = None \<and> migrated c"

definition ready :: "'d \<Rightarrow> 'd client \<Rightarrow> bool" where
  "ready d c \<longleftrightarrow> clean d c \<and> r_faults (server c) = []"

definition in_txn :: "'d \<Rightarrow> 'd client \<Rightarrow> bool" where
  "in_txn d c \<longleftrightarrow> db_visible c = d \<and> migrated c \<and> connected c \<and> r_faults (server c) = []"

lemma on_server_healthy:
  "r_faults (server c) = [] \<Longrightarrow> on_server f c =
     (fst (f (r_state (server c))),
      c\<lparr>server := \<lparr>r_state = snd (f (r_state (server c))), r_faults = []\<rparr>\<rparr>)"
  by (simp add: on_server_def call_def split: prod.splits)

lemma execute_txn:
  assumes "in_txn d c" "st d = Inr (cur, Wrote n, d')"
  shows "\<exists>c'. conn_execute st c = (Inr cur, c') \<and> in_txn d' c' \<and> last_changes (r_state (server c')) = n"
  using assms by (simp add: conn_execute_def on_server_healthy in_txn_def execute_on_def visible_def)

lemma changes_txn: "in_txn d c \<Longrightarrow> changes c = (Inr (last_changes (r_state (server c))), c)"
  by (cases c) (simp add: changes_def on_server_healthy in_txn_def)

lemma pragmas_ready:
  "ready d c \<Longrightarrow> \<exists>c'. foreachE sqls (\<lambda>sql. thenE (conn_execute (pragma sql)) (ret ())) c = (Inr (), c') \<and> ready d c'"
proof (induction sqls arbitrary: c)
  case (Cons sql sqls)
  have "conn_execute (pragma sql) c = (Inr no_rows, c)"
    using Cons.prems
    by (cases c) (simp add: conn_execute_def on_server_healthy ready_def execute_on_def pragma_def)
  with Cons show ?case by (simp add: thenE_run ret_def)
qed (simp add: ret_def)

lemma get_connection_ready:
  assumes "ready d c"
  shows "\<exists>c'. get_connection cfg c = (Inr (), c') \<and> ready d c' \<and> connected c'"
proof (cases "connected c")
  case True
  with assms show ?thesis by (simp add: get_connection_def ret_def)
next
  case False
  let ?open = "on_server (\<lambda>s. (Inr (), s\<lparr>pending := None\<rparr>))"
  obtain c1 where c1: "?open c = (Inr (), c1)" "ready d c1"
    using assms by (auto simp: on_server_healthy ready_def clean_def)
  obtain c2 where c2: "foreachE (snd (connect_target cfg)) (\<lambda>sql. thenE (conn_execute (pragma sql)) (ret ())) c1
      = (Inr (), c2)" "ready d c2"
    using pragmas_ready [OF c1(2)] by blast
  have "get_connection cfg c = (Inr (), c2\<lparr>connected := True\<rparr>)"
    using False by (simp add: get_connection_def thenE_run c1(1) c2(1))
  with c2(2) show ?thesis by (simp add: ready_def clean_def)
qed

lemma ensure_ready_migrated: "migrated c \<Longrightarrow> ensure_ready E c = (Inr (), c)"
  by (simp add: ensure_ready_def ret_def)

lemma ready_migrated: "ready d c \<Longrightarrow> migrated c"
  by (simp add: ready_def clean_def)

lemma execute_ready:
  assumes "ready d c" "st d = Inr (cur, Wrote n, d')"
  shows "\<exists>c'. execute E st c = (Inr (rows_to_dicts cur), c') \<and> ready d' c'"
proof -
  obtain c1 where c1: "get_connection (db_config E) c = (Inr (), c1)" "ready d c1"
    using get_connection_ready [OF assms(1)] by blast
  obtain c2 where "run_once st True c1 = (Inr (rows_to_dicts cur), c2)" "ready d' c2"
    using c1(2) assms(2)
    by (simp add: run_once_def bindE_def thenE_def conn_execute_def conn_commit_def on_server_healthy
        ready_def clean_def execute_on_def commit_on_def visible_def ret_def)
  then show ?thesis
    by (simp add: execute_def run_def thenE_run ensure_ready_migrated [OF ready_migrated [OF assms(1)]]
        c1(1) catch_run)
qed

lemma query_ready:
  assumes "ready d c" "st d = Inr (cur, Read, d')"
  shows "\<exists>c'. query E st c = (Inr (rows_to_dicts cur), c') \<and> ready d c'"
proof -
  obtain c1 where c1: "get_connection (db_config E) c = (Inr (), c1)" "ready d c1"
    using get_connection_ready [OF assms(1)] by blast
  obtain c2 where "run_once st False c1 = (Inr (rows_to_dicts cur), c2)" "ready d c2"
    using c1(2) assms(2)
    by (simp add: run_once_def bindE_def thenE_def conn_execute_def on_server_healthy
        ready_def clean_def execute_on_def visible_def ret_def)
  then show ?thesis
    by (simp add: query_def run_def thenE_run ensure_ready_migrated [OF ready_migrated [OF assms(1)]]
        c1(1) catch_run)
qed

lemma query_one_ready:
  assumes "ready d c" "st d = Inr (cur, Read, d')"
  shows "\<exists>c'. query_one E st c =
      (Inr (case rows_to_dicts cur of [] \<Rightarrow> None | row # _ \<Rightarrow> Some row), c') \<and> ready d c'"
  using query_ready [of d c st cur d' E] assms by (auto simp: query_one_def bindE_run ret_def)

lemma commit_txn: "in_txn d c \<Longrightarrow> \<exists>c'. conn_commit c = (Inr (), c') \<and> ready d c'"
  by (simp add: conn_commit_def on_server_healthy in_txn_def commit_on_def ready_def clean_def)

lemma transaction_ready:
  assumes "ready d c"
    and body: "\<And>c1. in_txn d c1 \<Longrightarrow> \<exists>c2. body c1 = (Inr x, c2) \<and> in_txn d' c2"
  shows "\<exists>c'. transaction E body c = (Inr x, c') \<and> ready d' c'"
proof -
  have "\<exists>c0. query E select_one c = (Inr (rows_to_dicts \<lparr>description = Some [''ok''], fetched = Some [1]\<rparr>), c0) \<and> ready d c0"
    by (rule query_ready [where d = d and c = c and st = select_one and d' = d]) (simp_all only: assms(1) select_one_def)
  then obtain rows c0 where c0: "query E select_one c = (Inr rows, c0)" "ready d c0" by metis
  obtain c1 where c1: "get_connection (db_config E) c0 = (Inr (), c1)" "ready d c1" "connected c1"
    using get_connection_ready [OF c0(2)] by blast
  then have "in_txn d c1" by (simp add: in_txn_def ready_def clean_def visible_def)
  then obtain c2 where c2: "body c1 = (Inr x, c2)" "in_txn d' c2" using body by blast
  obtain c' where "conn_commit c2 = (Inr (), c')" "ready d' c'" using commit_txn [OF c2(2)] by blast
  with c2 show ?thesis
    by (simp add: transaction_def thenE_run ensure_ready_migrated [OF ready_migrated [OF assms(1)]]
        c0(1) c1(1) catch_run bindE_run ret_def)
qed

subsection \<open>Outcomes under failures\<close>

lemma on_server_cases:
  obtains
    (ok) "fst (on_server f c) = fst (f (r_state (server c)))"
      "r_state (server (snd (on_server f c))) = snd (f (r_state (server c)))"
  | (refused) e where "fst (on_server f c) = Inl e"
      "r_state (server (snd (on_server f c))) = r_state (server c)"
  | (lost) e where "fst (on_server f c) = Inl e"
      "r_state (server (snd (on_server f c))) = snd (f (r_state (server c)))"
  by (cases rule: call_cases [of f "server c"]) (auto simp: on_server_def)

lemma on_server_flags [simp]:
  "connected (snd (on_server f c)) = connected c" "migrated (snd (on_server f c)) = migrated c"
  by (simp_all add: on_server_def split: prod.splits)

lemma on_server_state:
  "Q (r_state (server c)) \<Longrightarrow> (\<And>s. Q s \<Longrightarrow> Q (snd (f s))) \<Longrightarrow> Q (r_state (server (snd (on_server f c))))"
  by (cases rule: on_server_cases [of f c]) auto

lemma keeps_clean_on_server:
  assumes "\<And>s. committed s = d \<and> pending s = None \<Longrightarrow> committed (snd (f s)) = d \<and> pending (snd (f s)) = None"
  shows "keeps (clean d) (on_server f)"
  using on_server_state [of "\<lambda>s. committed s = d \<and> pending s = None" _ f] assms
  by (simp add: keeps_def clean_def)

lemma on_server_ok:
  assumes "on_server f c = (Inr x, c')"
  shows "f (r_state (server c)) = (Inr x, r_state (server c'))"
    "connected c' = connected c" "migrated c' = migrated c"
proof -
  show "f (r_state (server c)) = (Inr x, r_state (server c'))"
    using assms by (cases rule: on_server_cases [of f c]) (auto simp: prod_eq_iff)
  show "connected c' = connected c" "migrated c' = migrated c"
    using assms on_server_flags [of f c] by simp_all
qed

lemma conn_execute_ok:
  assumes "conn_execute st c = (Inr cur, c')"
  obtains eff d' where "st (db_visible c) = Inr (cur, eff, d')"
    "eff = Read \<Longrightarrow> r_state (server c') = r_state (server c)"
    "\<And>n. eff = Wrote n \<Longrightarrow> r_state (server c') =
       (r_state (server c))\<lparr>pending := Some d', last_changes := n\<rparr>"
    "connected c' = connected c" "migrated c' = migrated c"
  using on_server_ok [OF assms [unfolded conn_execute_def]]
  by (auto simp: execute_on_def split: sum.splits prod.splits effect.splits)

text \<open>A statement that is a write whenever it does not raise, and the data it leaves.\<close>

definition is_write :: "('d, 'r) stmt \<Rightarrow> bool" where
  "is_write st \<longleftrightarrow> (\<forall>d. case st d of Inl _ \<Rightarrow> True | Inr (_, eff, _) \<Rightarrow> (\<exists>n. eff = Wrote n))"

definition after :: "('d, 'r) stmt \<Rightarrow> 'd \<Rightarrow> 'd" where
  "after st d = (case st d of Inl _ \<Rightarrow> d | Inr (_, _, d') \<Rightarrow> d')"

lemma is_writeD: "is_write st \<Longrightarrow> st d = Inr (cur, eff, d') \<Longrightarrow> \<exists>n. eff = Wrote n"
  by (auto simp: is_write_def dest!: spec [of _ d])

lemma keeps_clean_get_connection: "keeps (clean d) (get_connection cfg)"
  unfolding get_connection_def conn_execute_def
  by (intro keeps_cond keeps_intros keeps_clean_on_server)
    (auto simp: clean_def keeps_def execute_on_def pragma_def)

lemma get_connection_connected: "get_connection cfg c = (Inr u, c') \<Longrightarrow> connected c'"
  by (auto simp: get_connection_def io_ok split: if_splits)

lemma commit_outcome:
  assumes "migrated c" "connected c" "conn_commit c = (r, c')"
  shows "migrated c' \<and> connected c' \<and> (case r of
      Inl e \<Rightarrow> db_data c' \<in> {db_data c, db_visible c}
    | Inr u \<Rightarrow> clean (db_visible c) c')"
  using assms on_server_flags [of commit_on c]
  by (cases rule: on_server_cases [of commit_on c])
    (auto simp: conn_commit_def commit_on_def clean_def)

lemma conn_execute_outcome:
  assumes "is_write st" "clean d c" "conn_execute st c = (r, c')"
  shows "migrated c'" "connected c' = connected c" "db_data c' = d" "db_visible c' \<in> {d, after st d}"
proof -
  have vis: "db_visible c = d" and com: "db_data c = d" and mig: "migrated c"
    using assms(2) by (simp_all add: clean_def visible_def)
  have c': "c' = snd (conn_execute st c)" using assms(3) by simp
  show "migrated c'" "connected c' = connected c" using mig by (simp_all add: c' conn_execute_def)
  have eff: "committed (snd (execute_on st (r_state (server c)))) = d \<and>
     visible (snd (execute_on st (r_state (server c)))) \<in> {d, after st d}"
    using vis com is_writeD [OF assms(1), of d]
    by (auto simp: execute_on_def after_def visible_def split: sum.splits prod.splits effect.splits option.splits)
  show "db_data c' = d" "db_visible c' \<in> {d, after st d}"
    unfolding c' conn_execute_def using eff vis com
    by (cases rule: on_server_cases [of "execute_on st" c]; simp)+
qed

lemma run_once_outcome:
  assumes "is_write st" "clean d c" "connected c" "run_once st True c = (r, c')"
  shows "migrated c' \<and> connected c' \<and> db_data c' \<in> {d, after st d} \<and>
    (\<forall>rows. r = Inr rows \<longrightarrow> clean (after st d) c' \<and>
       (\<exists>cur n. st d = Inr (cur, Wrote n, after st d) \<and> rows = rows_to_dicts cur))"
proof -
  obtain r1 c1 where c1: "conn_execute st c = (r1, c1)" by fastforce
  note x = conn_execute_outcome [OF assms(1,2) c1]
  show ?thesis
  proof (cases r1)
    case (Inl e)
    with assms(3,4) c1 x show ?thesis by (auto simp: run_once_def bindE_raise)
  next
    case (Inr cur)
    have now: "db_visible c = d" using assms(2) by (simp add: clean_def visible_def)
    from conn_execute_ok [OF c1 [unfolded Inr]] obtain eff d' where run: "st d = Inr (cur, eff, d')"
      and srv: "\<And>n. eff = Wrote n \<Longrightarrow> r_state (server c1) = (r_state (server c))\<lparr>pending := Some d', last_changes := n\<rparr>"
      unfolding now by metis
    obtain n where n: "eff = Wrote n" using is_writeD [OF assms(1) run] by blast
    have st: "st d = Inr (cur, Wrote n, after st d)" and vis: "db_visible c1 = after st d"
      using run n srv [OF n] by (simp_all add: after_def visible_def)
    obtain r2 c2 where c2: "conn_commit c1 = (r2, c2)" by fastforce
    have "(r, c') = (case r2 of Inl e \<Rightarrow> Inl e | Inr u \<Rightarrow> Inr (rows_to_dicts cur), c2)"
      using assms(4) c1 c2 Inr by (simp add: run_once_def bindE_def thenE_def ret_def split: sum.splits)
    then show ?thesis using commit_outcome [OF x(1) _ c2] x assms(3) vis st
      by (auto simp: clean_def split: sum.splits)
  qed
qed

text \<open>
  A committed write, whatever fails: the connection retry may run the statement a second
  time, and rows come back only from a run that was committed.
\<close>

lemma clean_close: "migrated c \<Longrightarrow> connected c \<Longrightarrow> clean (db_data c) (snd (close_connection c))"
  by (simp add: close_connection_def clean_def)

lemma run_retry_outcome:
  assumes "is_write st" "clean d c" "connected c"
    and "catch (run_once st True) (\<lambda>e. if is_stale_connection e
            then thenE close_connection (thenE (get_connection cfg) (run_once st True)) else throw e) c = (r, c')"
  shows "db_data c' \<in> {d, after st d, after st (after st d)} \<and> migrated c' \<and>
    (\<forall>rows. r = Inr rows \<longrightarrow> (\<exists>d0 \<in> {d, after st d}. clean (after st d0) c' \<and>
       (\<exists>cur n. st d0 = Inr (cur, Wrote n, after st d0) \<and> rows = rows_to_dicts cur)))"
proof -
  obtain r1 c1 where r1: "run_once st True c = (r1, c1)" by fastforce
  note first = run_once_outcome [OF assms(1-3) r1]
  show ?thesis
  proof (cases r1)
    case (Inr rows)
    then show ?thesis using assms(4) r1 first by (auto simp: catch_run)
  next
    case (Inl e)
    show ?thesis
    proof (cases "is_stale_connection e")
      case False
      then show ?thesis using assms(4) r1 Inl first by (auto simp: catch_raise throw_def)
    next
      case True
      define d1 where "d1 = db_data c1"
      define c2 where "c2 = snd (close_connection c1)"
      have d1: "d1 \<in> {d, after st d}" and cl2: "clean d1 c2"
        using first assms(3) clean_close [of c1] by (auto simp: d1_def c2_def)
      obtain r3 c3 where c3: "get_connection cfg c2 = (r3, c3)" by fastforce
      have cl3: "clean d1 c3" using keepsD [OF keeps_clean_get_connection cl2, of cfg] c3 by simp
      have run: "(r, c') = thenE (get_connection cfg) (run_once st True) c2"
        using assms(4) r1 Inl True by (simp add: catch_raise thenE_def bindE_def close_connection_def c2_def)
      show ?thesis
      proof (cases r3)
        case (Inl e')
        then show ?thesis using run c3 cl3 d1 by (auto simp: thenE_raise clean_def)
      next
        case (Inr u)
        then have "run_once st True c3 = (r, c')" "connected c3"
          using run c3 get_connection_connected by (auto simp: thenE_run)
        from run_once_outcome [OF assms(1) cl3 this(2,1)] d1 show ?thesis by auto
      qed
    qed
  qed
qed

lemma execute_outcome:
  assumes "is_write st" "clean d c" "execute E st c = (r, c')"
  shows "db_data c' \<in> {d, after st d, after st (after st d)} \<and> migrated c' \<and>
    (\<forall>rows. r = Inr rows \<longrightarrow> (\<exists>d0 \<in> {d, after st d}. clean (after st d0) c' \<and>
       (\<exists>cur n. st d0 = Inr (cur, Wrote n, after st d0) \<and> rows = rows_to_dicts cur)))"
proof -
  obtain r1 c1 where c1: "get_connection (db_config E) c = (r1, c1)" by fastforce
  have cl1: "clean d c1" using keepsD [OF keeps_clean_get_connection assms(2), of "db_config E"] c1 by simp
  have mig: "migrated c" using assms(2) by (simp add: clean_def)
  show ?thesis
  proof (cases r1)
    case (Inl e)
    then have "r = Inl e" "c' = c1"
      using assms(3) c1 ensure_ready_migrated [OF mig, of E]
      by (simp_all add: execute_def run_def thenE_run thenE_raise)
    with cl1 show ?thesis by (simp add: clean_def)
  next
    case (Inr u)
    then have "connected c1" using get_connection_connected c1 by metis
    moreover have "catch (run_once st True) (\<lambda>e. if is_stale_connection e
        then thenE close_connection (thenE (get_connection (db_config E)) (run_once st True)) else throw e) c1 = (r, c')"
      using assms(3) c1 Inr ensure_ready_migrated [OF mig, of E]
      by (simp add: execute_def run_def thenE_run)
    ultimately show ?thesis using run_retry_outcome [OF assms(1) cl1] by blast
  qed
qed

text \<open>Statements that give the same data when repeated tolerate the retry.\<close>

definition idempotent :: "('d, 'r) stmt \<Rightarrow> bool" where
  "idempotent st \<longleftrightarrow> (\<forall>d. after st (after st d) = after st d)"

lemma execute_idempotent:
  assumes "is_write st" "idempotent st" "clean d c" "execute E st c = (r, c')"
  shows "db_data c' \<in> {d, after st d}" "r = Inr rows \<Longrightarrow> clean (after st d) c'"
  using execute_outcome [OF assms(1,3,4)] assms(2) by (auto simp: idempotent_def)

subsection \<open>Reads\<close>

definition select :: "string list \<Rightarrow> ('d \<Rightarrow> 'r list) \<Rightarrow> ('d, 'r) stmt" where
  "select columns f d = Inr (\<lparr>description = Some columns, fetched = Some (f d)\<rparr>, Read, d)"

lemma keeps_clean_select: "keeps (clean d) (run_once (select cols f) False)"
  unfolding run_once_def Let_def conn_execute_def if_False
  by (intro keeps_intros keeps_clean_on_server) (simp add: execute_on_def select_def)

lemma keeps_clean_close: "keeps (clean d) close_connection"
  by (auto simp: keeps_def clean_def close_connection_def)

lemma keeps_clean_ensure_ready: "keeps (clean d) (ensure_ready E)"
  by (simp add: keeps_def clean_def ensure_ready_migrated)

lemma keeps_clean_query: "keeps (clean d) (query E (select cols f))"
  unfolding query_def run_def
  by (intro keeps_intros keeps_clean_select keeps_clean_close keeps_clean_get_connection
      keeps_clean_ensure_ready)

lemma run_once_select:
  "clean d c \<Longrightarrow> run_once (select cols f) False c = (Inr rows, c') \<Longrightarrow> rows = f d"
  by (auto simp: run_once_def io_ok clean_def visible_def select_def rows_to_dicts_def
      elim!: conn_execute_ok)

lemma query_select:
  assumes "clean d c" "query E (select cols f) c = (Inr rows, c')"
  shows "rows = f d"
proof -
  let ?attempt = "run_once (select cols f) False"
  have step: "clean d c2" if "clean d c1" "get_connection cfg c1 = (x, c2)" for c1 c2 x cfg
    using keepsD [OF keeps_clean_get_connection that(1), of cfg] that(2) by simp
  from assms obtain c1 where c1: "get_connection (db_config E) c = (Inr (), c1)"
    and run: "catch ?attempt (\<lambda>e. if is_stale_connection e
        then thenE close_connection (thenE (get_connection (db_config E)) ?attempt) else throw e) c1 = (Inr rows, c')"
    by (auto simp: query_def run_def thenE_run ensure_ready_migrated clean_def thenE_ok)
  note cl1 = step [OF assms(1) c1]
  obtain x c2 where x: "?attempt c1 = (x, c2)" by fastforce
  then have cl2: "clean d c2" using keepsD [OF keeps_clean_select cl1, of cols f] by simp
  show ?thesis
  proof (cases x)
    case (Inr rows')
    then show ?thesis using run x run_once_select [OF cl1] by (simp add: catch_run)
  next
    case (Inl e)
    then obtain c3 c4 where "close_connection c2 = (Inr (), c3)"
      and c4: "get_connection (db_config E) c3 = (Inr (), c4)" "?attempt c4 = (Inr rows, c')"
      using run x by (auto simp: catch_raise thenE_ok throw_ok split: if_splits)
    then have "clean d c3" using keepsD [OF keeps_clean_close cl2] by simp
    from run_once_select [OF step [OF this c4(1)] c4(2)] show ?thesis .
  qed
qed

lemma select_ready:
  "ready d c \<Longrightarrow> \<exists>c'. query E (select cols f) c = (Inr (f d), c') \<and> ready d c'"
  using query_ready [where st = "select cols f" and d = d and c = c and E = E]
  by (simp add: select_def rows_to_dicts_def)

lemma stmt_keeps_select [simp]: "stmt_keeps P (select cols f)"
  by (simp add: stmt_keeps_def select_def)

subsection \<open>Transactions are atomic\<close>

text \<open>Inside a transaction the committed data does not move; only statements and \<^verbatim>\<open>changes()\<close> run.\<close>

definition holds :: "'d \<Rightarrow> 'd client \<Rightarrow> bool" where
  "holds d c \<longleftrightarrow> db_data c = d \<and> migrated c \<and> connected c"

lemma keeps_holds_on_server:
  assumes "\<And>s. committed s = d \<Longrightarrow> committed (snd (f s)) = d"
  shows "keeps (holds d) (on_server f)"
  using on_server_state [of "\<lambda>s. committed s = d" _ f] assms by (simp add: keeps_def holds_def)

lemma keeps_holds_write: "is_write st \<Longrightarrow> keeps (holds d) (conn_execute st)"
  unfolding conn_execute_def
  by (rule keeps_holds_on_server)
    (auto simp: execute_on_def split: sum.splits prod.splits effect.splits dest: is_writeD)

lemma keeps_holds_changes: "keeps (holds d) changes"
  unfolding changes_def by (rule keeps_holds_on_server) simp

lemma keeps_holds_rollback: "keeps (holds d) try_rollback"
  unfolding try_rollback_def conn_rollback_def
  by (intro keeps_intros keeps_holds_on_server) (simp add: rollback_on_def)

lemma abort_data:
  assumes "migrated c" "connected c"
  shows "\<exists>c'. thenE try_rollback (throw e) c = (Inl e, c') \<and> db_data c' = db_data c"
proof -
  have "\<exists>c'. try_rollback c = (Inr (), c')"
    by (auto simp: try_rollback_def catch_def ret_def split: prod.split sum.split)
  then obtain c' where c': "try_rollback c = (Inr (), c')" by blast
  have "holds (db_data c) c" using assms by (simp add: holds_def)
  then have "db_data c' = db_data c" using keepsD [OF keeps_holds_rollback] c' by (fastforce simp: holds_def)
  with c' show ?thesis by (simp add: thenE_run throw_def)
qed

text \<open>
  Either the block ran to its end and was committed, or the caller sees an exception; then
  the data is as before or, when the reply to the commit was lost, as the block left it.
\<close>

lemma block_outcome:
  assumes c1: "holds d c1" and body: "keeps (holds d) body"
    and run: "catch (bindE body (\<lambda>x. thenE conn_commit (ret x))) (\<lambda>e. thenE try_rollback (throw e)) c1 = (r, c')"
  shows "(\<exists>e. r = Inl e \<and> db_data c' = d) \<or>
    (\<exists>x c2. body c1 = (Inr x, c2) \<and>
       (r = Inr x \<and> clean (db_visible c2) c' \<or> (\<exists>e. r = Inl e \<and> db_data c' = db_visible c2)))"
proof -
  obtain rb c2 where c2: "body c1 = (rb, c2)" by fastforce
  have h2: "holds d c2" using keepsD [OF body c1] c2 by simp
  have abort: "\<exists>c4. thenE try_rollback (throw e) c3 = (Inl e :: exn + 'b, c4) \<and> db_data c4 = db_data c3"
    if "migrated c3" "connected c3" for e c3 using abort_data [OF that] .
  show ?thesis
  proof (cases rb)
    case (Inl e)
    then show ?thesis using run c2 h2 abort [of c2 e] by (auto simp: catch_raise bindE_raise holds_def)
  next
    case (Inr x)
    obtain rc c3 where c3: "conn_commit c2 = (rc, c3)" by fastforce
    note com = commit_outcome [OF _ _ c3]
    show ?thesis
    proof (cases rc)
      case Inr_c: (Inr u)
      then have "r = Inr x" "c' = c3" using run c2 c3 Inr by (simp_all add: catch_def bindE_def thenE_def ret_def)
      then show ?thesis using com h2 c2 Inr Inr_c by (auto simp: holds_def)
    next
      case (Inl e)
      with com h2 have c3': "migrated c3" "connected c3" "db_data c3 \<in> {d, db_visible c2}" by (auto simp: holds_def)
      from abort [OF c3'(1,2), of e] obtain c4 where c4: "thenE try_rollback (throw e) c3 = (Inl e :: exn + 'b, c4)"
        "db_data c4 = db_data c3" by blast
      have "(r, c') = (Inl e, c4)" using run c2 c3 Inr Inl c4(1) by (simp add: catch_def bindE_def thenE_def)
      then show ?thesis using c3' c4(2) c2 Inr by auto
    qed
  qed
qed

lemma transaction_outcome:
  assumes "clean d c" and body: "keeps (holds d) body" and run: "transaction E body c = (r, c')"
  shows "(\<exists>e. r = Inl e \<and> db_data c' = d) \<or>
    (\<exists>x c1 c2. clean d c1 \<and> body c1 = (Inr x, c2) \<and>
       (r = Inr x \<and> clean (db_visible c2) c' \<or> (\<exists>e. r = Inl e \<and> db_data c' = db_visible c2)))"
proof -
  have mig: "migrated c" using assms(1) by (simp add: clean_def)
  have eq: "select_one = select [''ok''] (\<lambda>_. [1])" by (simp add: fun_eq_iff select_one_def select_def)
  obtain r0 c0 where c0: "query E select_one c = (r0, c0)" by fastforce
  have cl0: "clean d c0" using keepsD [OF keeps_clean_query assms(1)] c0 unfolding eq by (metis snd_conv)
  obtain rg c1 where c1: "get_connection (db_config E) c0 = (rg, c1)" by fastforce
  have cl1: "clean d c1" using keepsD [OF keeps_clean_get_connection cl0, of "db_config E"] c1 by simp
  show ?thesis
  proof (cases "(\<exists>e. r0 = Inl e) \<or> (\<exists>e. rg = Inl e)")
    case True
    then show ?thesis using run c0 c1 cl0 cl1 ensure_ready_migrated [OF mig, of E]
      by (cases r0) (auto simp: transaction_def thenE_run thenE_raise clean_def)
  next
    case False
    then obtain x0 where "r0 = Inr x0" "rg = Inr ()" by (cases r0; cases rg) auto
    with c0 c1 have "holds d c1" and
      "transaction E body c = catch (bindE body (\<lambda>x. thenE conn_commit (ret x))) (\<lambda>e. thenE try_rollback (throw e)) c1"
      using cl1 ensure_ready_migrated [OF mig, of E] get_connection_connected [of "db_config E" c0]
      by (auto simp: transaction_def thenE_run holds_def clean_def)
    with block_outcome [OF this(1) body] run cl1 show ?thesis by (metis (no_types))
  qed
qed

lemma transaction_ok:
  assumes "transaction E body c = (Inr x, c')"
  shows "\<exists>c1 c2. (\<forall>P. env_keeps P E \<longrightarrow> all_data P c \<longrightarrow> all_data P c1) \<and> body c1 = (Inr x, c2) \<and>
    db_data c' = db_visible c2 \<and> pending (r_state (server c')) = None"
proof -
  let ?pre = "thenE (ensure_ready E) (thenE (query E select_one) (get_connection (db_config E)))"
  let ?block = "catch (bindE body (\<lambda>x. thenE conn_commit (ret x))) (\<lambda>e. thenE try_rollback (throw e))"
  have "transaction E body = thenE ?pre ?block"
    by (simp add: transaction_def thenE_def bindE_assoc)
  with assms obtain c1 where pre: "?pre c = (Inr (), c1)" and run: "?block c1 = (Inr x, c')"
    by (auto simp: thenE_ok)
  have "keeps (all_data P) ?pre" if "env_keeps P E" for P
    using that by (intro keeps_intros stmt_keeps_select_one)
  then have "\<forall>P. env_keeps P E \<longrightarrow> all_data P c \<longrightarrow> all_data P c1"
    using pre by (metis keepsD snd_conv)
  moreover obtain c2 where "body c1 = (Inr x, c2)" "conn_commit c2 = (Inr (), c')"
  proof -
    have "\<exists>c2. body c1 = (Inr x, c2) \<and> conn_commit c2 = (Inr (), c')"
    proof (cases "bindE body (\<lambda>x. thenE conn_commit (ret x)) c1")
      case (Pair r c3)
      show ?thesis
      proof (cases r)
        case (Inl e)
        then show ?thesis using run Pair by (simp add: catch_raise thenE_ok throw_ok)
      next
        case (Inr y)
        then have "y = x" "c3 = c'" using run Pair by (simp_all add: catch_run)
        then show ?thesis using Pair Inr by (auto simp: io_ok)
      qed
    qed
    then show thesis using that by blast
  qed
  moreover from this(2) have "commit_on (r_state (server c2)) = (Inr (), r_state (server c'))"
    unfolding conn_commit_def by (rule on_server_ok(1))
  then have "db_data c' = db_visible c2" "pending (r_state (server c')) = None"
    by (auto simp: commit_on_def elim: database.cases dest!: sym [of _ "r_state (server c')"])
  ultimately show ?thesis by blast
qed

lemma all_data_committed:
  "pending (r_state (server c)) = None \<Longrightarrow> all_data P c = P (db_data c)"
  by (simp add: all_data_def visible_def)

lemma conn_execute_write_ok:
  assumes "conn_execute st c = (Inr cur, c')" "is_write st"
  shows "st (db_visible c) = Inr (cur, Wrote (last_changes (r_state (server c'))), db_visible c')"
proof -
  obtain eff d' where st: "st (db_visible c) = Inr (cur, eff, d')"
    and w: "\<And>n. eff = Wrote n \<Longrightarrow> r_state (server c') = (r_state (server c))\<lparr>pending := Some d', last_changes := n\<rparr>"
    using conn_execute_ok [OF assms(1)] by metis
  obtain n where "eff = Wrote n" using is_writeD [OF assms(2) st] by blast
  with st w show ?thesis by (simp add: visible_def)
qed

lemma changes_ok:
  assumes "changes c = (Inr n, c')"
  shows "n = last_changes (r_state (server c))" "r_state (server c') = r_state (server c)"
  using on_server_ok(1) [OF assms [unfolded changes_def]] by auto

subsection \<open>A list of statements in one transaction\<close>

fun apply_stmts :: "('d, 'r) stmt list \<Rightarrow> 'd \<Rightarrow> exn + 'd" where
  "apply_stmts [] d = Inr d"
| "apply_stmts (st # sts) d = (case st d of Inl e \<Rightarrow> Inl e | Inr (_, _, d') \<Rightarrow> apply_stmts sts d')"

definition exec_all :: "('d, 'r) stmt list \<Rightarrow> ('d client, unit) io" where
  "exec_all sts = foreachE sts (\<lambda>st. thenE (conn_execute st) (ret ()))"

lemma apply_stmts_keeps:
  "(\<And>st. st \<in> set sts \<Longrightarrow> stmt_keeps P st) \<Longrightarrow> P d \<Longrightarrow> apply_stmts sts d = Inr d' \<Longrightarrow> P d'"
proof (induction sts arbitrary: d)
  case (Cons st sts)
  from Cons.prems(3) obtain cur eff d1 where st: "st d = Inr (cur, eff, d1)" "apply_stmts sts d1 = Inr d'"
    by (auto split: sum.splits)
  have "stmt_keeps P st" using Cons.prems(1) by simp
  then have "P d1" using Cons.prems(2) st(1) by (rule stmt_keepsD)
  with Cons.IH [of d1] Cons.prems(1) st(2) show ?case by simp
qed simp

lemma exec_all_txn:
  "\<lbrakk>in_txn d c; \<And>st. st \<in> set sts \<Longrightarrow> is_write st\<rbrakk> \<Longrightarrow>
   \<exists>c'. db_data c' = db_data c \<and> migrated c' \<and> connected c' \<and> r_faults (server c') = [] \<and>
     (case apply_stmts sts d of
        Inl e \<Rightarrow> exec_all sts c = (Inl e, c')
      | Inr d' \<Rightarrow> exec_all sts c = (Inr (), c') \<and> in_txn d' c')"
proof (induction sts arbitrary: d c)
  case Nil
  then show ?case by (intro exI [of _ c]) (simp add: exec_all_def ret_def in_txn_def)
next
  case (Cons st sts)
  have c: "db_visible c = d" "migrated c" "connected c" "r_faults (server c) = []"
    using Cons.prems(1) by (simp_all add: in_txn_def)
  show ?case
  proof (cases "st d")
    case (Inl e)
    then have "conn_execute st c = (Inl e, c)"
      using c by (cases c) (simp add: conn_execute_def on_server_healthy execute_on_def)
    with c Inl show ?thesis by (intro exI [of _ c]) (simp add: exec_all_def thenE_raise)
  next
    case (Inr x)
    obtain cur eff d1 where x: "st d = Inr (cur, eff, d1)" using Inr by (cases x) simp
    obtain n where n: "eff = Wrote n" using is_writeD [where st = st, OF Cons.prems(2) x] by auto
    define c1 where "c1 = snd (conn_execute st c)"
    have c1: "conn_execute st c = (Inr cur, c1)" "in_txn d1 c1" "db_data c1 = db_data c"
      unfolding c1_def using c x n
      by (simp_all add: conn_execute_def on_server_healthy execute_on_def in_txn_def visible_def)
    have ex: "exec_all (st # sts) c = exec_all sts c1"
      using c1(1) by (simp add: exec_all_def thenE_run ret_def)
    have ap: "apply_stmts (st # sts) d = apply_stmts sts d1" using x by simp
    show ?thesis
      unfolding ex ap c1(3) [symmetric] by (rule Cons.IH [OF c1(2)]) (simp add: Cons.prems(2))
  qed
qed

lemma transaction_stmts_ready:
  assumes "ready d c" "\<And>st. st \<in> set sts \<Longrightarrow> is_write st"
  shows "\<exists>c'. transaction E (exec_all sts) c = (case apply_stmts sts d of Inl e \<Rightarrow> Inl e | Inr _ \<Rightarrow> Inr (), c')
    \<and> ready (case apply_stmts sts d of Inl _ \<Rightarrow> d | Inr d' \<Rightarrow> d') c'"
proof (cases "apply_stmts sts d")
  case (Inr d')
  have "\<exists>c2. exec_all sts c1 = (Inr (), c2) \<and> in_txn d' c2" if "in_txn d c1" for c1
    using exec_all_txn [of d c1 sts] that assms(2) Inr by auto
  from transaction_ready [OF assms(1) this] Inr show ?thesis by simp
next
  case (Inl e)
  have "\<exists>c0. query E select_one c = (Inr (rows_to_dicts \<lparr>description = Some [''ok''], fetched = Some [1]\<rparr>), c0) \<and> ready d c0"
    by (rule query_ready [where d = d and c = c and st = select_one and d' = d]) (simp_all only: assms(1) select_one_def)
  then obtain rows c0 where c0: "query E select_one c = (Inr rows, c0)" "ready d c0" by metis
  obtain c1 where c1: "get_connection (db_config E) c0 = (Inr (), c1)" "ready d c1" "connected c1"
    using get_connection_ready [OF c0(2)] by blast
  then have "in_txn d c1" by (simp add: in_txn_def ready_def clean_def visible_def)
  then obtain c2 where c2: "exec_all sts c1 = (Inl e, c2)" "db_data c2 = d" "migrated c2" "r_faults (server c2) = []"
    using exec_all_txn [of d c1 sts] assms(2) Inl c1(2) by (auto simp: ready_def clean_def)
  have undone: "try_rollback c2 = (Inr (), c2\<lparr>server := \<lparr>r_state = (r_state (server c2))\<lparr>pending := None\<rparr>, r_faults = []\<rparr>\<rparr>)"
    using c2(4) by (simp add: try_rollback_def catch_def conn_rollback_def on_server_healthy rollback_on_def)
  show ?thesis
    using c2 undone Inl
    by (simp add: transaction_def thenE_run ensure_ready_migrated [OF ready_migrated [OF assms(1)]]
        c0(1) c1(1) catch_raise bindE_raise throw_def ready_def clean_def)
qed

lemma exec_all_ok:
  assumes "exec_all sts c = (Inr u, c')" "\<And>st. st \<in> set sts \<Longrightarrow> is_write st"
  shows "apply_stmts sts (db_visible c) = Inr (db_visible c')"
  using assms
proof (induction sts arbitrary: c)
  case Nil
  then show ?case by (simp add: exec_all_def ret_def)
next
  case (Cons st sts)
  then obtain cur c1 where one: "conn_execute st c = (Inr cur, c1)" and rest: "exec_all sts c1 = (Inr u, c')"
    by (auto simp: exec_all_def io_ok)
  from conn_execute_write_ok [OF one] Cons.prems(2) Cons.IH [OF rest] show ?case by auto
qed

subsection \<open>What a query returns\<close>

lemma run_once_rows:
  assumes "run_once (select cols f) b c = (Inr rows, c')"
  shows "rows = f (db_visible c)"
proof -
  obtain cur c1 where "conn_execute (select cols f) c = (Inr cur, c1)" "rows = rows_to_dicts cur"
    using assms by (cases b) (auto simp: run_once_def Let_def io_ok)
  then show ?thesis by (auto simp: select_def rows_to_dicts_def elim!: conn_execute_ok)
qed

lemma query_rows: "query E (select cols f) c = (Inr rows, c') \<Longrightarrow> rows \<in> range f"
  by (auto simp: query_def run_def thenE_def bindE_def catch_def throw_def
      dest!: run_once_rows split: prod.splits sum.splits if_splits)

subsection \<open>Nothing stays pending\<close>

abbreviation db_failures :: "'d client \<Rightarrow> nat" where
  "db_failures c \<equiv> failures (r_faults (server c))"

text \<open>An operation that raises only when a call failed, and the failures it used up.\<close>

definition costs :: "('d client, 'a) io \<Rightarrow> bool" where
  "costs m \<longleftrightarrow> (\<forall>c r c'. m c = (r, c') \<longrightarrow>
     db_failures c' + (case r of Inl e \<Rightarrow> 1 | Inr _ \<Rightarrow> 0) \<le> db_failures c)"

lemma costsD: "costs m \<Longrightarrow> m c = (r, c') \<Longrightarrow> db_failures c' + (case r of Inl e \<Rightarrow> 1 | Inr _ \<Rightarrow> 0) \<le> db_failures c"
  by (simp add: costs_def)

lemma costs_ret: "costs (ret x)"
  by (simp add: costs_def ret_def)

lemma costs_on_server: "(\<And>s e. fst (f s) \<noteq> Inl e) \<Longrightarrow> costs (on_server f)"
  unfolding costs_def on_server_def
  using call_failures [of f] by (auto split: prod.splits)

lemma costs_bindE:
  assumes "costs m" "\<And>x. costs (f x)"
  shows "costs (bindE m f)"
  unfolding costs_def
proof (intro allI impI)
  fix c r c' assume run: "bindE m f c = (r, c')"
  obtain r1 c1 where m: "m c = (r1, c1)" by fastforce
  show "db_failures c' + (case r of Inl e \<Rightarrow> 1 | Inr _ \<Rightarrow> 0) \<le> db_failures c"
    using costsD [OF assms(1) m] costsD [OF assms(2), of _ c1 r c'] run m
    by (cases r1) (auto simp: bindE_run bindE_raise intro: order_trans)
qed

lemma costs_thenE: "costs m \<Longrightarrow> costs n \<Longrightarrow> costs (thenE m n)"
  unfolding thenE_def by (rule costs_bindE)

lemma costs_if: "costs m \<Longrightarrow> costs n \<Longrightarrow> costs (if b then m else n)"
  by simp

text \<open>A statement that never raises by itself.\<close>

definition never_raises :: "('d, 'r) stmt \<Rightarrow> bool" where
  "never_raises st \<longleftrightarrow> (\<forall>d e. st d \<noteq> Inl e)"

lemma costs_execute: "never_raises st \<Longrightarrow> costs (conn_execute st)"
  unfolding conn_execute_def
  by (rule costs_on_server) (auto simp: never_raises_def execute_on_def split: sum.splits prod.splits effect.splits)

lemma costs_commit: "costs conn_commit"
  unfolding conn_commit_def by (rule costs_on_server) (simp add: commit_on_def)

lemma costs_rollback: "costs conn_rollback"
  unfolding conn_rollback_def by (rule costs_on_server) (simp add: rollback_on_def)

lemma costs_changes: "costs changes"
  unfolding changes_def by (rule costs_on_server) simp

lemma costs_foreachE: "(\<And>x. costs (f x)) \<Longrightarrow> costs (foreachE xs f)"
  by (induction xs) (auto intro: costs_ret costs_thenE)

lemma costs_cond: "costs m \<Longrightarrow> costs n \<Longrightarrow> costs (\<lambda>c. if b c then m c else n c)"
  by (simp add: costs_def)

lemma costs_catch:
  assumes "costs m" "\<And>e. costs (h e) \<or> h e = throw e"
  shows "costs (catch m h)"
  unfolding costs_def
proof (intro allI impI)
  fix c r c' assume run: "catch m h c = (r, c')"
  obtain r1 c1 where m: "m c = (r1, c1)" by fastforce
  show "db_failures c' + (case r of Inl e \<Rightarrow> 1 | Inr _ \<Rightarrow> 0) \<le> db_failures c"
  proof (cases r1)
    case (Inl e)
    then have h: "h e c1 = (r, c')" using run m by (simp add: catch_raise)
    have one: "db_failures c1 + 1 \<le> db_failures c" using costsD [OF assms(1) m] Inl by simp
    from assms(2) [of e] show ?thesis
    proof
      assume "costs (h e)"
      from costsD [OF this h] one show ?thesis by (auto split: sum.splits)
    next
      assume "h e = throw e"
      with h one show ?thesis by (auto simp: throw_def)
    qed
  next
    case (Inr x)
    with run costsD [OF assms(1) m] m show ?thesis by (simp add: catch_run)
  qed
qed

lemma costs_close: "costs close_connection"
  by (auto simp: costs_def close_connection_def)

lemma costs_flag: "costs (\<lambda>c. (Inr (), c\<lparr>connected := b\<rparr>))"
  by (simp add: costs_def)

lemma costs_get_connection: "costs (get_connection cfg)"
  unfolding get_connection_def
  by (intro costs_cond costs_ret costs_thenE costs_foreachE costs_flag costs_execute costs_on_server)
    (simp_all add: never_raises_def pragma_def)

lemma costs_ping: "costs (thenE (get_connection cfg) (catch (run_once select_one False) (\<lambda>e.
    if is_stale_connection e then thenE close_connection (thenE (get_connection cfg) (run_once select_one False)) else throw e)))"
proof -
  have once: "costs (run_once select_one False)"
    unfolding run_once_def Let_def if_False
    by (intro costs_bindE costs_ret costs_execute) (simp add: never_raises_def select_one_def)
  then show ?thesis
    by (intro costs_thenE costs_get_connection costs_catch) (auto intro: costs_thenE costs_close costs_get_connection)
qed

text \<open>
  A block that raises is rolled back: unless the rollback fails as well, nothing of the block
  stays pending on the connection.
\<close>

lemma abort_pending:
  assumes "thenE try_rollback (throw e) c = (r, c')" "db_failures c \<le> db_failures c'"
  shows "pending (r_state (server c')) = None"
proof -
  obtain x c1 where c1: "conn_rollback c = (x, c1)" by fastforce
  then have c': "c' = c1" using assms(1)
    by (cases x) (auto simp: try_rollback_def catch_run catch_raise thenE_run thenE_def bindE_def throw_def ret_def)
  have "x = Inr ()" using costsD [OF costs_rollback c1] assms(2) c' by (cases x) auto
  then show ?thesis using on_server_ok(1) [of rollback_on c "()" c1] c1 c'
    by (auto simp: conn_rollback_def rollback_on_def elim: database.cases dest!: sym [of _ "r_state (server c1)"])
qed

lemma block_pending:
  assumes body: "costs body" 
    and run: "catch (bindE body (\<lambda>x. thenE conn_commit (ret x))) (\<lambda>e. thenE try_rollback (throw e)) c = (r, c')"
    and one: "db_failures c \<le> Suc (db_failures c')"
  shows "pending (r_state (server c')) = None"
proof -
  let ?m = "bindE body (\<lambda>x. thenE conn_commit (ret x))"
  have m: "costs ?m" by (intro costs_bindE costs_thenE costs_ret costs_commit body)
  obtain r1 c1 where c1: "?m c = (r1, c1)" by fastforce
  show ?thesis
  proof (cases r1)
    case (Inl e)
    then have "thenE try_rollback (throw e) c1 = (r, c')" using run c1 by (simp add: catch_raise)
    moreover have "db_failures c1 \<le> db_failures c'" using costsD [OF m c1] Inl one by simp
    ultimately show ?thesis by (rule abort_pending)
  next
    case (Inr x)
    then have "c' = c1" using run c1 by (simp add: catch_run)
    moreover obtain c2 where "conn_commit c2 = (Inr (), c1)" using c1 Inr by (auto simp: io_ok)
    then have "commit_on (r_state (server c2)) = (Inr (), r_state (server c1))"
      unfolding conn_commit_def by (rule on_server_ok(1))
    ultimately show ?thesis by (auto simp: commit_on_def elim: database.cases dest!: sym [of _ "r_state (server c1)"])
  qed
qed

lemma transaction_pending:
  assumes "clean d c" "costs body" and run: "transaction E body c = (r, c')"
    and one: "db_failures c \<le> Suc (db_failures c')"
  shows "pending (r_state (server c')) = None"
proof -
  have mig: "migrated c" using assms(1) by (simp add: clean_def)
  let ?pre = "thenE (query E select_one) (get_connection (db_config E))"
  let ?block = "catch (bindE body (\<lambda>x. thenE conn_commit (ret x))) (\<lambda>e. thenE try_rollback (throw e))"
  have eq: "select_one = select [''ok''] (\<lambda>_. [1])" by (simp add: fun_eq_iff select_one_def select_def)
  obtain r0 c0 where c0: "?pre c = (r0, c0)" by fastforce
  have "keeps (clean d) ?pre" unfolding eq by (intro keeps_intros keeps_clean_query keeps_clean_get_connection)
  from keepsD [OF this assms(1)] have cl0: "clean d c0" using c0 by simp
  have tr: "transaction E body c = thenE ?pre ?block c"
    using ensure_ready_migrated [OF mig, of E] by (simp add: transaction_def thenE_def bindE_assoc bindE_run)
  show ?thesis
  proof (cases r0)
    case (Inl e)
    then have "c' = c0" using run tr c0 by (simp add: thenE_raise)
    then show ?thesis using cl0 by (simp add: clean_def)
  next
    case (Inr u)
    have "?pre c = thenE (thenE (get_connection (db_config E)) (catch (run_once select_one False) (\<lambda>e.
        if is_stale_connection e then thenE close_connection (thenE (get_connection (db_config E)) (run_once select_one False)) else throw e)))
        (get_connection (db_config E)) c"
      using ensure_ready_migrated [OF mig, of E]
      by (simp add: query_def run_def thenE_def bindE_assoc bindE_run)
    with c0 have "db_failures c0 \<le> db_failures c"
      using costsD [OF costs_thenE [OF costs_ping costs_get_connection], of "db_config E" "db_config E" c r0 c0]
      by simp
    with block_pending [OF assms(2), of c0 r c'] run tr c0 Inr one show ?thesis by (simp add: thenE_run)
  qed
qed

end
