(* ===== verification/Jobstore.thy ===== *)
theory Jobstore
  imports Db
begin

section \<open>jobstore.py: documents, jobs and chunks\<close>

text \<open>
  The three tables as lists of rows in insertion order, one statement per SQL text of the
  source, and the operations that run them through \<^theory_text>\<open>Db\<close>. The clock is read by the
  operations themselves in the source; here its value is the argument \<open>ts\<close>.
\<close>

subsection \<open>Tables\<close>

datatype job_status = Queued | Running | Assembling | Done | Failed

datatype chunk_status = ChunkPending | ChunkRunning | ChunkDone | ChunkFailed

fun job_status_text :: "job_status \<Rightarrow> string" where
  "job_status_text Queued = ''queued''"
| "job_status_text Running = ''running''"
| "job_status_text Assembling = ''assembling''"
| "job_status_text Done = ''done''"
| "job_status_text Failed = ''failed''"

record document_row =
  d_doc_key :: string
  d_file_hash :: string
  d_config_fp :: string
  d_total_pages :: int
  d_total_chunks :: int
  d_total_length :: int
  d_page_size :: int
  d_created_at :: int
  d_expires_at :: int

record job_row =
  j_job_id :: string
  j_doc_key :: string
  j_file_hash :: string
  j_url :: string
  j_status :: job_status
  j_total_chunks :: int
  j_remaining_chunks :: int
  j_use_llm :: int
  j_error :: "string option"
  j_error_chunk :: "int option"
  j_created_at :: int
  j_updated_at :: int

record chunk_row =
  c_id :: int
  c_job_id :: string
  c_chunk_index :: int
  c_start_page :: int
  c_end_page :: int
  c_status :: chunk_status
  c_attempts :: int
  c_available_at :: int
  c_lease_owner :: "string option"
  c_lease_expires_at :: "int option"
  c_s3_key :: "string option"
  c_last_error :: "string option"
  c_updated_at :: int

record tables =
  documents :: "document_row list"
  jobs :: "job_row list"
  job_chunks :: "chunk_row list"
  next_chunk_id :: int       \<comment> \<open>AUTOINCREMENT\<close>
  schema_objects :: "string list"   \<comment> \<open>tables and indexes created so far\<close>

definition no_tables :: tables where
  "no_tables = \<lparr>documents = [], jobs = [], job_chunks = [], next_chunk_id = 1, schema_objects = []\<rparr>"

subsection \<open>The schema\<close>

text \<open>\<^verbatim>\<open>migrations/001_init.sql\<close>, line by line.\<close>

definition unlines :: "string list \<Rightarrow> string" where
  "unlines ls = concat (map (\<lambda>l. l @ [CHR 0x0A]) ls)"

definition init_sql :: string where
  \<open>init_sql = unlines [
      ''-- Documents that have been fully converted, keyed by content hash + config'',
      ''-- fingerprint. A hit here means a re-submitted file needs no work at all.'',
      ''CREATE TABLE IF NOT EXISTS documents ('',
      ''  doc_key      TEXT PRIMARY KEY,'',
      ''  file_hash    TEXT NOT NULL,'',
      ''  config_fp    TEXT NOT NULL,'',
      ''  total_pages  INTEGER NOT NULL,'',
      ''  total_chunks INTEGER NOT NULL,'',
      ''  total_length INTEGER NOT NULL,'',
      ''  page_size    INTEGER NOT NULL,'',
      ''  created_at   INTEGER NOT NULL,'',
      ''  expires_at   INTEGER NOT NULL'',
      '');'',
      '''',
      ''CREATE INDEX IF NOT EXISTS idx_documents_expires ON documents(expires_at);'',
      '''',
      ''CREATE TABLE IF NOT EXISTS jobs ('',
      ''  job_id           TEXT PRIMARY KEY,'',
      ''  doc_key          TEXT NOT NULL,'',
      ''  file_hash        TEXT NOT NULL,'',
      ''  url              TEXT NOT NULL,'',
      ''  status           TEXT NOT NULL,   -- queued|running|assembling|done|failed'',
      ''  total_chunks     INTEGER NOT NULL,'',
      ''  remaining_chunks INTEGER NOT NULL,'',
      ''  use_llm          INTEGER NOT NULL,'',
      ''  error            TEXT,'',
      ''  error_chunk      INTEGER,'',
      ''  created_at       INTEGER NOT NULL,'',
      ''  updated_at       INTEGER NOT NULL'',
      '');'',
      '''',
      ''CREATE INDEX IF NOT EXISTS idx_jobs_doc_key ON jobs(doc_key);'',
      '''',
      ''-- This table is the work queue. Claiming is a single atomic UPDATE, and'',
      ''-- because SQLite serialises writers two workers can never claim the same row.'',
      ''--'',
      ''-- Retry, crash recovery, backoff and dead-lettering all fall out of three'',
      ''-- columns: attempts (incremented at claim time so an OOM-killed worker still'',
      ''-- burns an attempt), available_at (backoff gate) and lease_expires_at (a lease'',
      ''-- that stops being renewed is a worker that died).'',
      ''CREATE TABLE IF NOT EXISTS job_chunks ('',
      ''  id               INTEGER PRIMARY KEY AUTOINCREMENT,'',
      ''  job_id           TEXT NOT NULL,'',
      ''  chunk_index      INTEGER NOT NULL,'',
      ''  start_page       INTEGER NOT NULL,'',
      ''  end_page         INTEGER NOT NULL,  -- exclusive; -1 means "the whole file"'',
      ''  status           TEXT NOT NULL,     -- pending|running|done|failed'',
      ''  attempts         INTEGER NOT NULL DEFAULT 0,'',
      ''  available_at     INTEGER NOT NULL,'',
      ''  lease_owner      TEXT,'',
      ''  lease_expires_at INTEGER,'',
      ''  s3_key           TEXT,'',
      ''  last_error       TEXT,'',
      ''  updated_at       INTEGER NOT NULL,'',
      ''  UNIQUE (job_id, chunk_index)'',
      '');'',
      '''',
      ''CREATE INDEX IF NOT EXISTS idx_chunks_claim'',
      ''  ON job_chunks(status, available_at, lease_expires_at);'',
      '''',
      ''CREATE INDEX IF NOT EXISTS idx_chunks_job ON job_chunks(job_id, chunk_index);'']\<close>

definition MIGRATIONS :: "(string \<times> string) list" where
  "MIGRATIONS = [(''001_init.sql'', init_sql)]"

text \<open>
  \<^verbatim>\<open>CREATE TABLE IF NOT EXISTS name\<close> and \<^verbatim>\<open>CREATE INDEX IF NOT EXISTS name\<close>: the object is
  created unless it is there. Any other text is a syntax error.
\<close>

definition word_of :: "string \<Rightarrow> string" where
  "word_of s = takeWhile (\<lambda>ch. \<not> is_space (of_char ch) \<and> ch \<noteq> CHR ''('') s"

definition created_object :: "string \<Rightarrow> string option" where
  "created_object sql =
     (let table = ''CREATE TABLE IF NOT EXISTS ''; index = ''CREATE INDEX IF NOT EXISTS ''
      in if starts_with table sql then Some (word_of (drop (length table) sql))
         else if starts_with index sql then Some (word_of (drop (length index) sql))
         else None)"

definition ddl :: "string \<Rightarrow> (tables, unit) stmt" where
  "ddl sql t =
     (case created_object sql of
        None \<Rightarrow> Inl (DbError ''OperationalError'' ''syntax error'')
      | Some name \<Rightarrow>
          Inr (no_rows, Schema,
            if name \<in> set (schema_objects t) then t
            else t\<lparr>schema_objects := schema_objects t @ [name]\<rparr>))"

abbreviation job_env :: "settings \<Rightarrow> tables db_env" where
  "job_env cfg \<equiv> \<lparr>db_config = cfg, db_ddl = ddl, db_dir = MIGRATIONS\<rparr>"

subsection \<open>Statements\<close>

definition update_where :: "('r \<Rightarrow> bool) \<Rightarrow> ('r \<Rightarrow> 'r) \<Rightarrow> 'r list \<Rightarrow> 'r list" where
  "update_where p f rows = map (\<lambda>r. if p r then f r else r) rows"

definition update_jobs :: "(job_row \<Rightarrow> bool) \<Rightarrow> (job_row \<Rightarrow> job_row) \<Rightarrow> (tables, 'r) stmt" where
  "update_jobs p f t =
     Inr (no_rows, Wrote (length (filter p (jobs t))), t\<lparr>jobs := update_where p f (jobs t)\<rparr>)"

definition update_chunks :: "(chunk_row \<Rightarrow> bool) \<Rightarrow> (chunk_row \<Rightarrow> chunk_row) \<Rightarrow> (tables, 'r) stmt" where
  "update_chunks p f t =
     Inr (no_rows, Wrote (length (filter p (job_chunks t))),
          t\<lparr>job_chunks := update_where p f (job_chunks t)\<rparr>)"

text \<open>\<^verbatim>\<open>UPDATE ... RETURNING column\<close>: the new values of the rows that matched.\<close>

definition update_jobs_returning ::
  "string \<Rightarrow> (job_row \<Rightarrow> 'r) \<Rightarrow> (job_row \<Rightarrow> bool) \<Rightarrow> (job_row \<Rightarrow> job_row) \<Rightarrow> (tables, 'r) stmt" where
  "update_jobs_returning col g p f t =
     Inr (\<lparr>description = Some [col], fetched = Some (map (g \<circ> f) (filter p (jobs t)))\<rparr>,
          Wrote (length (filter p (jobs t))), t\<lparr>jobs := update_where p f (jobs t)\<rparr>)"

definition insert_job :: "job_row \<Rightarrow> (tables, 'r) stmt" where
  "insert_job j t =
     (if list_ex (\<lambda>r. j_job_id r = j_job_id j) (jobs t)
      then Inl (DbError ''IntegrityError'' ''UNIQUE constraint failed: jobs.job_id'')
      else Inr (no_rows, Wrote 1, t\<lparr>jobs := jobs t @ [j]\<rparr>))"

definition insert_chunk :: "(int \<Rightarrow> chunk_row) \<Rightarrow> (tables, 'r) stmt" where
  "insert_chunk mk t =
     (let ck = mk (next_chunk_id t) in
      if list_ex (\<lambda>r. c_job_id r = c_job_id ck \<and> c_chunk_index r = c_chunk_index ck) (job_chunks t)
      then Inl (DbError ''IntegrityError''
                  ''UNIQUE constraint failed: job_chunks.job_id, job_chunks.chunk_index'')
      else Inr (no_rows, Wrote 1,
                t\<lparr>job_chunks := job_chunks t @ [ck], next_chunk_id := next_chunk_id t + 1\<rparr>))"

definition replace_document :: "document_row \<Rightarrow> (tables, 'r) stmt" where
  "replace_document r t =
     Inr (no_rows, Wrote 1,
          t\<lparr>documents := filter (\<lambda>x. d_doc_key x \<noteq> d_doc_key r) (documents t) @ [r]\<rparr>)"

subsection \<open>Document cache\<close>

abbreviation star :: "string list" where
  "star \<equiv> [''*'']"

definition find_cached_document :: "settings \<Rightarrow> string \<Rightarrow> (tables client, document_row option) io" where
  "find_cached_document cfg doc_key =
     query_one (job_env cfg) (select star (\<lambda>t. filter (\<lambda>r. d_doc_key r = doc_key) (documents t)))"

definition document_of ::
  "settings \<Rightarrow> int \<Rightarrow> string \<Rightarrow> string \<Rightarrow> int \<Rightarrow> int \<Rightarrow> int \<Rightarrow> int \<Rightarrow> document_row" where
  "document_of cfg ts doc_key file_hash total_pages total_chunks total_length page_size =
     \<lparr>d_doc_key = doc_key, d_file_hash = file_hash, d_config_fp = last (py_split '':'' doc_key),
      d_total_pages = total_pages, d_total_chunks = total_chunks, d_total_length = total_length,
      d_page_size = page_size, d_created_at = ts, d_expires_at = ts + DOC_TTL_DAYS cfg * 86400\<rparr>"

definition record_document ::
  "settings \<Rightarrow> int \<Rightarrow> string \<Rightarrow> string \<Rightarrow> int \<Rightarrow> int \<Rightarrow> int \<Rightarrow> int \<Rightarrow> (tables client, unit) io" where
  "record_document cfg ts doc_key file_hash total_pages total_chunks total_length page_size =
     thenE (execute (job_env cfg) (replace_document
             (document_of cfg ts doc_key file_hash total_pages total_chunks total_length page_size)
             :: (tables, unit) stmt))
       (ret ())"

subsection \<open>Job lifecycle\<close>

definition new_job_row :: "int \<Rightarrow> string \<Rightarrow> string \<Rightarrow> string \<Rightarrow> string \<Rightarrow> int \<Rightarrow> bool \<Rightarrow> job_row" where
  "new_job_row ts job_id doc_key file_hash url n use_llm =
     \<lparr>j_job_id = job_id, j_doc_key = doc_key, j_file_hash = file_hash, j_url = url, j_status = Queued,
      j_total_chunks = n, j_remaining_chunks = n, j_use_llm = (if use_llm then 1 else 0),
      j_error = None, j_error_chunk = None, j_created_at = ts, j_updated_at = ts\<rparr>"

definition new_chunk_row :: "int \<Rightarrow> string \<Rightarrow> int \<times> int \<times> int \<Rightarrow> int \<Rightarrow> chunk_row" where
  "new_chunk_row ts job_id = (\<lambda>(index, start, end_page) rowid.
     \<lparr>c_id = rowid, c_job_id = job_id, c_chunk_index = index, c_start_page = start,
      c_end_page = end_page, c_status = ChunkPending, c_attempts = 0, c_available_at = ts,
      c_lease_owner = None, c_lease_expires_at = None, c_s3_key = None, c_last_error = None,
      c_updated_at = ts\<rparr>)"

definition create_job ::
  "settings \<Rightarrow> int \<Rightarrow> string \<Rightarrow> string \<Rightarrow> string \<Rightarrow> string \<Rightarrow> (int \<times> int) list \<Rightarrow> bool
   \<Rightarrow> (tables client, unit) io" where
  "create_job cfg ts job_id doc_key file_hash url ranges use_llm =
     transaction (job_env cfg)
       (thenE (conn_execute (insert_job
                 (new_job_row ts job_id doc_key file_hash url (int (length ranges)) use_llm)
                 :: (tables, unit) stmt))
         (foreachE (py_enumerate 0 ranges) (\<lambda>chunk.
            thenE (conn_execute (insert_chunk (new_chunk_row ts job_id chunk) :: (tables, unit) stmt))
              (ret ()))))"

definition get_job :: "settings \<Rightarrow> string \<Rightarrow> (tables client, job_row option) io" where
  "get_job cfg job_id =
     query_one (job_env cfg) (select star (\<lambda>t. filter (\<lambda>j. j_job_id j = job_id) (jobs t)))"

record progress =
  p_completed :: int
  p_total :: int
  p_percent :: int

text \<open>
  \<^verbatim>\<open>round(100 * completed / total)\<close>: to the nearest integer, ties to even. Double precision
  tells every ratio from a tie for chunk counts below $2^{45}$.
\<close>

definition round_ratio :: "int \<Rightarrow> int \<Rightarrow> int" where
  "round_ratio a b =
     (let q = a div b; r2 = 2 * (a mod b)
      in if r2 < b then q else if b < r2 then q + 1 else if even q then q else q + 1)"

definition progress_of :: "job_row option \<Rightarrow> progress" where
  "progress_of job =
     (case job of
        None \<Rightarrow> \<lparr>p_completed = 0, p_total = 0, p_percent = 0\<rparr>
      | Some j \<Rightarrow>
          (let total = j_total_chunks j; completed = total - j_remaining_chunks j
           in \<lparr>p_completed = completed, p_total = total,
               p_percent = (if total \<noteq> 0 then round_ratio (100 * completed) total else 0)\<rparr>))"

definition job_progress :: "settings \<Rightarrow> string \<Rightarrow> (tables client, progress) io" where
  "job_progress cfg job_id = bindE (get_job cfg job_id) (\<lambda>job. ret (progress_of job))"

abbreviation terminal :: "job_status \<Rightarrow> bool" where
  "terminal st \<equiv> st = Done \<or> st = Failed"

definition finish_job_stmt :: "int \<Rightarrow> string \<Rightarrow> (tables, unit) stmt" where
  "finish_job_stmt ts job_id =
     update_jobs (\<lambda>j. j_job_id j = job_id) (\<lambda>j. j\<lparr>j_status := Done, j_updated_at := ts\<rparr>)"

definition finish_job :: "settings \<Rightarrow> int \<Rightarrow> string \<Rightarrow> (tables client, unit) io" where
  "finish_job cfg ts job_id = thenE (execute (job_env cfg) (finish_job_stmt ts job_id)) (ret ())"

definition fail_job_stmt :: "int \<Rightarrow> string \<Rightarrow> string \<Rightarrow> int option \<Rightarrow> (tables, unit) stmt" where
  "fail_job_stmt ts job_id error chunk_index =
     update_jobs (\<lambda>j. j_job_id j = job_id \<and> \<not> terminal (j_status j))
       (\<lambda>j. j\<lparr>j_status := Failed, j_error := Some (take 2000 error), j_error_chunk := chunk_index,
              j_updated_at := ts\<rparr>)"

definition fail_job :: "settings \<Rightarrow> int \<Rightarrow> string \<Rightarrow> string \<Rightarrow> int option \<Rightarrow> (tables client, unit) io" where
  "fail_job cfg ts job_id error chunk_index =
     thenE (execute (job_env cfg) (fail_job_stmt ts job_id error chunk_index)) (ret ())"

subsection \<open>Chunk state\<close>

abbreviation is_chunk :: "string \<Rightarrow> int \<Rightarrow> chunk_row \<Rightarrow> bool" where
  "is_chunk job_id index ck \<equiv> c_job_id ck = job_id \<and> c_chunk_index ck = index"

definition start_chunk_stmt :: "int \<Rightarrow> string \<Rightarrow> int \<Rightarrow> string \<Rightarrow> int \<Rightarrow> (tables, unit) stmt" where
  "start_chunk_stmt ts job_id index owner attempt =
     update_chunks (\<lambda>ck. is_chunk job_id index ck \<and> c_status ck \<noteq> ChunkDone)
       (\<lambda>ck. ck\<lparr>c_status := ChunkRunning, c_lease_owner := Some owner, c_attempts := attempt,
                c_updated_at := ts\<rparr>)"

definition start_job_stmt :: "int \<Rightarrow> string \<Rightarrow> (tables, unit) stmt" where
  "start_job_stmt ts job_id =
     update_jobs (\<lambda>j. j_job_id j = job_id \<and> j_status j = Queued)
       (\<lambda>j. j\<lparr>j_status := Running, j_updated_at := ts\<rparr>)"

definition start_chunk :: "settings \<Rightarrow> int \<Rightarrow> string \<Rightarrow> int \<Rightarrow> string \<Rightarrow> int \<Rightarrow> (tables client, unit) io" where
  "start_chunk cfg ts job_id index owner attempt =
     thenE (execute (job_env cfg) (start_chunk_stmt ts job_id index owner attempt))
       (thenE (execute (job_env cfg) (start_job_stmt ts job_id)) (ret ()))"

definition fail_chunk_stmt :: "int \<Rightarrow> string \<Rightarrow> int \<Rightarrow> string \<Rightarrow> (tables, unit) stmt" where
  "fail_chunk_stmt ts job_id index error =
     update_chunks (\<lambda>ck. is_chunk job_id index ck)
       (\<lambda>ck. ck\<lparr>c_status := ChunkFailed, c_lease_owner := None,
                c_last_error := Some (take 2000 error), c_updated_at := ts\<rparr>)"

definition fail_chunk :: "settings \<Rightarrow> int \<Rightarrow> string \<Rightarrow> int \<Rightarrow> string \<Rightarrow> (tables client, unit) io" where
  "fail_chunk cfg ts job_id index error =
     thenE (execute (job_env cfg) (fail_chunk_stmt ts job_id index error)) (ret ())"

definition reschedule_chunk_stmt :: "int \<Rightarrow> string \<Rightarrow> int \<Rightarrow> string \<Rightarrow> (tables, unit) stmt" where
  "reschedule_chunk_stmt ts job_id index error =
     update_chunks (\<lambda>ck. is_chunk job_id index ck \<and> c_status ck \<noteq> ChunkDone)
       (\<lambda>ck. ck\<lparr>c_status := ChunkPending, c_lease_owner := None,
                c_last_error := Some (take 2000 error), c_updated_at := ts\<rparr>)"

definition reschedule_chunk :: "settings \<Rightarrow> int \<Rightarrow> string \<Rightarrow> int \<Rightarrow> string \<Rightarrow> (tables client, unit) io" where
  "reschedule_chunk cfg ts job_id index error =
     thenE (execute (job_env cfg) (reschedule_chunk_stmt ts job_id index error)) (ret ())"

definition JOB_ALREADY_TERMINAL :: int where
  "JOB_ALREADY_TERMINAL = -1"

definition CHUNK_ALREADY_DONE :: int where
  "CHUNK_ALREADY_DONE = -2"

definition complete_chunk_stmt :: "int \<Rightarrow> string \<Rightarrow> int \<Rightarrow> string \<Rightarrow> (tables, unit) stmt" where
  "complete_chunk_stmt ts job_id index s3_key =
     update_chunks (\<lambda>ck. is_chunk job_id index ck \<and> c_status ck \<noteq> ChunkDone)
       (\<lambda>ck. ck\<lparr>c_status := ChunkDone, c_s3_key := Some s3_key, c_lease_owner := None,
                c_last_error := None, c_updated_at := ts\<rparr>)"

definition decrement_stmt :: "int \<Rightarrow> string \<Rightarrow> (tables, int) stmt" where
  "decrement_stmt ts job_id =
     update_jobs_returning ''remaining_chunks'' j_remaining_chunks
       (\<lambda>j. j_job_id j = job_id \<and> \<not> terminal (j_status j))
       (\<lambda>j. j\<lparr>j_remaining_chunks := j_remaining_chunks j - 1, j_status := Running, j_updated_at := ts\<rparr>)"

text \<open>The value after the second update: what \<^verbatim>\<open>RETURNING\<close> gave, or the sentinel when no row matched.\<close>

definition returned_count :: "int cursor \<Rightarrow> int" where
  "returned_count cur = (case fetched cur of Some (row # _) \<Rightarrow> row | _ \<Rightarrow> JOB_ALREADY_TERMINAL)"

definition complete_block :: "int \<Rightarrow> string \<Rightarrow> int \<Rightarrow> string \<Rightarrow> (tables client, int) io" where
  "complete_block ts job_id index s3_key =
     thenE (conn_execute (complete_chunk_stmt ts job_id index s3_key))
       (bindE changes (\<lambda>n.
          if n = 0 then ret CHUNK_ALREADY_DONE
          else bindE (conn_execute (decrement_stmt ts job_id)) (\<lambda>cur. ret (returned_count cur))))"

definition complete_chunk :: "settings \<Rightarrow> int \<Rightarrow> string \<Rightarrow> int \<Rightarrow> string \<Rightarrow> (tables client, int) io" where
  "complete_chunk cfg ts job_id index s3_key =
     transaction (job_env cfg) (complete_block ts job_id index s3_key)"

definition chunk_indices :: "settings \<Rightarrow> string \<Rightarrow> (tables client, int list) io" where
  "chunk_indices cfg job_id =
     query (job_env cfg) (select [''chunk_index'']
       (\<lambda>t. sort (map c_chunk_index (filter (\<lambda>ck. c_job_id ck = job_id) (job_chunks t)))))"

subsection \<open>Statements: keys, writes, repetition\<close>

lemmas job_stmts = finish_job_stmt_def fail_job_stmt_def start_job_stmt_def
lemmas chunk_stmts = start_chunk_stmt_def fail_chunk_stmt_def reschedule_chunk_stmt_def complete_chunk_stmt_def

lemma map_update_where: "(\<And>r. g (f r) = g r) \<Longrightarrow> map g (update_where p f rows) = map g rows"
  by (simp add: update_where_def)

lemma update_where_idem:
  "(\<And>r. f (f r) = f r) \<Longrightarrow> update_where p f (update_where p f rows) = update_where p f rows"
  by (simp add: update_where_def)

lemma filter_update_where_other:
  "(\<And>r. q r \<Longrightarrow> \<not> p r) \<Longrightarrow> (\<And>r. q (f r) = q r) \<Longrightarrow> filter q (update_where p f rows) = filter q rows"
  unfolding update_where_def by (induction rows) auto

lemma set_update_where: "set (update_where p f rows) = (\<lambda>r. if p r then f r else r) ` set rows"
  by (simp add: update_where_def)

lemma is_write_stmts [simp]:
  "is_write (update_jobs p f)" "is_write (update_chunks q g)"
  "is_write (update_jobs_returning col h p f)"
  "is_write (insert_job j)" "is_write (insert_chunk mk)" "is_write (replace_document r)"
  by (simp_all add: is_write_def update_jobs_def update_chunks_def update_jobs_returning_def
      insert_job_def insert_chunk_def replace_document_def Let_def)

lemma is_write_ops [simp]:
  "is_write (finish_job_stmt ts jid)" "is_write (fail_job_stmt ts jid err ci)"
  "is_write (start_job_stmt ts jid)" "is_write (start_chunk_stmt ts jid i owner att)"
  "is_write (fail_chunk_stmt ts jid i err)" "is_write (reschedule_chunk_stmt ts jid i err)"
  "is_write (complete_chunk_stmt ts jid i key)" "is_write (decrement_stmt ts jid)"
  by (simp_all add: job_stmts chunk_stmts decrement_stmt_def)

text \<open>
  Every statement the source sends outside a transaction gives the same data when it is sent
  twice, so the retry on a stale connection is harmless even when the first run took effect.
\<close>

lemma idempotent_update_jobs:
  "(\<And>j. f (f j) = f j) \<Longrightarrow> idempotent (update_jobs p f)"
  by (simp add: idempotent_def after_def update_jobs_def update_where_idem)

lemma idempotent_update_chunks:
  "(\<And>j. f (f j) = f j) \<Longrightarrow> idempotent (update_chunks p f)"
  by (simp add: idempotent_def after_def update_chunks_def update_where_idem)

lemma idempotent_ops [simp]:
  "idempotent (finish_job_stmt ts jid)" "idempotent (fail_job_stmt ts jid err ci)"
  "idempotent (start_job_stmt ts jid)" "idempotent (start_chunk_stmt ts jid i owner att)"
  "idempotent (fail_chunk_stmt ts jid i err)" "idempotent (reschedule_chunk_stmt ts jid i err)"
  "idempotent (replace_document r)"
  by (auto simp: job_stmts chunk_stmts intro!: idempotent_update_jobs idempotent_update_chunks)
    (simp add: idempotent_def after_def replace_document_def)

subsection \<open>Calls in any order, with any failures\<close>

text \<open>A call of the module with its arguments, and the value it returns where it has one.\<close>

datatype job_call =
    CreateJob int string string string string "(int \<times> int) list" bool
  | StartChunk int string int string int
  | CompleteChunk int (complete_job: string) int string
  | RescheduleChunk int string int string
  | FailChunk int string int string
  | FailJob int string string "int option"
  | FinishJob int string
  | RecordDocument int string string int int int int
  | FindCachedDocument string
  | GetJob string
  | ChunkIndices string

fun run_call :: "settings \<Rightarrow> job_call \<Rightarrow> (tables client, int option) io" where
  "run_call cfg (CreateJob ts jid dk fh url ranges llm) =
     thenE (create_job cfg ts jid dk fh url ranges llm) (ret None)"
| "run_call cfg (StartChunk ts jid i owner att) = thenE (start_chunk cfg ts jid i owner att) (ret None)"
| "run_call cfg (CompleteChunk ts jid i key) = bindE (complete_chunk cfg ts jid i key) (\<lambda>n. ret (Some n))"
| "run_call cfg (RescheduleChunk ts jid i err) = thenE (reschedule_chunk cfg ts jid i err) (ret None)"
| "run_call cfg (FailChunk ts jid i err) = thenE (fail_chunk cfg ts jid i err) (ret None)"
| "run_call cfg (FailJob ts jid err ci) = thenE (fail_job cfg ts jid err ci) (ret None)"
| "run_call cfg (FinishJob ts jid) = thenE (finish_job cfg ts jid) (ret None)"
| "run_call cfg (RecordDocument ts dk fh tp tc len psz) =
     thenE (record_document cfg ts dk fh tp tc len psz) (ret None)"
| "run_call cfg (FindCachedDocument dk) = thenE (find_cached_document cfg dk) (ret None)"
| "run_call cfg (GetJob jid) = thenE (get_job cfg jid) (ret None)"
| "run_call cfg (ChunkIndices jid) = thenE (chunk_indices cfg jid) (ret None)"

fun run_calls :: "settings \<Rightarrow> job_call list \<Rightarrow> tables client \<Rightarrow> (exn + int option) list \<times> tables client" where
  "run_calls cfg [] c = ([], c)"
| "run_calls cfg (op # ops) c =
     (let (r, c1) = run_call cfg op c; (rs, c2) = run_calls cfg ops c1 in (r # rs, c2))"

text \<open>The calls that were told to assemble job \<open>jid\<close>.\<close>

definition told_to_assemble :: "string \<Rightarrow> job_call \<times> (exn + int option) \<Rightarrow> bool" where
  "told_to_assemble jid = (\<lambda>(op, r). case op of
       CompleteChunk ts j i key \<Rightarrow> j = jid \<and> r = Inr (Some 0)
     | _ \<Rightarrow> False)"

text \<open>The keys of both tables are unique, and every statement keeps them so.\<close>

definition chunk_key :: "chunk_row \<Rightarrow> string \<times> int" where
  "chunk_key ck = (c_job_id ck, c_chunk_index ck)"

definition tables_wf :: "tables \<Rightarrow> bool" where
  "tables_wf t \<longleftrightarrow> distinct (map j_job_id (jobs t)) \<and> distinct (map chunk_key (job_chunks t))"

text \<open>The job exists and its counter is at most \<open>k\<close>.\<close>

definition counted :: "string \<Rightarrow> int \<Rightarrow> tables \<Rightarrow> bool" where
  "counted jid k t \<longleftrightarrow> tables_wf t \<and> (\<exists>j \<in> set (jobs t). j_job_id j = jid) \<and>
     (\<forall>j \<in> set (jobs t). j_job_id j = jid \<longrightarrow> j_remaining_chunks j \<le> k)"

definition keeps_keys :: "tables \<Rightarrow> tables \<Rightarrow> bool" where
  "keeps_keys t t' \<longleftrightarrow> map chunk_key (job_chunks t') = map chunk_key (job_chunks t) \<and>
     map j_job_id (jobs t') = map j_job_id (jobs t)"

lemma wf_update_jobs: "(\<And>j. j_job_id (f j) = j_job_id j) \<Longrightarrow> stmt_keeps tables_wf (update_jobs p f)"
  by (simp add: stmt_keeps_def tables_wf_def update_jobs_def map_update_where)

lemma wf_update_chunks: "(\<And>j. chunk_key (f j) = chunk_key j) \<Longrightarrow> stmt_keeps tables_wf (update_chunks p f)"
  by (simp add: stmt_keeps_def tables_wf_def update_chunks_def map_update_where)

lemma wf_insert_job: "stmt_keeps tables_wf (insert_job j)"
  by (auto simp: stmt_keeps_def tables_wf_def insert_job_def list_ex_iff split: if_splits)

lemma wf_insert_chunk: "stmt_keeps tables_wf (insert_chunk mk)"
  by (auto simp: stmt_keeps_def tables_wf_def insert_chunk_def list_ex_iff chunk_key_def Let_def
      split: if_splits)

lemma counted_update_jobs:
  assumes "\<And>j. j_job_id (f j) = j_job_id j" "\<And>j. j_remaining_chunks (f j) \<le> j_remaining_chunks j"
  shows "stmt_keeps (counted jid k) (update_jobs p f)"
  unfolding stmt_keeps_def
proof (intro allI impI)
  fix t t' :: tables and cur :: "'r cursor" and eff
  assume c: "counted jid k t" and u: "update_jobs p f t = Inr (cur, eff, t')"
  let ?g = "\<lambda>j. if p j then f j else j"
  have g: "j_job_id (?g j) = j_job_id j" "j_remaining_chunks (?g j) \<le> j_remaining_chunks j" for j
    using assms by simp_all
  have js: "set (jobs t') = ?g ` set (jobs t)"
    using u by (auto simp: update_jobs_def set_update_where)
  have "tables_wf t'" using stmt_keepsD [OF wf_update_jobs [OF assms(1)] _ u] c by (simp add: counted_def)
  moreover have "\<exists>j \<in> set (jobs t'). j_job_id j = jid"
    using c g(1) unfolding js counted_def by blast
  moreover have "\<forall>j \<in> set (jobs t'). j_job_id j = jid \<longrightarrow> j_remaining_chunks j \<le> k"
    using c g order_trans [OF g(2)] unfolding js counted_def ball_simps by metis
  ultimately show "counted jid k t'" by (simp add: counted_def)
qed

lemma counted_chunks:
  "stmt_keeps tables_wf st \<Longrightarrow> (\<And>t cur eff t'. st t = Inr (cur, eff, t') \<Longrightarrow> jobs t' = jobs t)
   \<Longrightarrow> stmt_keeps (counted jid k) st"
  by (fastforce simp: stmt_keeps_def counted_def)

lemma counted_insert_job: "stmt_keeps (counted jid k) (insert_job j)"
  using wf_insert_job [of j]
  by (auto simp: stmt_keeps_def counted_def insert_job_def list_ex_iff split: if_splits)

lemma stmt_keeps_returning:
  fixes P :: "tables \<Rightarrow> bool"
  assumes "stmt_keeps P (update_jobs p f :: (tables, unit) stmt)"
  shows "stmt_keeps P (update_jobs_returning col g p f)"
  unfolding stmt_keeps_def
proof (intro allI impI)
  fix t cur eff t' assume "P t" "update_jobs_returning col g p f t = Inr (cur, eff, t')"
  then show "P t'"
    using stmt_keepsD [OF assms, of t no_rows "Wrote (length (filter p (jobs t)))" t']
    by (simp add: update_jobs_returning_def update_jobs_def)
qed

text \<open>The properties that every statement of the module keeps, so that every call does.\<close>

definition module_keeps :: "(tables \<Rightarrow> bool) \<Rightarrow> bool" where
  "module_keeps P \<longleftrightarrow>
     (\<forall>sql. stmt_keeps P (ddl sql)) \<and>
     (\<forall>j. stmt_keeps P (insert_job j :: (tables, unit) stmt)) \<and>
     (\<forall>mk. stmt_keeps P (insert_chunk mk :: (tables, unit) stmt)) \<and>
     (\<forall>r. stmt_keeps P (replace_document r :: (tables, unit) stmt)) \<and>
     (\<forall>ts jid. stmt_keeps P (finish_job_stmt ts jid)) \<and>
     (\<forall>ts jid err ci. stmt_keeps P (fail_job_stmt ts jid err ci)) \<and>
     (\<forall>ts jid. stmt_keeps P (start_job_stmt ts jid)) \<and>
     (\<forall>ts jid i owner att. stmt_keeps P (start_chunk_stmt ts jid i owner att)) \<and>
     (\<forall>ts jid i err. stmt_keeps P (fail_chunk_stmt ts jid i err)) \<and>
     (\<forall>ts jid i err. stmt_keeps P (reschedule_chunk_stmt ts jid i err)) \<and>
     (\<forall>ts jid i key. stmt_keeps P (complete_chunk_stmt ts jid i key)) \<and>
     (\<forall>ts jid. stmt_keeps P (decrement_stmt ts jid))"

lemma module_env_keeps: "module_keeps P \<Longrightarrow> env_keeps P (job_env cfg)"
  by (simp add: module_keeps_def env_keeps_def)

lemma keeps_complete_block:
  "module_keeps P \<Longrightarrow> keeps (all_data P) (complete_block ts jid i key)"
  unfolding complete_block_def by (intro keeps_intros) (simp_all add: module_keeps_def)

lemma keeps_run_call:
  assumes "module_keeps P"
  shows "keeps (all_data P) (run_call cfg op)"
proof -
  note env = module_env_keeps [OF assms, of cfg]
  show ?thesis
  proof (cases op)
    case (CompleteChunk ts jid i key)
    show ?thesis
      unfolding CompleteChunk run_call.simps complete_chunk_def
      by (intro keeps_bindE keeps_transaction env keeps_complete_block assms keeps_ret)
  qed (use assms env in \<open>auto simp: module_keeps_def create_job_def start_chunk_def reschedule_chunk_def
      fail_chunk_def fail_job_def finish_job_def record_document_def find_cached_document_def
      get_job_def chunk_indices_def intro!: keeps_intros\<close>)
qed

lemma module_keeps_wf: "module_keeps tables_wf"
proof -
  have "stmt_keeps tables_wf (ddl sql)" for sql
    by (auto simp: stmt_keeps_def ddl_def tables_wf_def split: option.splits if_splits)
  moreover have "stmt_keeps tables_wf (replace_document r :: (tables, unit) stmt)" for r
    by (simp add: stmt_keeps_def replace_document_def tables_wf_def)
  ultimately show ?thesis
    unfolding module_keeps_def job_stmts chunk_stmts decrement_stmt_def
    by (auto simp: chunk_key_def intro!: wf_update_jobs wf_update_chunks wf_insert_job wf_insert_chunk
        stmt_keeps_returning)
qed

lemma module_keeps_counted: "module_keeps (counted jid k)"
proof -
  have chunks: "stmt_keeps (counted jid k) (update_chunks p f :: (tables, 'r) stmt)"
    if "\<And>ck. chunk_key (f ck) = chunk_key ck" for p f
    using wf_update_chunks [OF that] by (rule counted_chunks) (auto simp: update_chunks_def)
  have "stmt_keeps (counted jid k) (ddl sql)" for sql
    by (auto simp: stmt_keeps_def ddl_def counted_def tables_wf_def split: option.splits if_splits)
  moreover have "stmt_keeps (counted jid k) (replace_document r :: (tables, unit) stmt)" for r
    by (auto simp: stmt_keeps_def replace_document_def counted_def tables_wf_def)
  moreover have "stmt_keeps (counted jid k) (insert_chunk mk :: (tables, unit) stmt)" for mk
    by (rule counted_chunks [OF wf_insert_chunk]) (auto simp: insert_chunk_def Let_def split: if_splits)
  ultimately show ?thesis
    unfolding module_keeps_def job_stmts chunk_stmts decrement_stmt_def
    by (auto simp: chunk_key_def intro!: chunks counted_update_jobs counted_insert_job stmt_keeps_returning)
qed

lemma counted_after_decrement:
  assumes wf: "tables_wf t" and st: "decrement_stmt ts jid t = Inr (cur, eff, t')"
    and row: "fetched cur = Some (n # ns)"
  shows "counted jid n t'" "counted jid k t \<Longrightarrow> n + 1 \<le> k" "\<exists>m. eff = Wrote m"
proof -
  let ?p = "\<lambda>j. j_job_id j = jid \<and> \<not> terminal (j_status j)"
  let ?f = "\<lambda>j. j\<lparr>j_remaining_chunks := j_remaining_chunks j - 1, j_status := Running, j_updated_at := ts\<rparr>"
  have t': "jobs t' = update_where ?p ?f (jobs t)" "eff = Wrote (length (filter ?p (jobs t)))"
    and rows: "map (j_remaining_chunks \<circ> ?f) (filter ?p (jobs t)) = n # ns"
    using st row by (auto simp: decrement_stmt_def update_jobs_returning_def)
  have "n \<in> set (map (j_remaining_chunks \<circ> ?f) (filter ?p (jobs t)))" by (simp only: rows list.set insertI1)
  then obtain j where j: "j \<in> set (jobs t)" "?p j" "n = j_remaining_chunks j - 1" by auto
  have uniq: "j' = j" if "j' \<in> set (jobs t)" "j_job_id j' = jid" for j'
    using wf j that by (auto simp: tables_wf_def distinct_map inj_on_def)
  have "stmt_keeps tables_wf (decrement_stmt ts jid)" using module_keeps_wf by (simp add: module_keeps_def)
  then have "tables_wf t'" using wf st by (rule stmt_keepsD)
  moreover have "?f j \<in> set (jobs t')"
    unfolding t' set_update_where using j(2) by (intro image_eqI [OF _ j(1)]) simp
  moreover have "j_remaining_chunks j' \<le> n" if j': "j' \<in> set (jobs t')" "j_job_id j' = jid" for j'
  proof -
    obtain j0 where j0: "j0 \<in> set (jobs t)" "j' = (if ?p j0 then ?f j0 else j0)"
      using j'(1) unfolding t'(1) set_update_where by blast
    then have "j_job_id j0 = jid" using j'(2) by (simp split: if_splits)
    with j0(1) have "j0 = j" by (rule uniq)
    with j0(2) j show ?thesis by simp
  qed
  moreover have "j_job_id (?f j) = jid" using j(2) by simp
  ultimately show "counted jid n t'" unfolding counted_def by blast
  show "counted jid k t \<Longrightarrow> n + 1 \<le> k" using j by (auto simp: counted_def)
  show "\<exists>m. eff = Wrote m" using t'(2) by blast
qed

lemma complete_chunk_zero:
  assumes wf: "all_data tables_wf c" and run: "complete_chunk cfg ts jid i key c = (Inr 0, c')"
  shows "all_data (counted jid 0) c'" "\<not> all_data (counted jid 0) c"
proof -
  from transaction_ok [OF run [unfolded complete_chunk_def]] obtain c1 c2 where
    pre: "\<And>P. env_keeps P (job_env cfg) \<Longrightarrow> all_data P c \<Longrightarrow> all_data P c1"
    and body: "complete_block ts jid i key c1 = (Inr 0, c2)"
    and fin: "db_data c' = db_visible c2" "pending (r_state (server c')) = None"
    by auto
  from body obtain cur0 c3 n c4 cur where c3: "conn_execute (complete_chunk_stmt ts jid i key) c1 = (Inr cur0, c3)"
    and c4: "changes c3 = (Inr n, c4)" and dec: "conn_execute (decrement_stmt ts jid) c4 = (Inr cur, c2)"
    and zero: "returned_count cur = 0"
    by (auto simp: complete_block_def io_ok CHUNK_ALREADY_DONE_def split: if_splits)
  have keep: "P (db_visible c4)" if "module_keeps P" "all_data P c" for P
  proof -
    have "all_data P c1" using pre [OF module_env_keeps [OF that(1)] that(2)] .
    then have "all_data P c3"
      using keepsD [OF keeps_conn_execute, of P "complete_chunk_stmt ts jid i key" c1] that(1) c3
      by (simp add: module_keeps_def)
    then have "all_data P c4" using keepsD [OF keeps_changes, of P c3] c4 by simp
    then show ?thesis by (simp add: all_data_def Let_def)
  qed
  from zero obtain ns where ns: "fetched cur = Some (0 # ns)"
    by (auto simp: returned_count_def JOB_ALREADY_TERMINAL_def split: option.splits list.splits)
  from conn_execute_ok [OF dec] obtain eff t' where st: "decrement_stmt ts jid (db_visible c4) = Inr (cur, eff, t')"
    and w: "\<And>m. eff = Wrote m \<Longrightarrow> r_state (server c2) = (r_state (server c4))\<lparr>pending := Some t', last_changes := m\<rparr>"
    by metis
  note count = counted_after_decrement [OF keep [OF module_keeps_wf wf] st ns]
  have "db_visible c2 = t'" using count(3) w by (auto simp: visible_def)
  then show "all_data (counted jid 0) c'" using count(1) fin by (simp add: all_data_committed)
  show "\<not> all_data (counted jid 0) c"
    using keep [OF module_keeps_counted [of jid 0]] count(2) [of 0] by force
qed

lemma run_call_assemble:
  assumes "all_data tables_wf c" "run_call cfg op c = (r, c')" "told_to_assemble jid (op, r)"
  shows "all_data (counted jid 0) c'" "\<not> all_data (counted jid 0) c"
  using assms complete_chunk_zero [OF assms(1)]
  by (auto simp: told_to_assemble_def io_ok split: job_call.splits)

lemma never_again:
  "all_data (counted jid 0) c \<Longrightarrow> filter (told_to_assemble jid) (zip ops (fst (run_calls cfg ops c))) = []"
proof (induction ops arbitrary: c)
  case (Cons op ops)
  obtain r c1 where op: "run_call cfg op c = (r, c1)" by fastforce
  have "all_data (counted jid 0) c1"
    using keepsD [OF keeps_run_call [OF module_keeps_counted] Cons.prems, of cfg op] op by simp
  moreover have "\<not> told_to_assemble jid (op, r)"
    using run_call_assemble(2) [OF _ op] Cons.prems by (auto simp: all_data_def counted_def Let_def)
  ultimately show ?case using Cons.IH [of c1] op by (simp add: case_prod_beta Let_def)
qed simp

text \<open>
  C4. Whatever calls the fleet makes on the job store, in whatever order, and whatever the
  database refuses or loses, at most one call per job is told to assemble the document.
\<close>

theorem at_most_one_assembler:
  assumes "all_data tables_wf c"
  shows "length (filter (told_to_assemble jid) (zip ops (fst (run_calls cfg ops c)))) \<le> 1"
  using assms
proof (induction ops arbitrary: c)
  case (Cons op ops)
  obtain r c1 where op: "run_call cfg op c = (r, c1)" by fastforce
  have wf1: "all_data tables_wf c1"
    using keepsD [OF keeps_run_call [OF module_keeps_wf] Cons.prems, of cfg op] op by simp
  show ?case
  proof (cases "told_to_assemble jid (op, r)")
    case True
    from never_again [OF run_call_assemble(1) [OF Cons.prems op True], of ops cfg] True op
    show ?thesis by (simp add: case_prod_beta Let_def)
  next
    case False
    with Cons.IH [OF wf1] op show ?thesis by (simp add: case_prod_beta Let_def)
  qed
qed simp

subsection \<open>The abstract job: a status, a counter and a set of finished chunks\<close>

record job_abs =
  a_status :: job_status
  a_remaining :: int
  a_chunks :: "int set"
  a_done :: "int set"

definition chunks_of :: "string \<Rightarrow> tables \<Rightarrow> chunk_row list" where
  "chunks_of jid t = filter (\<lambda>ck. c_job_id ck = jid) (job_chunks t)"

definition find_job :: "string \<Rightarrow> tables \<Rightarrow> job_row option" where
  "find_job jid t = (case filter (\<lambda>j. j_job_id j = jid) (jobs t) of [] \<Rightarrow> None | j # _ \<Rightarrow> Some j)"

definition job_view :: "string \<Rightarrow> tables \<Rightarrow> job_abs option" where
  "job_view jid t = map_option (\<lambda>j.
     \<lparr>a_status = j_status j, a_remaining = j_remaining_chunks j,
      a_chunks = c_chunk_index ` set (chunks_of jid t),
      a_done = c_chunk_index ` set (filter (\<lambda>ck. c_status ck = ChunkDone) (chunks_of jid t))\<rparr>)
     (find_job jid t)"

text \<open>What one completion promises.\<close>

definition abs_complete :: "int \<Rightarrow> job_abs \<Rightarrow> int \<times> job_abs" where
  "abs_complete i a =
     (if i \<notin> a_chunks a \<or> i \<in> a_done a then (CHUNK_ALREADY_DONE, a)
      else if terminal (a_status a) then (JOB_ALREADY_TERMINAL, a\<lparr>a_done := insert i (a_done a)\<rparr>)
      else (a_remaining a - 1,
            a\<lparr>a_done := insert i (a_done a), a_remaining := a_remaining a - 1, a_status := Running\<rparr>))"

fun abs_call :: "string \<Rightarrow> job_call \<Rightarrow> job_abs \<Rightarrow> job_abs" where
  "abs_call jid (CompleteChunk ts j i key) a = (if j = jid then snd (abs_complete i a) else a)"
| "abs_call jid (StartChunk ts j i owner att) a =
     (if j = jid \<and> a_status a = Queued then a\<lparr>a_status := Running\<rparr> else a)"
| "abs_call jid (FailChunk ts j i err) a = (if j = jid then a\<lparr>a_done := a_done a - {i}\<rparr> else a)"
| "abs_call jid (FailJob ts j err ci) a =
     (if j = jid \<and> \<not> terminal (a_status a) then a\<lparr>a_status := Failed\<rparr> else a)"
| "abs_call jid (FinishJob ts j) a = (if j = jid then a\<lparr>a_status := Done\<rparr> else a)"
| "abs_call jid _ a = a"

lemma find_job_update:
  "(\<And>j. j_job_id (f j) = j_job_id j) \<Longrightarrow>
   find_job jid (t\<lparr>jobs := update_where p f (jobs t)\<rparr>) = map_option (\<lambda>j. if p j then f j else j) (find_job jid t)"
proof -
  assume f: "\<And>j. j_job_id (f j) = j_job_id j"
  have "filter (\<lambda>j. j_job_id j = jid) (update_where p f rows)
      = map (\<lambda>j. if p j then f j else j) (filter (\<lambda>j. j_job_id j = jid) rows)" for rows
    unfolding update_where_def by (induction rows) (auto simp: f)
  then show ?thesis by (simp add: find_job_def split: list.split)
qed

lemma find_job_frame [simp]:
  "find_job jid (t\<lparr>job_chunks := cks\<rparr>) = find_job jid t"
  "find_job jid (t\<lparr>documents := ds\<rparr>) = find_job jid t"
  "find_job jid (t\<lparr>next_chunk_id := n\<rparr>) = find_job jid t"
  by (simp_all add: find_job_def)

lemma chunks_of_frame [simp]:
  "chunks_of jid (t\<lparr>jobs := js\<rparr>) = chunks_of jid t"
  "chunks_of jid (t\<lparr>documents := ds\<rparr>) = chunks_of jid t"
  "chunks_of jid (t\<lparr>next_chunk_id := n\<rparr>) = chunks_of jid t"
  by (simp_all add: chunks_of_def)

lemma chunks_of_update:
  "(\<And>ck. c_job_id (f ck) = c_job_id ck) \<Longrightarrow>
   chunks_of jid (t\<lparr>job_chunks := update_where p f (job_chunks t)\<rparr>) = update_where p f (chunks_of jid t)"
proof -
  assume f: "\<And>ck. c_job_id (f ck) = c_job_id ck"
  have "filter (\<lambda>ck. c_job_id ck = jid) (update_where p f rows)
      = update_where p f (filter (\<lambda>ck. c_job_id ck = jid) rows)" for rows
    unfolding update_where_def by (induction rows) (auto simp: f)
  then show ?thesis by (simp add: chunks_of_def)
qed

lemma wf_chunks_of:
  "tables_wf t \<Longrightarrow> a \<in> set (chunks_of jid t) \<Longrightarrow> b \<in> set (chunks_of jid t) \<Longrightarrow>
   c_chunk_index a = c_chunk_index b \<Longrightarrow> a = b"
  by (auto simp: tables_wf_def chunks_of_def distinct_map inj_on_def chunk_key_def)

lemma image_update_where:
  "(\<And>r. g (f r) = g r) \<Longrightarrow> g ` set (update_where p f rows) = g ` set rows"
  by (metis list.set_map map_update_where)

text \<open>The effect of each statement on the view of a job.\<close>

lemma find_job_id: "find_job jid t = Some j \<Longrightarrow> j_job_id j = jid"
  by (cases "filter (\<lambda>j. j_job_id j = jid) (jobs t)") (auto simp: find_job_def filter_eq_Cons_iff)

lemma view_finish_job:
  "job_view jid (after (finish_job_stmt ts j) t) = map_option (abs_call jid (FinishJob ts j)) (job_view jid t)"
  unfolding finish_job_stmt_def
  by (cases "find_job jid t") (auto simp: job_view_def after_def update_jobs_def find_job_update dest: find_job_id)

lemma view_fail_job:
  "job_view jid (after (fail_job_stmt ts j err ci) t) = map_option (abs_call jid (FailJob ts j err ci)) (job_view jid t)"
  unfolding fail_job_stmt_def
  by (cases "find_job jid t") (auto simp: job_view_def after_def update_jobs_def find_job_update dest: find_job_id)

lemma view_start_job:
  "job_view jid (after (start_job_stmt ts j) t) = map_option (abs_call jid (StartChunk ts j i owner att)) (job_view jid t)"
  unfolding start_job_stmt_def
  by (cases "find_job jid t") (auto simp: job_view_def after_def update_jobs_def find_job_update dest: find_job_id)

lemma job_view_cong:
  "find_job jid t' = find_job jid t \<Longrightarrow>
   c_chunk_index ` set (chunks_of jid t') = c_chunk_index ` set (chunks_of jid t) \<Longrightarrow>
   c_chunk_index ` set (filter (\<lambda>ck. c_status ck = ChunkDone) (chunks_of jid t'))
     = c_chunk_index ` set (filter (\<lambda>ck. c_status ck = ChunkDone) (chunks_of jid t)) \<Longrightarrow>
   job_view jid t' = job_view jid t"
  by (simp add: job_view_def)

lemma image_filter_update_where:
  assumes "\<And>r. h (f r) = h r"
  shows "h ` set (filter q (update_where p f rows)) = h ` {r \<in> set rows. q (if p r then f r else r)}"
proof -
  define g where "g r = (if p r then f r else r)" for r
  have hg: "h (g r) = h r" for r using assms by (simp add: g_def)
  have "h ` {x \<in> g ` S. q x} = h ` {r \<in> S. q (g r)}" for S
    by (auto simp: hg) (metis (mono_tags, lifting) hg imageI mem_Collect_eq)
  then show ?thesis unfolding set_filter set_update_where g_def .
qed

lemma view_update_chunks:
  assumes "\<And>ck. c_job_id (f ck) = c_job_id ck" "\<And>ck. c_chunk_index (f ck) = c_chunk_index ck"
  shows "job_view jid (after (update_chunks p f) t) = map_option (\<lambda>a. a\<lparr>a_done :=
     c_chunk_index ` {ck \<in> set (chunks_of jid t). c_status (if p ck then f ck else ck) = ChunkDone}\<rparr>)
     (job_view jid t)"
  using image_filter_update_where [where h = c_chunk_index and f = f, OF assms(2)]
    image_update_where [where g = c_chunk_index and f = f, OF assms(2)]
  by (simp add: job_view_def after_def update_chunks_def chunks_of_update [OF assms(1)]
      option.map_comp comp_def)

lemma job_view_find:
  "job_view jid t = Some a \<Longrightarrow>
   \<exists>j. find_job jid t = Some j \<and> j_status j = a_status a \<and> j_remaining_chunks j = a_remaining a"
  by (auto simp: job_view_def)

lemma job_view_done:
  "job_view jid t = Some a \<Longrightarrow> a_done a = c_chunk_index ` {ck \<in> set (chunks_of jid t). c_status ck = ChunkDone}"
  by (auto simp: job_view_def)

lemma job_view_chunks: "job_view jid t = Some a \<Longrightarrow> a_chunks a = c_chunk_index ` set (chunks_of jid t)"
  by (auto simp: job_view_def)

lemma view_update_chunks_open:
  assumes "\<And>ck. c_job_id (f ck) = c_job_id ck" "\<And>ck. c_chunk_index (f ck) = c_chunk_index ck"
    and "\<And>ck. p ck \<Longrightarrow> c_status ck \<noteq> ChunkDone" "\<And>ck. c_status (f ck) \<noteq> ChunkDone"
  shows "job_view jid (after (update_chunks p f) t) = job_view jid t"
proof -
  have "{ck \<in> set (chunks_of jid t). c_status (if p ck then f ck else ck) = ChunkDone}
      = {ck \<in> set (chunks_of jid t). c_status ck = ChunkDone}"
    using assms(3,4) by auto
  then show ?thesis
    by (cases "job_view jid t") (simp_all add: view_update_chunks [OF assms(1,2)] job_view_done)
qed

lemma view_start_chunk: "job_view jid (after (start_chunk_stmt ts j i owner att) t) = job_view jid t"
  unfolding start_chunk_stmt_def by (rule view_update_chunks_open) auto

lemma view_reschedule_chunk: "job_view jid (after (reschedule_chunk_stmt ts j i err) t) = job_view jid t"
  unfolding reschedule_chunk_stmt_def by (rule view_update_chunks_open) auto

lemma chunks_of_job: "ck \<in> set (chunks_of jid t) \<Longrightarrow> c_job_id ck = jid"
  by (simp add: chunks_of_def)

lemma view_fail_chunk:
  assumes "tables_wf t"
  shows "job_view jid (after (fail_chunk_stmt ts j i err) t)
    = map_option (abs_call jid (FailChunk ts j i err)) (job_view jid t)"
proof (cases "job_view jid t")
  case (Some a)
  have "c_chunk_index ` {ck \<in> set (chunks_of jid t). c_status (if is_chunk j i ck
        then ck\<lparr>c_status := ChunkFailed, c_lease_owner := None, c_last_error := Some (take 2000 err), c_updated_at := ts\<rparr>
        else ck) = ChunkDone} = (if j = jid then a_done a - {i} else a_done a)"
    unfolding job_view_done [OF Some] by (auto dest: chunks_of_job)
  with Some show ?thesis
    unfolding fail_chunk_stmt_def by (simp add: view_update_chunks)
qed (simp add: fail_chunk_stmt_def view_update_chunks)

text \<open>The two statements of a completion, and its whole effect.\<close>

definition open_chunk :: "string \<Rightarrow> int \<Rightarrow> tables \<Rightarrow> bool" where
  "open_chunk jid i t \<longleftrightarrow> (\<exists>ck \<in> set (chunks_of jid t). c_chunk_index ck = i \<and> c_status ck \<noteq> ChunkDone)"

lemma open_chunk_view:
  assumes "tables_wf t" "job_view jid t = Some a"
  shows "open_chunk jid i t \<longleftrightarrow> i \<in> a_chunks a \<and> i \<notin> a_done a"
  unfolding open_chunk_def job_view_done [OF assms(2)] job_view_chunks [OF assms(2)]
  using wf_chunks_of [OF assms(1)] by (auto simp: image_iff)

lemma view_complete_stmt:
  assumes "job_view jid t = Some a"
  shows "job_view jid (after (complete_chunk_stmt ts j i key) t)
    = Some (if j = jid \<and> i \<in> a_chunks a then a\<lparr>a_done := insert i (a_done a)\<rparr> else a)"
proof -
  have "c_chunk_index ` {ck \<in> set (chunks_of jid t). c_status (if is_chunk j i ck \<and> c_status ck \<noteq> ChunkDone
        then ck\<lparr>c_status := ChunkDone, c_s3_key := Some key, c_lease_owner := None, c_last_error := None, c_updated_at := ts\<rparr>
        else ck) = ChunkDone} = (if j = jid \<and> i \<in> a_chunks a then insert i (a_done a) else a_done a)"
    unfolding job_view_done [OF assms] job_view_chunks [OF assms] by (auto dest: chunks_of_job)
  with assms show ?thesis unfolding complete_chunk_stmt_def by (simp add: view_update_chunks)
qed

lemma view_decrement:
  assumes "job_view jid t = Some a"
  shows "job_view jid (after (decrement_stmt ts j) t)
    = Some (if j = jid \<and> \<not> terminal (a_status a)
            then a\<lparr>a_remaining := a_remaining a - 1, a_status := Running\<rparr> else a)"
  using assms unfolding decrement_stmt_def
  by (cases "find_job jid t")
    (auto simp: job_view_def after_def update_jobs_returning_def find_job_update dest: find_job_id)

definition complete_pure :: "int \<Rightarrow> string \<Rightarrow> int \<Rightarrow> string \<Rightarrow> tables \<Rightarrow> int \<times> tables" where
  "complete_pure ts jid i key t =
     (let t1 = after (complete_chunk_stmt ts jid i key) t in
      if \<not> open_chunk jid i t then (CHUNK_ALREADY_DONE, t1)
      else case decrement_stmt ts jid t1 of
          Inr (cur, _, t2) \<Rightarrow> (returned_count cur, t2)
        | Inl _ \<Rightarrow> (JOB_ALREADY_TERMINAL, t1))"

lemma complete_stmt_run:
  "complete_chunk_stmt ts jid i key t =
     Inr (no_rows, Wrote (length (filter (\<lambda>ck. is_chunk jid i ck \<and> c_status ck \<noteq> ChunkDone) (job_chunks t))),
          after (complete_chunk_stmt ts jid i key) t)"
  by (simp add: complete_chunk_stmt_def update_chunks_def after_def)

lemma open_chunk_count:
  "length (filter (\<lambda>ck. is_chunk jid i ck \<and> c_status ck \<noteq> ChunkDone) (job_chunks t)) = 0
     \<longleftrightarrow> \<not> open_chunk jid i t"
  by (auto simp: open_chunk_def chunks_of_def filter_empty_conv)

lemma decrement_stmt_run: "\<exists>cur n. decrement_stmt ts jid t = Inr (cur, Wrote n, after (decrement_stmt ts jid) t)"
  by (simp add: decrement_stmt_def update_jobs_returning_def after_def)

lemma complete_block_ok:
  assumes "clean d c" "complete_block ts jid i key c = (Inr x, c2)"
  shows "complete_pure ts jid i key d = (x, db_visible c2)"
proof -
  let ?t1 = "after (complete_chunk_stmt ts jid i key) d"
  from assms(2) obtain cur0 c3 n c4 where c3: "conn_execute (complete_chunk_stmt ts jid i key) c = (Inr cur0, c3)"
    and c4: "changes c3 = (Inr n, c4)"
    and rest: "(if n = 0 then ret CHUNK_ALREADY_DONE
          else bindE (conn_execute (decrement_stmt ts jid)) (\<lambda>cur. ret (returned_count cur))) c4 = (Inr x, c2)"
    by (auto simp: complete_block_def io_ok)
  have "db_visible c = d" using assms(1) by (simp add: clean_def visible_def)
  with conn_execute_write_ok [OF c3] have "db_visible c3 = ?t1" and
    "n = length (filter (\<lambda>ck. is_chunk jid i ck \<and> c_status ck \<noteq> ChunkDone) (job_chunks d))"
    using changes_ok(1) [OF c4] by (simp_all add: complete_stmt_run)
  then have vis: "db_visible c4 = ?t1" and zero: "n = 0 \<longleftrightarrow> \<not> open_chunk jid i d"
    using changes_ok(2) [OF c4] open_chunk_count by simp_all
  show ?thesis
  proof (cases "n = 0")
    case True
    with rest zero vis show ?thesis by (simp add: complete_pure_def ret_ok Let_def)
  next
    case False
    with rest obtain cur where dec: "conn_execute (decrement_stmt ts jid) c4 = (Inr cur, c2)" "x = returned_count cur"
      by (auto simp: io_ok)
    with conn_execute_write_ok [OF dec(1)] False zero vis show ?thesis by (simp add: complete_pure_def Let_def)
  qed
qed

lemma complete_block_txn:
  assumes "in_txn d c"
  shows "\<exists>c2. complete_block ts jid i key c = (Inr (fst (complete_pure ts jid i key d)), c2)
    \<and> in_txn (snd (complete_pure ts jid i key d)) c2"
proof -
  let ?t1 = "after (complete_chunk_stmt ts jid i key) d"
  obtain c1 where c1: "conn_execute (complete_chunk_stmt ts jid i key) c = (Inr no_rows, c1)" "in_txn ?t1 c1"
    and n: "last_changes (r_state (server c1))
      = length (filter (\<lambda>ck. is_chunk jid i ck \<and> c_status ck \<noteq> ChunkDone) (job_chunks d))"
    using execute_txn [where st = "complete_chunk_stmt ts jid i key", OF assms complete_stmt_run] by blast
  have zero: "last_changes (r_state (server c1)) = 0 \<longleftrightarrow> \<not> open_chunk jid i d" unfolding n by (rule open_chunk_count)
  obtain cur m where cur: "decrement_stmt ts jid ?t1 = Inr (cur, Wrote m, after (decrement_stmt ts jid) ?t1)"
    using decrement_stmt_run by blast
  obtain c2 where c2: "conn_execute (decrement_stmt ts jid) c1 = (Inr cur, c2)" "in_txn (after (decrement_stmt ts jid) ?t1) c2"
    using execute_txn [where st = "decrement_stmt ts jid", OF c1(2) cur] by blast
  show ?thesis
    using c1 c2 zero changes_txn [OF c1(2)]
    by (cases "open_chunk jid i d") (simp_all add: complete_block_def complete_pure_def thenE_run bindE_run ret_def Let_def cur)
qed

text \<open>
  Under the locking and atomicity of the database alone: a completion that returns did all of
  its work, and one that raises did all of it or none.
\<close>

lemma complete_chunk_outcome:
  assumes "clean d c" "complete_chunk cfg ts jid i key c = (r, c')"
  shows "(r = Inr (fst (complete_pure ts jid i key d)) \<and> clean (snd (complete_pure ts jid i key d)) c') \<or>
    (\<exists>e. r = Inl e \<and> db_data c' \<in> {d, snd (complete_pure ts jid i key d)})"
proof -
  have "keeps (holds d) (complete_block ts jid i key)"
    unfolding complete_block_def by (intro keeps_intros keeps_holds_write keeps_holds_changes) simp_all
  from transaction_outcome [OF assms(1) this assms(2) [unfolded complete_chunk_def]] show ?thesis
    using complete_block_ok by force
qed

lemma complete_chunk_ready:
  "ready d c \<Longrightarrow> \<exists>c'. complete_chunk cfg ts jid i key c = (Inr (fst (complete_pure ts jid i key d)), c')
     \<and> ready (snd (complete_pure ts jid i key d)) c'"
  unfolding complete_chunk_def by (rule transaction_ready [OF _ complete_block_txn])

subsection \<open>The job store refines the abstract job\<close>

lemma wf_jobs_filter:
  assumes "tables_wf t"
  shows "filter (\<lambda>j. j_job_id j = jid) (jobs t) = (case find_job jid t of None \<Rightarrow> [] | Some j \<Rightarrow> [j])"
proof -
  have "distinct (map j_job_id rows) \<Longrightarrow> length (filter (\<lambda>j. j_job_id j = jid) rows) \<le> 1" for rows :: "job_row list"
    by (induction rows) (auto simp: filter_empty_conv image_iff)
  then have "length (filter (\<lambda>j. j_job_id j = jid) (jobs t)) \<le> 1" using assms by (simp add: tables_wf_def)
  then show ?thesis by (auto simp: find_job_def split: list.split)
qed

lemma decrement_count:
  assumes "tables_wf t" "find_job jid t = Some j" "decrement_stmt ts jid t = Inr (cur, eff, t')"
  shows "returned_count cur = (if terminal (j_status j) then JOB_ALREADY_TERMINAL else j_remaining_chunks j - 1)"
proof -
  have "filter (\<lambda>j. j_job_id j = jid \<and> \<not> terminal (j_status j)) (jobs t)
      = filter (\<lambda>j. \<not> terminal (j_status j)) (filter (\<lambda>j. j_job_id j = jid) (jobs t))"
    by (simp add: conj_commute)
  also have "\<dots> = (if terminal (j_status j) then [] else [j])"
    using wf_jobs_filter [OF assms(1), of jid] assms(2) by simp
  finally show ?thesis using assms(3)
    by (auto simp: decrement_stmt_def update_jobs_returning_def returned_count_def)
qed

lemma wf_after: "stmt_keeps tables_wf st \<Longrightarrow> tables_wf t \<Longrightarrow> tables_wf (after st t)"
  by (auto simp: after_def split: sum.split dest: stmt_keepsD)

lemma complete_pure_refines:
  assumes "tables_wf t" "job_view jid t = Some a"
  shows "fst (complete_pure ts jid i key t) = fst (abs_complete i a)"
    "job_view jid (snd (complete_pure ts jid i key t)) = Some (snd (abs_complete i a))"
proof -
  let ?t1 = "after (complete_chunk_stmt ts jid i key) t"
  have wf1: "tables_wf ?t1" using module_keeps_wf assms(1) by (intro wf_after) (simp_all add: module_keeps_def)
  obtain cur m where cur: "decrement_stmt ts jid ?t1 = Inr (cur, Wrote m, after (decrement_stmt ts jid) ?t1)"
    using decrement_stmt_run by blast
  note open_iff = open_chunk_view [OF assms, of i]
  note view1 = view_complete_stmt [OF assms(2), of ts jid i key]
  have "fst (complete_pure ts jid i key t) = fst (abs_complete i a)
    \<and> job_view jid (snd (complete_pure ts jid i key t)) = Some (snd (abs_complete i a))"
  proof (cases "open_chunk jid i t")
    case False
    then show ?thesis using open_iff view1
      by (auto simp: complete_pure_def abs_complete_def insert_absorb)
  next
    case True
    then have "i \<in> a_chunks a" "i \<notin> a_done a" using open_iff by simp_all
    with view1 have v1: "job_view jid ?t1 = Some (a\<lparr>a_done := insert i (a_done a)\<rparr>)" by simp
    then obtain j where j: "find_job jid ?t1 = Some j" "j_status j = a_status a" "j_remaining_chunks j = a_remaining a"
      using job_view_find [OF v1] by auto
    from decrement_count [OF wf1 j(1) cur] view_decrement [OF v1, of ts jid] True \<open>i \<in> a_chunks a\<close> \<open>i \<notin> a_done a\<close> j(2,3)
    show ?thesis by (simp add: complete_pure_def abs_complete_def cur)
  qed
  then show "fst (complete_pure ts jid i key t) = fst (abs_complete i a)"
    "job_view jid (snd (complete_pure ts jid i key t)) = Some (snd (abs_complete i a))" by simp_all
qed

definition create_stmts ::
  "int \<Rightarrow> string \<Rightarrow> string \<Rightarrow> string \<Rightarrow> string \<Rightarrow> (int \<times> int) list \<Rightarrow> bool \<Rightarrow> (tables, unit) stmt list" where
  "create_stmts ts jid dk fh url ranges llm =
     insert_job (new_job_row ts jid dk fh url (int (length ranges)) llm)
     # map (\<lambda>chunk. insert_chunk (new_chunk_row ts jid chunk)) (py_enumerate 0 ranges)"

lemma foreachE_map: "foreachE (map g xs) f = foreachE xs (\<lambda>x. f (g x))"
  by (induction xs) simp_all

lemma create_job_stmts:
  "create_job cfg ts jid dk fh url ranges llm
     = transaction (job_env cfg) (exec_all (create_stmts ts jid dk fh url ranges llm))"
  by (simp add: create_job_def exec_all_def create_stmts_def foreachE_map thenE_def bindE_assoc)

lemma create_stmts_write: "st \<in> set (create_stmts ts jid dk fh url ranges llm) \<Longrightarrow> is_write st"
  by (auto simp: create_stmts_def)

lemma create_stmts_wf: "st \<in> set (create_stmts ts jid dk fh url ranges llm) \<Longrightarrow> stmt_keeps tables_wf st"
  by (auto simp: create_stmts_def intro: wf_insert_job wf_insert_chunk)

text \<open>Creating another job leaves the rows of this one alone, and creating this one again raises.\<close>

lemma view_insert_job:
  "j_job_id j \<noteq> jid \<Longrightarrow> insert_job j t = Inr (cur, eff, t') \<Longrightarrow> job_view jid t' = job_view jid t"
  by (auto simp: insert_job_def find_job_def intro!: job_view_cong split: if_splits list.split)

lemma view_insert_chunk:
  "(\<And>n. c_job_id (mk n) \<noteq> jid) \<Longrightarrow> insert_chunk mk t = Inr (cur, eff, t') \<Longrightarrow> job_view jid t' = job_view jid t"
  by (auto simp: insert_chunk_def chunks_of_def Let_def intro!: job_view_cong split: if_splits)

lemma keeps_view_insert:
  "j_job_id j \<noteq> jid \<Longrightarrow> stmt_keeps (\<lambda>t. job_view jid t = v) (insert_job j)"
  "(\<And>n. c_job_id (mk n) \<noteq> jid) \<Longrightarrow> stmt_keeps (\<lambda>t. job_view jid t = v) (insert_chunk mk)"
  unfolding stmt_keeps_def using view_insert_job view_insert_chunk by metis+

lemma find_job_mem: "find_job jid t = Some j \<Longrightarrow> j \<in> set (jobs t)"
  by (cases "filter (\<lambda>j. j_job_id j = jid) (jobs t)") (auto simp: find_job_def filter_eq_Cons_iff)

lemma view_create:
  assumes "job_view jid t = Some a" "apply_stmts (create_stmts ts j dk fh url ranges llm) t = Inr t'"
  shows "job_view jid t' = Some a"
proof -
  have "\<not> list_ex (\<lambda>r. j_job_id r = j) (jobs t)"
    using assms(2) by (auto simp: create_stmts_def insert_job_def new_job_row_def split: if_splits)
  moreover obtain r where "r \<in> set (jobs t)" "j_job_id r = jid"
    using job_view_find [OF assms(1)] find_job_mem find_job_id by metis
  ultimately have "j \<noteq> jid" by (auto simp: list_ex_iff)
  then have "stmt_keeps (\<lambda>t. job_view jid t = Some a) st"
    if "st \<in> set (create_stmts ts j dk fh url ranges llm)" for st
    using that by (auto simp: create_stmts_def new_job_row_def new_chunk_row_def intro!: keeps_view_insert)
  from apply_stmts_keeps [OF this assms(1,2)] show ?thesis by simp
qed

text \<open>A write without rows that never raises.\<close>

definition plain :: "('d, 'r) stmt \<Rightarrow> bool" where
  "plain st \<longleftrightarrow> (\<forall>d. \<exists>n. st d = Inr (no_rows, Wrote n, after st d))"

lemma plain_stmts [simp]:
  "plain (finish_job_stmt ts j)" "plain (fail_job_stmt ts j err ci)" "plain (start_job_stmt ts j)"
  "plain (start_chunk_stmt ts j i owner att)" "plain (fail_chunk_stmt ts j i err)"
  "plain (reschedule_chunk_stmt ts j i err)" "plain (replace_document r)"
  by (simp_all add: plain_def job_stmts chunk_stmts update_jobs_def update_chunks_def
      replace_document_def after_def)

lemma exec_ready:
  assumes "ready t c" "plain st"
  shows "\<exists>c'. thenE (execute E st) k c = k c' \<and> ready (after st t) c'"
proof -
  obtain n where "st t = Inr (no_rows, Wrote n, after st t)" using assms(2) unfolding plain_def by blast
  from execute_ready [where st = st, OF assms(1) this, of E] show ?thesis
    by (auto simp: thenE_run)
qed

lemma view_replace_document: "job_view jid (after (replace_document r) t) = job_view jid t"
  by (simp add: after_def replace_document_def job_view_def)

lemma wf_job_stmts [simp]:
  "tables_wf t \<Longrightarrow> tables_wf (after (finish_job_stmt ts j) t)"
  "tables_wf t \<Longrightarrow> tables_wf (after (fail_job_stmt ts j err ci) t)"
  "tables_wf t \<Longrightarrow> tables_wf (after (start_job_stmt ts j) t)"
  "tables_wf t \<Longrightarrow> tables_wf (after (start_chunk_stmt ts j i owner att) t)"
  "tables_wf t \<Longrightarrow> tables_wf (after (fail_chunk_stmt ts j i err) t)"
  "tables_wf t \<Longrightarrow> tables_wf (after (reschedule_chunk_stmt ts j i err) t)"
  "tables_wf t \<Longrightarrow> tables_wf (after (complete_chunk_stmt ts j i key) t)"
  "tables_wf t \<Longrightarrow> tables_wf (after (decrement_stmt ts j) t)"
  "tables_wf t \<Longrightarrow> tables_wf (after (replace_document r :: (tables, unit) stmt) t)"
  using module_keeps_wf by (auto simp: module_keeps_def intro!: wf_after)

lemma wf_complete_pure: "tables_wf t \<Longrightarrow> tables_wf (snd (complete_pure ts j i key t))"
  using decrement_stmt_run [of ts j "after (complete_chunk_stmt ts j i key) t"]
  by (auto simp: complete_pure_def Let_def)

lemma view_complete_other:
  assumes "tables_wf t" "job_view jid t = Some a" "j \<noteq> jid"
  shows "job_view jid (snd (complete_pure ts j i key t)) = Some a"
proof -
  have v1: "job_view jid (after (complete_chunk_stmt ts j i key) t) = Some a"
    using view_complete_stmt [OF assms(2), of ts j i key] assms(3) by simp
  with view_decrement [OF this, of ts j] assms(3)
    decrement_stmt_run [of ts j "after (complete_chunk_stmt ts j i key) t"]
  show ?thesis by (auto simp: complete_pure_def Let_def)
qed

lemma thenE_flat: "thenE (thenE m n) k = thenE m (thenE n k)" "thenE (ret x) k = k"
  by (simp_all add: thenE_def bindE_assoc)

lemma read_call_ready:
  "ready t c \<Longrightarrow> \<exists>c'. thenE (query E (select cols f)) (ret (None :: int option)) c = (Inr None, c') \<and> ready t c'"
  "ready t c \<Longrightarrow> \<exists>c'. thenE (query_one E (select cols f)) (ret (None :: int option)) c = (Inr None, c') \<and> ready t c'"
  using select_ready [of t c E cols f] by (auto simp: query_one_def thenE_run bindE_run thenE_def ret_def)

text \<open>What a call did to the tables and to the view of one job.\<close>

definition call_effect :: "string \<Rightarrow> job_abs \<Rightarrow> (exn + int option) \<times> tables client \<Rightarrow> bool" where
  "call_effect jid b rc \<longleftrightarrow> (\<exists>t'. ready t' (snd rc) \<and> tables_wf t' \<and> job_view jid t' = Some b)"

lemma call_effectI: "ready t' c' \<Longrightarrow> tables_wf t' \<Longrightarrow> job_view jid t' = Some b \<Longrightarrow> call_effect jid b (r, c')"
  by (auto simp: call_effect_def)

lemma exec_call_effect:
  fixes st :: "(tables, unit) stmt"
  assumes "ready t c" "plain st" "tables_wf (after st t)" "job_view jid (after st t) = Some b"
  shows "call_effect jid b (thenE (thenE (execute E st) (ret ())) (ret None) c)"
proof -
  obtain c' where "thenE (execute E st) (ret None) c = (Inr (None :: int option), c')" "ready (after st t) c'"
    using exec_ready [OF assms(1,2), of E "ret None"] by (auto simp: ret_def)
  with assms(3,4) show ?thesis by (auto simp: thenE_flat call_effect_def)
qed

lemma read_call_effect:
  assumes "ready t c" "tables_wf t" "job_view jid t = Some a"
  shows "call_effect jid a (thenE (query E (select cols f)) (ret None) c)"
    "call_effect jid a (thenE (query_one E (select cols f)) (ret None) c)"
  using read_call_ready [OF assms(1), of E cols f] assms(2,3) by (auto simp: call_effect_def)

lemma create_call_effect:
  assumes "ready t c" "tables_wf t" "job_view jid t = Some a"
  shows "call_effect jid a (thenE (create_job cfg ts j dk fh url ranges llm) (ret None) c)"
proof -
  let ?sts = "create_stmts ts j dk fh url ranges llm"
  let ?t' = "case apply_stmts ?sts t of Inl _ \<Rightarrow> t | Inr d' \<Rightarrow> d'"
  obtain r c' where c': "transaction (job_env cfg) (exec_all ?sts) c = (r, c')" "ready ?t' c'"
    using transaction_stmts_ready [of t c ?sts "job_env cfg"] assms(1) create_stmts_write by blast
  have "tables_wf ?t'"
    using apply_stmts_keeps [of ?sts tables_wf t] create_stmts_wf assms(2) by (auto split: sum.split)
  moreover have "job_view jid ?t' = Some a"
    using view_create [OF assms(3)] assms(3) by (auto split: sum.split)
  moreover have "snd (thenE (create_job cfg ts j dk fh url ranges llm) (ret None) c) = c'"
    using c'(1) by (cases r) (simp_all add: create_job_stmts thenE_run thenE_raise ret_def)
  ultimately show ?thesis using c'(2) unfolding call_effect_def by blast
qed

lemma start_call_effect:
  assumes "ready t c" "tables_wf t" "job_view jid t = Some a"
  shows "call_effect jid (abs_call jid (StartChunk ts j i owner att) a)
    (thenE (start_chunk cfg ts j i owner att) (ret None) c)"
proof -
  let ?t1 = "after (start_chunk_stmt ts j i owner att) t"
  let ?go = "thenE (thenE (execute (job_env cfg) (start_job_stmt ts j)) (ret ())) (ret (None :: int option))"
  obtain c1 where c1: "thenE (execute (job_env cfg) (start_chunk_stmt ts j i owner att)) ?go c = ?go c1" "ready ?t1 c1"
    using exec_ready [OF assms(1), of "start_chunk_stmt ts j i owner att" "job_env cfg" ?go] by auto
  have "thenE (start_chunk cfg ts j i owner att) (ret None) c = ?go c1"
    using c1(1) by (simp add: start_chunk_def thenE_flat)
  moreover have "job_view jid (after (start_job_stmt ts j) ?t1) = Some (abs_call jid (StartChunk ts j i owner att) a)"
    using assms(3) by (simp add: view_start_job [where i = i and owner = owner and att = att] view_start_chunk
        del: abs_call.simps)
  ultimately show ?thesis using exec_call_effect [OF c1(2), of "start_job_stmt ts j"] assms(2) by simp
qed

lemma complete_call_effect:
  assumes "ready t c" "tables_wf t" "job_view jid t = Some a"
  shows "call_effect jid (abs_call jid (CompleteChunk ts j i key) a) (run_call cfg (CompleteChunk ts j i key) c)"
    and "fst (run_call cfg (CompleteChunk ts jid i key) c) = Inr (Some (fst (abs_complete i a)))"
proof -
  have run: "\<exists>c'. run_call cfg (CompleteChunk ts j i key) c = (Inr (Some (fst (complete_pure ts j i key t))), c')
    \<and> ready (snd (complete_pure ts j i key t)) c'" for j
    using complete_chunk_ready [OF assms(1), of cfg ts j i key] by (auto simp: bindE_run ret_def)
  have "job_view jid (snd (complete_pure ts j i key t)) = Some (abs_call jid (CompleteChunk ts j i key) a)"
    using complete_pure_refines(2) [OF assms(2,3), of ts i key] view_complete_other [OF assms(2,3), of j ts i key]
    by auto
  then show "call_effect jid (abs_call jid (CompleteChunk ts j i key) a) (run_call cfg (CompleteChunk ts j i key) c)"
    using run [of j] wf_complete_pure [OF assms(2), of ts j i key] unfolding call_effect_def by (metis snd_conv)
  show "fst (run_call cfg (CompleteChunk ts jid i key) c) = Inr (Some (fst (abs_complete i a)))"
    using run [of jid] complete_pure_refines(1) [OF assms(2,3)] by auto
qed

lemma run_call_refines:
  assumes rd: "ready t c" and wf: "tables_wf t" and view: "job_view jid t = Some a"
  shows "call_effect jid (abs_call jid op a) (run_call cfg op c)"
proof (cases op)
  case (CreateJob ts j dk fh url ranges llm)
  then show ?thesis using create_call_effect [OF assms] by simp
next
  case (StartChunk ts j i owner att)
  then show ?thesis using start_call_effect [OF assms] by simp
next
  case (CompleteChunk ts j i key)
  then show ?thesis using complete_call_effect(1) [OF assms] by simp
next
  case (RescheduleChunk ts j i err)
  then show ?thesis using exec_call_effect [OF rd] wf view
    by (simp add: reschedule_chunk_def view_reschedule_chunk)
next
  case (FailChunk ts j i err)
  then show ?thesis using exec_call_effect [OF rd] wf view view_fail_chunk [OF wf, of jid ts j i err]
    by (simp add: fail_chunk_def)
next
  case (FailJob ts j err ci)
  then show ?thesis using exec_call_effect [OF rd] wf view by (simp add: fail_job_def view_fail_job)
next
  case (FinishJob ts j)
  then show ?thesis using exec_call_effect [OF rd] wf view by (simp add: finish_job_def view_finish_job)
next
  case (RecordDocument ts dk fh tp tc len psz)
  then show ?thesis using exec_call_effect [OF rd] wf view
    by (simp add: record_document_def view_replace_document)
next
  case (FindCachedDocument dk)
  then show ?thesis using assms by (simp add: find_cached_document_def read_call_effect)
next
  case (GetJob j)
  then show ?thesis using assms by (simp add: get_job_def read_call_effect)
next
  case (ChunkIndices j)
  then show ?thesis using assms by (simp add: chunk_indices_def read_call_effect)
qed

subsection \<open>Exactly one assembler when every chunk completes\<close>

definition consistent :: "job_abs \<Rightarrow> bool" where
  "consistent a \<longleftrightarrow> finite (a_chunks a) \<and> a_done a \<subseteq> a_chunks a \<and>
     (\<not> terminal (a_status a) \<longrightarrow> a_remaining a = int (card (a_chunks a - a_done a)))"

text \<open>Calls that neither fail nor finish job \<open>jid\<close>.\<close>

fun keeps_open :: "string \<Rightarrow> job_call \<Rightarrow> bool" where
  "keeps_open jid (FailChunk ts j i err) \<longleftrightarrow> j \<noteq> jid"
| "keeps_open jid (FailJob ts j err ci) \<longleftrightarrow> j \<noteq> jid"
| "keeps_open jid (FinishJob ts j) \<longleftrightarrow> j \<noteq> jid"
| "keeps_open jid _ \<longleftrightarrow> True"

definition completed_by :: "string \<Rightarrow> job_call list \<Rightarrow> int set" where
  "completed_by jid ops = {i. \<exists>ts key. CompleteChunk ts jid i key \<in> set ops}"

lemma completed_by_Cons:
  "completed_by jid (op # ops) = (case op of
       CompleteChunk ts j i key \<Rightarrow> if j = jid then insert i (completed_by jid ops) else completed_by jid ops
     | _ \<Rightarrow> completed_by jid ops)"
  by (auto simp: completed_by_def split: job_call.splits)

lemma card_remove_done:
  "finite C \<Longrightarrow> i \<in> C \<Longrightarrow> i \<notin> D \<Longrightarrow> int (card (C - insert i D)) = int (card (C - D)) - 1"
proof -
  assume a: "finite C" "i \<in> C" "i \<notin> D"
  have "C - insert i D = (C - D) - {i}" by auto
  moreover have "0 < card (C - D)" using a by (auto simp: card_gt_0_iff)
  ultimately show ?thesis using a by (simp add: card_Diff_singleton of_nat_diff)
qed

lemma consistent_complete: "consistent a \<Longrightarrow> consistent (snd (abs_complete i a))"
  by (auto simp: consistent_def abs_complete_def card_remove_done simp del: card_Diff_insert)

lemma consistent_call:
  assumes "consistent a" "\<And>ts i err. op = FailChunk ts jid i err \<Longrightarrow> i \<notin> a_done a"
  shows "consistent (abs_call jid op a)"
  using assms consistent_complete [of a]
  by (cases op) (auto simp: consistent_def)

lemma abs_complete_zero:
  assumes "consistent a" "\<not> terminal (a_status a)"
  shows "fst (abs_complete i a) = 0 \<longleftrightarrow> i \<in> a_chunks a \<and> i \<notin> a_done a \<and> a_chunks a = insert i (a_done a)"
proof (cases "i \<in> a_chunks a \<and> i \<notin> a_done a")
  case True
  then have "fst (abs_complete i a) = int (card (a_chunks a - insert i (a_done a)))"
    using assms card_remove_done [of "a_chunks a" i "a_done a"] by (simp add: abs_complete_def consistent_def)
  then show ?thesis using assms True by (auto simp: consistent_def simp del: card_Diff_insert)
qed (auto simp: abs_complete_def CHUNK_ALREADY_DONE_def)

lemma run_calls_assemble_count:
  assumes "ready t c" "tables_wf t" "job_view jid t = Some a" "consistent a" "\<not> terminal (a_status a)"
    "list_all (keeps_open jid) ops"
  shows "length (filter (told_to_assemble jid) (zip ops (fst (run_calls cfg ops c)))) =
    (if a_done a \<noteq> a_chunks a \<and> a_chunks a \<subseteq> a_done a \<union> completed_by jid ops then 1 else 0)"
  using assms
proof (induction ops arbitrary: t c a)
  case Nil
  then show ?case by (auto simp: consistent_def completed_by_def)
next
  case (Cons op ops)
  obtain r c1 where op: "run_call cfg op c = (r, c1)" by fastforce
  let ?a1 = "abs_call jid op a"
  obtain t1 where t1: "ready t1 c1" "tables_wf t1" "job_view jid t1 = Some ?a1"
    using run_call_refines [OF Cons.prems(1-3), of op cfg] op by (auto simp: call_effect_def)
  have "keeps_open jid op" using Cons.prems(6) by simp
  then have con1: "consistent ?a1" and term1: "\<not> terminal (a_status ?a1)"
    using Cons.prems(4,5) consistent_call [of a op jid] by (auto simp: abs_complete_def split: if_splits elim: keeps_open.elims)
  have count: "length (filter (told_to_assemble jid) (zip (op # ops) (fst (run_calls cfg (op # ops) c)))) =
      (if told_to_assemble jid (op, r) then 1 else 0) +
      (if a_done ?a1 \<noteq> a_chunks ?a1 \<and> a_chunks ?a1 \<subseteq> a_done ?a1 \<union> completed_by jid ops then 1 else 0)"
    using Cons.IH [OF t1 con1 term1] Cons.prems(6) op by (simp add: case_prod_beta Let_def)
  show ?case
  proof (cases "\<exists>ts i key. op = CompleteChunk ts jid i key")
    case False
    then have "\<not> told_to_assemble jid (op, r)" "completed_by jid (op # ops) = completed_by jid ops"
      by (auto simp: told_to_assemble_def completed_by_Cons split: job_call.splits)
    moreover have "a_done ?a1 = a_done a" "a_chunks ?a1 = a_chunks a"
      using False \<open>keeps_open jid op\<close> by (cases op; auto)+
    ultimately show ?thesis using count by simp
  next
    case True
    then obtain ts i key where i: "op = CompleteChunk ts jid i key" by blast
    have r: "r = Inr (Some (fst (abs_complete i a)))"
      using complete_call_effect(2) [OF Cons.prems(1-3), of cfg ts i key] op i by simp
    have told: "told_to_assemble jid (op, r) \<longleftrightarrow> i \<in> a_chunks a \<and> i \<notin> a_done a \<and> a_chunks a = insert i (a_done a)"
      using abs_complete_zero [OF Cons.prems(4,5)] by (simp add: told_to_assemble_def i r)
    have ins: "completed_by jid (op # ops) = insert i (completed_by jid ops)" by (simp add: completed_by_Cons i)
    have a1: "a_chunks ?a1 = a_chunks a"
      "a_done ?a1 = (if i \<in> a_chunks a then insert i (a_done a) else a_done a)"
      by (auto simp: i abs_complete_def)
    show ?thesis unfolding count told ins a1 using Cons.prems(4) by (auto simp: consistent_def)
  qed
qed

lemma insert_chunks:
  assumes "\<And>ck. ck \<in> set (chunks_of jid t) \<Longrightarrow> c_chunk_index ck < k"
  shows "\<exists>t' news. apply_stmts (map (\<lambda>chunk. insert_chunk (new_chunk_row ts jid chunk) :: (tables, unit) stmt)
        (py_enumerate k ranges)) t = Inr t' \<and>
      jobs t' = jobs t \<and> documents t' = documents t \<and> job_chunks t' = job_chunks t @ news \<and>
      map c_chunk_index news = map fst (py_enumerate k ranges) \<and>
      map (\<lambda>ck. (c_start_page ck, c_end_page ck)) news = ranges \<and>
      (\<forall>ck \<in> set news. c_job_id ck = jid \<and> c_status ck = ChunkPending)"
  using assms
proof (induction ranges arbitrary: k t)
  case (Cons r ranges)
  obtain s e where r: "r = (s, e)" by fastforce
  define ck where "ck = new_chunk_row ts jid (k, s, e) (next_chunk_id t)"
  define t1 where "t1 = t\<lparr>job_chunks := job_chunks t @ [ck], next_chunk_id := next_chunk_id t + 1\<rparr>"
  have key: "c_job_id ck = jid" "c_chunk_index ck = k" "c_status ck = ChunkPending" "c_start_page ck = s" "c_end_page ck = e"
    by (simp_all add: ck_def new_chunk_row_def)
  have "\<not> list_ex (\<lambda>r. c_job_id r = jid \<and> c_chunk_index r = k) (job_chunks t)"
    using Cons.prems by (fastforce simp: list_ex_iff chunks_of_def)
  then have ins: "(insert_chunk (new_chunk_row ts jid (k, r)) :: (tables, unit) stmt) t = Inr (no_rows, Wrote 1, t1)"
    using key unfolding insert_chunk_def t1_def r Let_def ck_def [symmetric] by simp
  have "c_chunk_index x < k + 1" if "x \<in> set (chunks_of jid t1)" for x
    using Cons.prems [of x] that key by (auto simp: chunks_of_def t1_def)
  from Cons.IH [of t1 "k + 1", OF this] obtain t' news where
    "apply_stmts (map (\<lambda>chunk. insert_chunk (new_chunk_row ts jid chunk) :: (tables, unit) stmt)
        (py_enumerate (k + 1) ranges)) t1 = Inr t'"
    "jobs t' = jobs t1" "documents t' = documents t1" "job_chunks t' = job_chunks t1 @ news"
    "map c_chunk_index news = map fst (py_enumerate (k + 1) ranges)"
    "map (\<lambda>ck. (c_start_page ck, c_end_page ck)) news = ranges"
    "\<forall>ck \<in> set news. c_job_id ck = jid \<and> c_status ck = ChunkPending"
    by blast
  then show ?case
    using ins key by (intro exI [of _ t'] exI [of _ "ck # news"]) (simp add: t1_def r)
qed simp

definition unknown_job :: "string \<Rightarrow> tables \<Rightarrow> bool" where
  "unknown_job jid t \<longleftrightarrow> list_all (\<lambda>j. j_job_id j \<noteq> jid) (jobs t) \<and> list_all (\<lambda>ck. c_job_id ck \<noteq> jid) (job_chunks t)"

lemma create_fresh:
  assumes "unknown_job jid t"
  shows "\<exists>t' news. apply_stmts (create_stmts ts jid dk fh url ranges llm) t = Inr t' \<and>
    jobs t' = jobs t @ [new_job_row ts jid dk fh url (int (length ranges)) llm] \<and>
    documents t' = documents t \<and> job_chunks t' = job_chunks t @ news \<and>
    map c_chunk_index news = map int [0..<length ranges] \<and>
    map (\<lambda>ck. (c_start_page ck, c_end_page ck)) news = ranges \<and>
    (\<forall>ck \<in> set news. c_job_id ck = jid \<and> c_status ck = ChunkPending)"
proof -
  define t1 where "t1 = t\<lparr>jobs := jobs t @ [new_job_row ts jid dk fh url (int (length ranges)) llm]\<rparr>"
  have ins: "(insert_job (new_job_row ts jid dk fh url (int (length ranges)) llm) :: (tables, unit) stmt) t
      = Inr (no_rows, Wrote 1, t1)"
    using assms by (auto simp: insert_job_def t1_def unknown_job_def list_ex_iff list_all_iff new_job_row_def)
  have "chunks_of jid t1 = []"
    using assms by (auto simp: chunks_of_def t1_def unknown_job_def list_all_iff filter_empty_conv)
  then have "\<And>ck. ck \<in> set (chunks_of jid t1) \<Longrightarrow> c_chunk_index ck < 0" by simp
  from insert_chunks [of jid t1 0 ts ranges, OF this] ins show ?thesis
    by (auto simp: create_stmts_def t1_def map_fst_py_enumerate comp_def)
qed

definition new_job_abs :: "nat \<Rightarrow> job_abs" where
  "new_job_abs n = \<lparr>a_status = Queued, a_remaining = int n, a_chunks = int ` {0..<n}, a_done = {}\<rparr>"

lemma create_fresh_view:
  assumes "unknown_job jid t" "apply_stmts (create_stmts ts jid dk fh url ranges llm) t = Inr t'"
  shows "job_view jid t' = Some (new_job_abs (length ranges))"
proof -
  from create_fresh [OF assms(1), of ts dk fh url ranges llm] assms(2) obtain news where
    js: "jobs t' = jobs t @ [new_job_row ts jid dk fh url (int (length ranges)) llm]"
    and cks: "job_chunks t' = job_chunks t @ news" and idx: "map c_chunk_index news = map int [0..<length ranges]"
    and new: "\<forall>ck \<in> set news. c_job_id ck = jid \<and> c_status ck = ChunkPending" by auto
  have none: "filter (\<lambda>j. j_job_id j = jid) (jobs t) = []" "filter (\<lambda>ck. c_job_id ck = jid) (job_chunks t) = []"
    using assms(1) by (auto simp: unknown_job_def list_all_iff filter_empty_conv)
  have "find_job jid t' = Some (new_job_row ts jid dk fh url (int (length ranges)) llm)"
    using none js by (simp add: find_job_def new_job_row_def)
  moreover have "chunks_of jid t' = news" using none cks new by (simp add: chunks_of_def)
  moreover have "c_chunk_index ` set news = int ` {0..<length ranges}"
    using arg_cong [OF idx, of set] by simp
  moreover have "{ck \<in> set news. c_status ck = ChunkDone} = {}" using new by auto
  ultimately show ?thesis by (simp add: job_view_def new_job_abs_def new_job_row_def)
qed

lemma consistent_new: "consistent (new_job_abs n)"
  by (simp add: consistent_def new_job_abs_def card_image)

text \<open>
  C5. When a job is created and then every one of its chunks is completed, in any order, with
  any number of repetitions and any other calls in between that do not fail or finish the job,
  exactly one of the completions is told to assemble.
\<close>

theorem exactly_one_assembler:
  assumes "ready t c" "tables_wf t" "unknown_job jid t" "ranges \<noteq> []"
    and "list_all (keeps_open jid) ops" "int ` {0..<length ranges} \<subseteq> completed_by jid ops"
  shows "\<exists>c1. create_job cfg ts jid dk fh url ranges llm c = (Inr (), c1) \<and>
    length (filter (told_to_assemble jid) (zip ops (fst (run_calls cfg ops c1)))) = 1"
proof -
  let ?sts = "create_stmts ts jid dk fh url ranges llm"
  obtain t' where t': "apply_stmts ?sts t = Inr t'" using create_fresh [OF assms(3)] by blast
  obtain c1 where c1: "create_job cfg ts jid dk fh url ranges llm c = (Inr (), c1)" "ready t' c1"
    using transaction_stmts_ready [of t c ?sts "job_env cfg"] assms(1) create_stmts_write t'
    by (auto simp: create_job_stmts)
  have wf: "tables_wf t'" using apply_stmts_keeps [of ?sts tables_wf t] create_stmts_wf assms(2) t' by blast
  have "a_status (new_job_abs n) = Queued" "a_done (new_job_abs n) = {}" "a_chunks (new_job_abs n) = int ` {0..<n}" for n
    by (simp_all add: new_job_abs_def)
  then have "length (filter (told_to_assemble jid) (zip ops (fst (run_calls cfg ops c1)))) = 1"
    using run_calls_assemble_count [OF c1(2) wf create_fresh_view [OF assms(3) t'] consistent_new _ assms(5), of cfg]
      assms(4,6) by simp
  then show ?thesis using c1(1) by blast
qed

subsection \<open>Properties and their witnesses\<close>

definition new_client :: "fault list \<Rightarrow> tables client" where
  "new_client faults = \<lparr>server = \<lparr>r_state = \<lparr>committed = no_tables, pending = None, last_changes = 0\<rparr>,
     r_faults = faults\<rparr>, connected = False, migrated = True\<rparr>"

lemma no_tables_wf: "tables_wf no_tables" "unknown_job jid no_tables"
  by (simp_all add: tables_wf_def no_tables_def unknown_job_def)

lemma new_client_ready: "ready no_tables (new_client [])"
  by (simp add: ready_def clean_def new_client_def)

lemma new_client_wf: "all_data tables_wf (new_client fs)"
  using no_tables_wf(1) by (simp add: all_data_def new_client_def visible_def)

theorem at_most_one_assembler_witness:
  "length (filter (told_to_assemble ''j'')
     (zip [CreateJob 1 ''j'' ''d'' ''f'' ''u'' [(0, 20), (20, 40)] False, CompleteChunk 2 ''j'' 0 ''k0'',
           CompleteChunk 3 ''j'' 1 ''k1'', CompleteChunk 4 ''j'' 1 ''k1'']
       (fst (run_calls default_settings
          [CreateJob 1 ''j'' ''d'' ''f'' ''u'' [(0, 20), (20, 40)] False, CompleteChunk 2 ''j'' 0 ''k0'',
           CompleteChunk 3 ''j'' 1 ''k1'', CompleteChunk 4 ''j'' 1 ''k1'']
          (new_client [Pass, Refuse (DbError ''OperationalError'' ''database is locked'')]))))) \<le> 1"
  by (rule at_most_one_assembler [OF new_client_wf])

theorem exactly_one_assembler_witness:
  "\<exists>c1. create_job default_settings 1 ''j'' ''d'' ''f'' ''u'' [(0, 20), (20, 40)] False (new_client []) = (Inr (), c1) \<and>
    length (filter (told_to_assemble ''j'')
      (zip [CompleteChunk 2 ''j'' 1 ''k1'', StartChunk 2 ''j'' 0 ''w'' 1, CompleteChunk 3 ''j'' 1 ''k1'', CompleteChunk 4 ''j'' 0 ''k0'']
        (fst (run_calls default_settings
          [CompleteChunk 2 ''j'' 1 ''k1'', StartChunk 2 ''j'' 0 ''w'' 1, CompleteChunk 3 ''j'' 1 ''k1'', CompleteChunk 4 ''j'' 0 ''k0''] c1)))) = 1"
proof (rule exactly_one_assembler [OF new_client_ready no_tables_wf])
  have "{0..<length [(0 :: int, 20 :: int), (20, 40)]} = {0, 1}" by auto
  then show "int ` {0..<length [(0 :: int, 20 :: int), (20, 40)]} \<subseteq> completed_by ''j''
     [CompleteChunk 2 ''j'' 1 ''k1'', StartChunk 2 ''j'' 0 ''w'' 1, CompleteChunk 3 ''j'' 1 ''k1'', CompleteChunk 4 ''j'' 0 ''k0'']"
    by (auto simp: completed_by_def)
qed simp_all

text \<open>
  C6. Each call of the job store implements its abstract counterpart on every job: the status
  machine, the counter and the set of finished chunks move exactly as \<open>abs_call\<close> says, and
  the table keys stay unique.
\<close>

theorem job_store_refines:
  assumes "ready t c" "tables_wf t" "job_view jid t = Some a"
  shows "\<exists>t'. ready t' (snd (run_call cfg op c)) \<and> tables_wf t' \<and> job_view jid t' = Some (abs_call jid op a)"
  using run_call_refines [OF assms] by (simp add: call_effect_def)

definition one_job :: tables where
  "one_job = no_tables\<lparr>jobs := [new_job_row 1 ''j'' ''d'' ''f'' ''u'' 1 False],
     job_chunks := [new_chunk_row 1 ''j'' (0, 0, -1) 1], next_chunk_id := 2\<rparr>"

definition one_job_client :: "tables client" where
  "one_job_client = \<lparr>server = \<lparr>r_state = \<lparr>committed = one_job, pending = None, last_changes = 0\<rparr>,
     r_faults = []\<rparr>, connected = True, migrated = True\<rparr>"

lemma one_job_facts:
  "ready one_job one_job_client" "tables_wf one_job" "job_view ''j'' one_job = Some (new_job_abs 1)"
proof -
  show "ready one_job one_job_client" by (simp add: ready_def clean_def one_job_client_def)
  show "tables_wf one_job" by (simp add: one_job_def no_tables_def tables_wf_def)
  show "job_view ''j'' one_job = Some (new_job_abs 1)"
    by (simp add: one_job_def no_tables_def job_view_def find_job_def chunks_of_def new_job_row_def
        new_chunk_row_def new_job_abs_def)
qed

theorem job_store_refines_witness:
  "\<exists>t'. ready t' (snd (run_call default_settings (FailJob 2 ''j'' ''boom'' None) one_job_client)) \<and>
    tables_wf t' \<and> job_view ''j'' t' = Some (new_job_abs 1\<lparr>a_status := Failed\<rparr>)"
  using job_store_refines [OF one_job_facts, of default_settings "FailJob 2 ''j'' ''boom'' None"]
  by (simp add: new_job_abs_def)

lemma costs_complete_block: "costs (complete_block ts jid i key)"
  unfolding complete_block_def
  by (intro costs_thenE costs_bindE costs_if costs_ret costs_execute costs_changes)
    (simp_all add: never_raises_def complete_chunk_stmt_def decrement_stmt_def update_chunks_def update_jobs_returning_def)

text \<open>
  C15. Whatever the database refuses or loses, a completion that returns has recorded the chunk
  and counted it down together. One that raises has committed both or neither, and when no more
  than one database call failed on the way, it leaves nothing of either pending on the
  connection, so that no later call can commit a half of it.
\<close>

theorem complete_chunk_atomic:
  assumes "clean t c" "complete_chunk cfg ts job_id index s3_key c = (r, c')"
  shows "case r of
      Inr n \<Rightarrow> n = fst (complete_pure ts job_id index s3_key t) \<and> clean (snd (complete_pure ts job_id index s3_key t)) c'
    | Inl e \<Rightarrow> db_data c' \<in> {t, snd (complete_pure ts job_id index s3_key t)} \<and>
        (db_failures c \<le> Suc (db_failures c') \<longrightarrow> pending (r_state (server c')) = None)"
  using complete_chunk_outcome [OF assms] transaction_pending [OF assms(1) costs_complete_block, of "job_env cfg"] assms(2)
  by (auto simp: complete_chunk_def split: sum.splits)

definition one_job_failing :: "fault list \<Rightarrow> tables client" where
  "one_job_failing fs = one_job_client\<lparr>server := (server one_job_client)\<lparr>r_faults := fs\<rparr>\<rparr>"

theorem complete_chunk_atomic_witness:
  "let (r, c') = complete_chunk default_settings 2 ''j'' 0 ''k''
         (one_job_failing [Pass, Pass, Pass, Refuse (OSError ''timed out'')]) in
   r = Inl (OSError ''timed out'') \<and> db_data c' \<in> {one_job, snd (complete_pure 2 ''j'' 0 ''k'' one_job)} \<and>
   pending (r_state (server c')) = None"
proof -
  let ?c = "one_job_failing [Pass, Pass, Pass, Refuse (OSError ''timed out'')]"
  obtain r c' where run: "complete_chunk default_settings 2 ''j'' 0 ''k'' ?c = (r, c')" by fastforce
  have "fst (complete_chunk default_settings 2 ''j'' 0 ''k'' ?c) = Inl (OSError ''timed out'')" by code_simp
  then have r: "r = Inl (OSError ''timed out'')" by (simp add: run)
  have "clean one_job ?c" using one_job_facts(1) by (simp add: ready_def clean_def one_job_failing_def)
  from complete_chunk_atomic [OF this run] have "db_data c' \<in> {one_job, snd (complete_pure 2 ''j'' 0 ''k'' one_job)} \<and>
      (db_failures ?c \<le> Suc (db_failures c') \<longrightarrow> pending (r_state (server c')) = None)" unfolding r sum.case .
  moreover have "db_failures ?c = 1" by (simp add: one_job_failing_def failures_def)
  ultimately show ?thesis unfolding run Let_def prod.case using r by simp
qed

text \<open>
  Two failures are enough to break it. When the update of the job is refused and the rollback is
  refused as well, the finished chunk stays pending on the connection; the next call on it, here
  for another job, commits it with the counter as it was. The counter then never reaches zero.
\<close>

lemma half_completion_is_committed_later:
  "let c = one_job_failing [Pass, Pass, Pass, Refuse (OSError ''timed out''), Refuse (OSError ''timed out'')];
       (r, c1) = complete_chunk default_settings 2 ''j'' 0 ''k'' c;
       c2 = snd (start_chunk default_settings 3 ''other'' 0 ''worker-1'' 1 c1) in
   r = Inl (OSError ''timed out'') \<and> db_data c1 = one_job \<and>
   job_view ''j'' (db_data c2) = Some \<lparr>a_status = Queued, a_remaining = 1, a_chunks = {0}, a_done = {0}\<rparr>"
  by code_simp

text \<open>
  C16. While a job is active its counter is the number of its chunks that are not done: every
  call keeps this, except marking an already finished chunk as failed.
\<close>

theorem counter_counts_open_chunks:
  assumes "ready t c" "tables_wf t" "job_view jid t = Some a" "consistent a"
    and "\<And>ts i err. op = FailChunk ts jid i err \<Longrightarrow> i \<notin> a_done a"
  shows "\<exists>t' a'. ready t' (snd (run_call cfg op c)) \<and> tables_wf t' \<and> job_view jid t' = Some a' \<and> consistent a'"
  using run_call_refines [OF assms(1-3), of op cfg] consistent_call [OF assms(4,5)]
  by (auto simp: call_effect_def)

theorem counter_counts_open_chunks_witness:
  "\<exists>t' a'. ready t' (snd (run_call default_settings (CompleteChunk 2 ''j'' 0 ''k'') one_job_client)) \<and>
    tables_wf t' \<and> job_view ''j'' t' = Some a' \<and> consistent a'"
  by (rule counter_counts_open_chunks [OF one_job_facts consistent_new]) simp

text \<open>
  C40. Marking a finished chunk as failed makes it count twice: on a fresh job with two chunks,
  complete the first, fail it, complete it again. The second completion is told to assemble
  although the other chunk was never converted.
\<close>

theorem failed_done_chunk_counts_twice:
  assumes "ready t c" "tables_wf t" "job_view jid t = Some (new_job_abs 2)"
  shows "\<exists>r1 r2 t' c'. run_calls cfg [CompleteChunk 2 jid 0 k, FailChunk 3 jid 0 err, CompleteChunk 4 jid 0 k] c
      = ([r1, r2, Inr (Some 0)], c') \<and> ready t' c' \<and>
    job_view jid t' = Some \<lparr>a_status = Running, a_remaining = 0, a_chunks = {0, 1}, a_done = {0}\<rparr>"
proof -
  have new: "new_job_abs 2 = \<lparr>a_status = Queued, a_remaining = 2, a_chunks = {0, 1}, a_done = {}\<rparr>"
    by (auto simp: new_job_abs_def lessThan_Suc atLeast0LessThan numeral_2_eq_2)
  obtain r1 c1 where r1: "run_call cfg (CompleteChunk 2 jid 0 k) c = (r1, c1)" by fastforce
  obtain t1 where t1: "ready t1 c1" "tables_wf t1"
    "job_view jid t1 = Some \<lparr>a_status = Running, a_remaining = 1, a_chunks = {0, 1}, a_done = {0}\<rparr>"
    using run_call_refines [OF assms, of "CompleteChunk 2 jid 0 k" cfg] r1
    by (auto simp: call_effect_def new abs_complete_def)
  obtain r2 c2 where r2: "run_call cfg (FailChunk 3 jid 0 err) c1 = (r2, c2)" by fastforce
  obtain t2 where t2: "ready t2 c2" "tables_wf t2"
    "job_view jid t2 = Some \<lparr>a_status = Running, a_remaining = 1, a_chunks = {0, 1}, a_done = {}\<rparr>"
    using run_call_refines [OF t1, of "FailChunk 3 jid 0 err" cfg] r2 by (auto simp: call_effect_def)
  obtain c3 where r3: "run_call cfg (CompleteChunk 4 jid 0 k) c2 = (Inr (Some 0), c3)"
    using complete_call_effect(2) [OF t2, of cfg 4 0 k] by (auto simp: abs_complete_def prod_eq_iff)
  obtain t3 where "ready t3 c3"
    "job_view jid t3 = Some \<lparr>a_status = Running, a_remaining = 0, a_chunks = {0, 1}, a_done = {0}\<rparr>"
    using run_call_refines [OF t2, of "CompleteChunk 4 jid 0 k" cfg] r3
    by (auto simp: call_effect_def abs_complete_def)
  with r1 r2 r3 show ?thesis by auto
qed

definition two_chunks :: tables where
  "two_chunks = no_tables\<lparr>jobs := [new_job_row 1 ''j'' ''d'' ''f'' ''u'' 2 False],
     job_chunks := [new_chunk_row 1 ''j'' (0, 0, 20) 1, new_chunk_row 1 ''j'' (1, 20, 40) 2], next_chunk_id := 3\<rparr>"

definition two_chunks_client :: "tables client" where
  "two_chunks_client = \<lparr>server = \<lparr>r_state = \<lparr>committed = two_chunks, pending = None, last_changes = 0\<rparr>,
     r_faults = []\<rparr>, connected = True, migrated = True\<rparr>"

lemma two_chunks_facts:
  "ready two_chunks two_chunks_client" "tables_wf two_chunks" "job_view ''j'' two_chunks = Some (new_job_abs 2)"
proof -
  show "ready two_chunks two_chunks_client" by (simp add: ready_def clean_def two_chunks_client_def)
  show "tables_wf two_chunks" by (simp add: two_chunks_def no_tables_def tables_wf_def chunk_key_def new_chunk_row_def)
  show "job_view ''j'' two_chunks = Some (new_job_abs 2)"
    by (auto simp: two_chunks_def no_tables_def job_view_def find_job_def chunks_of_def new_job_row_def
        new_chunk_row_def new_job_abs_def lessThan_Suc atLeast0LessThan numeral_2_eq_2)
qed

theorem failed_done_chunk_counts_twice_witness:
  "\<exists>r1 r2 t' c'. run_calls default_settings
      [CompleteChunk 2 ''j'' 0 ''k'', FailChunk 3 ''j'' 0 ''e'', CompleteChunk 4 ''j'' 0 ''k''] two_chunks_client
      = ([r1, r2, Inr (Some 0)], c') \<and> ready t' c' \<and>
    job_view ''j'' t' = Some \<lparr>a_status = Running, a_remaining = 0, a_chunks = {0, 1}, a_done = {0}\<rparr>"
  by (rule failed_done_chunk_counts_twice [OF two_chunks_facts])

text \<open>
  C31. The single statements may be sent twice by the reconnect and may lose their reply: the
  data afterwards is as before or as after one run, and a call that returns has run once.
\<close>

theorem single_statement_once:
  assumes "st \<in> {finish_job_stmt ts j, fail_job_stmt ts j err ci, start_job_stmt ts j,
      start_chunk_stmt ts j i owner att, fail_chunk_stmt ts j i err, reschedule_chunk_stmt ts j i err,
      replace_document r}"
    and "clean t c" "execute (job_env cfg) st c = (res, c')"
  shows "db_data c' \<in> {t, after st t} \<and> ((\<exists>rows. res = Inr rows) \<longrightarrow> clean (after st t) c')"
proof -
  have "is_write st" "idempotent st" using assms(1) by auto
  from execute_idempotent [OF this assms(2,3)] show ?thesis by blast
qed

theorem single_statement_once_witness:
  "let (res, c') = execute (job_env default_settings) (finish_job_stmt 5 ''j'') one_job_client in
   db_data c' \<in> {one_job, after (finish_job_stmt 5 ''j'') one_job} \<and>
   ((\<exists>rows. res = Inr rows) \<longrightarrow> clean (after (finish_job_stmt 5 ''j'') one_job) c')"
proof -
  have c: "clean one_job one_job_client" using one_job_facts(1) by (simp add: ready_def)
  obtain res c' where run: "execute (job_env default_settings) (finish_job_stmt 5 ''j'') one_job_client = (res, c')"
    by fastforce
  have mem: "finish_job_stmt 5 ''j'' \<in> {finish_job_stmt 5 ''j'', fail_job_stmt 5 ''j'' [] None, start_job_stmt 5 ''j'',
      start_chunk_stmt 5 ''j'' 0 [] 1, fail_chunk_stmt 5 ''j'' 0 [], reschedule_chunk_stmt 5 ''j'' 0 [],
      replace_document (document_of default_settings 5 [] [] 0 0 0 0)}" by simp
  from single_statement_once [OF mem c run] show ?thesis
    unfolding run Let_def prod.case .
qed




text \<open>A creation that returns has committed its rows, whatever failed on the way.\<close>

lemma create_job_rows:
  assumes "create_job cfg ts jid dk fh url ranges llm c = (Inr u, c')"
  shows "\<exists>d. apply_stmts (create_stmts ts jid dk fh url ranges llm) d = Inr (db_data c')"
proof -
  from assms obtain c1 c2 where "exec_all (create_stmts ts jid dk fh url ranges llm) c1 = (Inr u, c2)"
    "db_data c' = db_visible c2"
    using transaction_ok [of "job_env cfg" "exec_all (create_stmts ts jid dk fh url ranges llm)" c u c']
    by (auto simp: create_job_stmts)
  with exec_all_ok create_stmts_write show ?thesis by metis
qed

lemma apply_inserts:
  assumes "apply_stmts (map (\<lambda>chunk. insert_chunk (new_chunk_row ts jid chunk) :: (tables, unit) stmt) chunks) t = Inr t'"
  shows "jobs t' = jobs t \<and> set (job_chunks t) \<subseteq> set (job_chunks t') \<and>
    (\<forall>chunk \<in> set chunks. \<exists>n. new_chunk_row ts jid chunk n \<in> set (job_chunks t'))"
  using assms
proof (induction chunks arbitrary: t)
  case (Cons chunk chunks)
  let ?ck = "new_chunk_row ts jid chunk (next_chunk_id t)"
  let ?t1 = "t\<lparr>job_chunks := job_chunks t @ [?ck], next_chunk_id := next_chunk_id t + 1\<rparr>"
  have "(\<exists>e. (insert_chunk (new_chunk_row ts jid chunk) :: (tables, unit) stmt) t = Inl e) \<or>
      (insert_chunk (new_chunk_row ts jid chunk) :: (tables, unit) stmt) t = Inr (no_rows, Wrote 1, ?t1)"
    by (simp add: insert_chunk_def Let_def)
  with Cons.prems have "apply_stmts (map (\<lambda>chunk. insert_chunk (new_chunk_row ts jid chunk) :: (tables, unit) stmt) chunks) ?t1 = Inr t'"
    by auto
  from Cons.IH [OF this] show ?case by auto
qed simp

lemma create_stmts_rows:
  assumes "apply_stmts (create_stmts ts jid dk fh url ranges llm) d = Inr t"
  shows "new_job_row ts jid dk fh url (int (length ranges)) llm \<in> set (jobs t)"
    "\<And>chunk. chunk \<in> set (py_enumerate 0 ranges) \<Longrightarrow> \<exists>n. new_chunk_row ts jid chunk n \<in> set (job_chunks t)"
proof -
  let ?j = "new_job_row ts jid dk fh url (int (length ranges)) llm"
  have rest: "apply_stmts (map (\<lambda>chunk. insert_chunk (new_chunk_row ts jid chunk) :: (tables, unit) stmt) (py_enumerate 0 ranges))
      (d\<lparr>jobs := jobs d @ [?j]\<rparr>) = Inr t"
    using assms by (auto simp: create_stmts_def insert_job_def split: if_splits)
  show "?j \<in> set (jobs t)" using apply_inserts [OF rest] by simp
  show "\<exists>n. new_chunk_row ts jid chunk n \<in> set (job_chunks t)" if "chunk \<in> set (py_enumerate 0 ranges)" for chunk
    using apply_inserts [OF rest] that by blast
qed

end
