(* ===== verification/Taskqueue.thy ===== *)
theory Taskqueue
  imports Json Settings Remote "HOL-Library.Sublist"
begin

section \<open>taskqueue.py: messages, topology and publishing\<close>

text \<open>
  Chunk tasks and their JSON encoding, the declared exchanges and queues as data, and
  publishing with one reconnect. The broker and its client library are not part of the
  repository: they are the record \<open>amqp_api\<close> of the calls the source makes, and the locale
  \<open>message_broker\<close> states what publishing relies on. The consumer loop is in \<^theory_text>\<open>Worker\<close>, where
  its handler is. Every message is published persistent and with the JSON content type, every
  exchange and queue is declared durable, and nothing in the program depends on a broker restart:
  these constant flags are left out.
\<close>

subsection \<open>Chunk tasks\<close>

record chunk_task =
  t_job_id :: string
  t_chunk_index :: int
  t_doc_key :: string
  t_file_hash :: string
  t_start_page :: int
  t_end_page :: int
  t_total_chunks :: int
  t_use_llm :: bool
  t_attempt :: int

definition task_fields :: "chunk_task \<Rightarrow> (pytext \<times> json) list" where
  "task_fields t =
     [(codes ''job_id'', JStr (codes (t_job_id t))),
      (codes ''chunk_index'', JInt (t_chunk_index t)),
      (codes ''doc_key'', JStr (codes (t_doc_key t))),
      (codes ''file_hash'', JStr (codes (t_file_hash t))),
      (codes ''start_page'', JInt (t_start_page t)),
      (codes ''end_page'', JInt (t_end_page t)),
      (codes ''total_chunks'', JInt (t_total_chunks t)),
      (codes ''use_llm'', JBool (t_use_llm t)),
      (codes ''attempt'', JInt (t_attempt t))]"

definition to_bytes :: "chunk_task \<Rightarrow> exn + bytes" where
  "to_bytes t = json_dumps (JObj (task_fields t))"

text \<open>
  \<^verbatim>\<open>cls(**json.loads(raw))\<close>: every field but \<^verbatim>\<open>attempt\<close> is required, an unknown key or a value
  that is not an object raises. The dataclass does not check the types of its fields. A message
  with the right names whose values are not of the types the producer writes is outside the
  model: \<open>ill_typed\<close> says which those are, and what is shown of deliveries is shown for the others.
\<close>

definition required_fields :: "string list" where
  "required_fields =
     [''job_id'', ''chunk_index'', ''doc_key'', ''file_hash'', ''start_page'', ''end_page'',
      ''total_chunks'', ''use_llm'']"

definition task_of_fields :: "(pytext \<times> json) list \<Rightarrow> chunk_task option" where
  "task_of_fields kvs =
     (if list_all (\<lambda>(k, v). k \<in> set (map codes (required_fields @ [''attempt'']))) kvs then
        (case (json_get ''job_id'' kvs, json_get ''chunk_index'' kvs, json_get ''doc_key'' kvs,
               json_get ''file_hash'' kvs, json_get ''start_page'' kvs, json_get ''end_page'' kvs,
               json_get ''total_chunks'' kvs, json_get ''use_llm'' kvs,
               case json_get ''attempt'' kvs of None \<Rightarrow> Some (JInt 1) | Some a \<Rightarrow> Some a) of
           (Some (JStr j), Some (JInt i), Some (JStr d), Some (JStr f), Some (JInt s), Some (JInt e),
            Some (JInt n), Some (JBool u), Some (JInt a)) \<Rightarrow>
             (case (chars j, chars d, chars f) of
                (Some j', Some d', Some f') \<Rightarrow>
                  Some \<lparr>t_job_id = j', t_chunk_index = i, t_doc_key = d', t_file_hash = f', t_start_page = s,
                        t_end_page = e, t_total_chunks = n, t_use_llm = u, t_attempt = a\<rparr>
              | _ \<Rightarrow> None)
         | _ \<Rightarrow> None)
      else None)"

definition from_bytes :: "bytes \<Rightarrow> exn + chunk_task" where
  "from_bytes raw =
     sbind (json_loads raw) (\<lambda>j.
       case j of
         JObj kvs \<Rightarrow>
           (case task_of_fields kvs of
              None \<Rightarrow> Inl (TypeError ''ChunkTask.__init__()'')
            | Some t \<Rightarrow> Inr t)
       | _ \<Rightarrow> Inl (TypeError ''argument after ** must be a mapping''))"

definition ill_typed :: "bytes \<Rightarrow> bool" where
  "ill_typed raw \<longleftrightarrow>
     (case json_loads raw of
        Inr (JObj kvs) \<Rightarrow>
          list_all (\<lambda>(k, v). k \<in> set (map codes (required_fields @ [''attempt'']))) kvs \<and>
          list_all (\<lambda>name. json_get name kvs \<noteq> None) required_fields \<and> task_of_fields kvs = None
      | _ \<Rightarrow> False)"

definition next_attempt :: "chunk_task \<Rightarrow> chunk_task" where
  "next_attempt t = t\<lparr>t_attempt := t_attempt t + 1\<rparr>"

subsection \<open>Topology\<close>

definition RETRY_EXCHANGE :: "settings \<Rightarrow> string" where
  "RETRY_EXCHANGE cfg = RABBITMQ_EXCHANGE cfg @ ''.retry''"

definition DLX_EXCHANGE :: "settings \<Rightarrow> string" where
  "DLX_EXCHANGE cfg = RABBITMQ_EXCHANGE cfg @ ''.dlx''"

definition FAILED_QUEUE :: "settings \<Rightarrow> string" where
  "FAILED_QUEUE cfg = RABBITMQ_QUEUE cfg @ ''.failed''"

definition tier_queue :: "settings \<Rightarrow> int \<Rightarrow> string" where
  "tier_queue cfg tier = RABBITMQ_QUEUE cfg @ ''.retry.'' @ show_int tier"

definition retry_queue_name :: "settings \<Rightarrow> int \<Rightarrow> string" where
  "retry_queue_name cfg att = tier_queue cfg (min att (int (length (RETRY_DELAYS cfg))))"

record queue_args =
  message_ttl :: "int option"
  dead_letter_exchange :: "string option"
  dead_letter_key :: "string option"

datatype topology_item =
    Exchange string
  | Queue string queue_args
  | Bind string string string   \<comment> \<open>queue, exchange, routing key\<close>

definition retry_topology :: "settings \<Rightarrow> int \<times> int \<Rightarrow> topology_item list" where
  "retry_topology cfg = (\<lambda>(tier, delay).
     [Queue (tier_queue cfg tier)
        \<lparr>message_ttl = Some (delay * 1000), dead_letter_exchange = Some (RABBITMQ_EXCHANGE cfg),
         dead_letter_key = Some (RABBITMQ_QUEUE cfg)\<rparr>,
      Bind (tier_queue cfg tier) (RETRY_EXCHANGE cfg) (tier_queue cfg tier)])"

definition topology :: "settings \<Rightarrow> topology_item list" where
  "topology cfg =
     [Exchange (RABBITMQ_EXCHANGE cfg), Exchange (RETRY_EXCHANGE cfg), Exchange (DLX_EXCHANGE cfg),
      Queue (RABBITMQ_QUEUE cfg)
        \<lparr>message_ttl = None, dead_letter_exchange = Some (DLX_EXCHANGE cfg), dead_letter_key = None\<rparr>,
      Bind (RABBITMQ_QUEUE cfg) (RABBITMQ_EXCHANGE cfg) (RABBITMQ_QUEUE cfg)]
     @ concat (map (retry_topology cfg) (py_enumerate 1 (RETRY_DELAYS cfg)))
     @ [Queue (FAILED_QUEUE cfg) \<lparr>message_ttl = None, dead_letter_exchange = None, dead_letter_key = None\<rparr>,
        Bind (FAILED_QUEUE cfg) (DLX_EXCHANGE cfg) (RABBITMQ_QUEUE cfg)]"

text \<open>A direct exchange delivers to the queues bound with exactly the routing key.\<close>

definition routes_to :: "topology_item list \<Rightarrow> string \<Rightarrow> string \<Rightarrow> string list" where
  "routes_to ds exchange key =
     concat (map (\<lambda>d. case d of Bind q e k \<Rightarrow> if e = exchange \<and> k = key then [q] else [] | _ \<Rightarrow> []) ds)"

subsection \<open>Connections\<close>

record 's amqp_api =
  open_connection :: "('s, unit) io"
  is_open :: "'s \<Rightarrow> bool"
  open_channel :: "('s, unit) io"
  declare_one :: "topology_item \<Rightarrow> ('s, unit) io"
  basic_publish :: "string \<Rightarrow> string \<Rightarrow> bytes \<Rightarrow> ('s, unit) io"
  close_socket :: "('s, unit) io"
  basic_qos :: "int \<Rightarrow> ('s, unit) io"
  next_delivery :: "('s, (int \<times> bytes) option) io"   \<comment> \<open>None: inactivity timeout\<close>
  basic_ack :: "int \<Rightarrow> ('s, unit) io"
  cancel_consumer :: "('s, unit) io"
  message_count :: "('s, int) io"

record 's mq =
  broker :: 's
  has_connection :: bool   \<comment> \<open>\<^verbatim>\<open>_local.connection is not None\<close>\<close>
  has_channel :: bool      \<comment> \<open>\<^verbatim>\<open>_local.channel is not None\<close>\<close>

definition on_broker :: "('s, 'a) io \<Rightarrow> ('s mq, 'a) io" where
  "on_broker f m = (case f (broker m) of (r, b) \<Rightarrow> (r, m\<lparr>broker := b\<rparr>))"

definition declare_topology :: "settings \<Rightarrow> 's amqp_api \<Rightarrow> ('s mq, unit) io" where
  "declare_topology cfg Q = foreachE (topology cfg) (\<lambda>d. on_broker (declare_one Q d))"

definition connect :: "settings \<Rightarrow> 's amqp_api \<Rightarrow> ('s mq, unit) io" where
  "connect cfg Q m =
     (if has_connection m \<and> is_open Q (broker m) then ret () m
      else thenE (on_broker (open_connection Q))
            (thenE (\<lambda>m. (Inr (), m\<lparr>has_connection := True\<rparr>))
              (thenE (on_broker (open_channel Q))
                (thenE (\<lambda>m. (Inr (), m\<lparr>has_channel := True\<rparr>))
                  (declare_topology cfg Q)))) m)"

text \<open>\<^verbatim>\<open>channel()\<close>; a call on a channel that was never opened raises.\<close>

definition channel :: "settings \<Rightarrow> 's amqp_api \<Rightarrow> ('s mq, unit) io" where
  "channel cfg Q = connect cfg Q"

definition on_channel :: "('s, 'a) io \<Rightarrow> ('s mq, 'a) io" where
  "on_channel f m =
     (if has_channel m then on_broker f m
      else throw (OtherError ''AttributeError'' ''NoneType'') m)"

definition close_mq :: "'s amqp_api \<Rightarrow> ('s mq, unit) io" where
  "close_mq Q m =
     thenE (if has_connection m \<and> is_open Q (broker m)
            then catch (on_broker (close_socket Q)) (\<lambda>_. ret ()) else ret ())
       (\<lambda>m. (Inr (), m\<lparr>has_connection := False, has_channel := False\<rparr>)) m"

subsection \<open>Publishing\<close>

definition is_amqp_error :: "exn \<Rightarrow> bool" where
  "is_amqp_error e = (case e of AMQPError c msg \<Rightarrow> True | _ \<Rightarrow> False)"

definition publish_bodies ::
  "settings \<Rightarrow> 's amqp_api \<Rightarrow> string \<Rightarrow> string \<Rightarrow> bytes list \<Rightarrow> ('s mq, unit) io" where
  "publish_bodies cfg Q exchange key bodies =
     thenE (channel cfg Q)
       (foreachE bodies (\<lambda>body. on_channel (basic_publish Q exchange key body)))"

definition publish_raw ::
  "settings \<Rightarrow> 's amqp_api \<Rightarrow> string \<Rightarrow> string \<Rightarrow> bytes list \<Rightarrow> ('s mq, unit) io" where
  "publish_raw cfg Q exchange key bodies =
     catch (publish_bodies cfg Q exchange key bodies)
       (\<lambda>e. if is_amqp_error e
            then thenE (close_mq Q) (publish_bodies cfg Q exchange key bodies)
            else throw e)"

definition lift_result :: "exn + 'a \<Rightarrow> ('s, 'a) io" where
  "lift_result r = (case r of Inl e \<Rightarrow> throw e | Inr x \<Rightarrow> ret x)"

definition publish :: "settings \<Rightarrow> 's amqp_api \<Rightarrow> chunk_task list \<Rightarrow> ('s mq, unit) io" where
  "publish cfg Q tasks =
     bindE (lift_result (smap to_bytes tasks))
       (publish_raw cfg Q (RABBITMQ_EXCHANGE cfg) (RABBITMQ_QUEUE cfg))"

definition publish_retry :: "settings \<Rightarrow> 's amqp_api \<Rightarrow> chunk_task \<Rightarrow> ('s mq, unit) io" where
  "publish_retry cfg Q t =
     bindE (lift_result (to_bytes (next_attempt t)))
       (\<lambda>b. publish_raw cfg Q (RETRY_EXCHANGE cfg) (retry_queue_name cfg (t_attempt t)) [b])"

definition failed_body :: "chunk_task \<Rightarrow> string \<Rightarrow> exn + bytes" where
  "failed_body t error =
     json_dumps (JObj (task_fields t @ [(codes ''error'', JStr (codes (take 2000 error)))]))"

definition publish_failed :: "settings \<Rightarrow> 's amqp_api \<Rightarrow> chunk_task \<Rightarrow> string \<Rightarrow> ('s mq, unit) io" where
  "publish_failed cfg Q t error =
     bindE (lift_result (failed_body t error))
       (\<lambda>b. publish_raw cfg Q (DLX_EXCHANGE cfg) (RABBITMQ_QUEUE cfg) [b])"

definition queue_depth :: "settings \<Rightarrow> 's amqp_api \<Rightarrow> ('s mq, int option) io" where
  "queue_depth cfg Q =
     catch (thenE (channel cfg Q) (bindE (on_channel (message_count Q)) (\<lambda>n. ret (Some n))))
       (\<lambda>_. ret None)"

definition mq_health :: "settings \<Rightarrow> 's amqp_api \<Rightarrow> ('s mq, bool) io" where
  "mq_health cfg Q =
     catch (thenE (connect cfg Q) (\<lambda>m. (Inr (is_open Q (broker m)), m))) (\<lambda>_. ret False)"

subsection \<open>Tasks survive the queue\<close>

lemma required_codes [simp]: "map codes (required_fields @ [''attempt'']) =
  [codes ''job_id'', codes ''chunk_index'', codes ''doc_key'', codes ''file_hash'', codes ''start_page'',
   codes ''end_page'', codes ''total_chunks'', codes ''use_llm'', codes ''attempt'']"
  by (simp add: required_fields_def)

lemma task_of_fields_id: "task_of_fields (task_fields t) = Some t"
  unfolding task_of_fields_def required_codes by (simp add: task_fields_def json_get_def)

lemma task_fields_flat: "flat_ok (task_fields t)"
  by (simp add: flat_ok_def task_fields_def codes_encodable)

lemma to_bytes_from_bytes: "\<exists>b. to_bytes t = Inr b \<and> from_bytes b = Inr t"
  using json_round_trip [OF task_fields_flat [of t]]
  by (auto simp: to_bytes_def from_bytes_def task_of_fields_id)

lemma to_bytes_all: "\<exists>bs. smap to_bytes ts = Inr bs \<and> map from_bytes bs = map Inr ts"
proof (induction ts)
  case (Cons t ts)
  then obtain bs b where "smap to_bytes ts = Inr bs" "map from_bytes bs = map Inr ts"
    "to_bytes t = Inr b" "from_bytes b = Inr t" using to_bytes_from_bytes [of t] by blast
  then show ?case by (intro exI [of _ "b # bs"]) simp
qed simp

lemma failed_body_refused: "\<exists>b. failed_body t err = Inr b \<and> (\<exists>m. from_bytes b = Inl (TypeError m))"
proof -
  let ?kvs = "task_fields t @ [(codes ''error'', JStr (codes (take 2000 err)))]"
  have "flat_ok ?kvs" using task_fields_flat [of t] by (simp add: flat_ok_def codes_encodable)
  moreover have "task_of_fields ?kvs = None"
    unfolding task_of_fields_def required_codes by (simp add: task_fields_def)
  ultimately show ?thesis
    using json_round_trip [of ?kvs] by (auto simp: failed_body_def from_bytes_def)
qed

text \<open>
  C20. A task published to the queue is the task a worker reads from it, and a message parked
  with its error text on the failed queue is never read as a task.
\<close>

theorem task_round_trip:
  "(\<exists>b. to_bytes t = Inr b \<and> from_bytes b = Inr t) \<and>
   (\<exists>b. failed_body t err = Inr b \<and> (\<exists>m. from_bytes b = Inl (TypeError m)))"
  using to_bytes_from_bytes failed_body_refused by blast

subsection \<open>Where messages go\<close>

lemma routes_to_append: "routes_to (a @ b) e k = routes_to a e k @ routes_to b e k"
  by (simp add: routes_to_def)

lemma tier_queue_inject [simp]: "tier_queue cfg i = tier_queue cfg j \<longleftrightarrow> i = j"
  by (simp add: tier_queue_def)

lemma exchanges_distinct [simp]:
  "RETRY_EXCHANGE cfg \<noteq> RABBITMQ_EXCHANGE cfg" "RABBITMQ_EXCHANGE cfg \<noteq> RETRY_EXCHANGE cfg"
  "DLX_EXCHANGE cfg \<noteq> RABBITMQ_EXCHANGE cfg" "RABBITMQ_EXCHANGE cfg \<noteq> DLX_EXCHANGE cfg"
  "RETRY_EXCHANGE cfg \<noteq> DLX_EXCHANGE cfg" "DLX_EXCHANGE cfg \<noteq> RETRY_EXCHANGE cfg"
  by (auto simp: RETRY_EXCHANGE_def DLX_EXCHANGE_def)

lemma routes_retry_tiers:
  "routes_to (concat (map (retry_topology cfg) (py_enumerate n delays))) (RETRY_EXCHANGE cfg) (tier_queue cfg i)
     = (if n \<le> i \<and> i < n + int (length delays) then [tier_queue cfg i] else [])"
  by (induction delays arbitrary: n) (auto simp: routes_to_def retry_topology_def)

lemma routes_retry_other:
  "e \<noteq> RETRY_EXCHANGE cfg \<Longrightarrow>
   routes_to (concat (map (retry_topology cfg) (py_enumerate n delays))) e k = []"
  by (induction delays arbitrary: n) (auto simp: routes_to_def retry_topology_def)

lemma routes_retry:
  "routes_to (topology cfg) (RETRY_EXCHANGE cfg) (tier_queue cfg i)
     = (if 1 \<le> i \<and> i \<le> int (length (RETRY_DELAYS cfg)) then [tier_queue cfg i] else [])"
  unfolding topology_def routes_to_append routes_retry_tiers
  by (auto simp: routes_to_def)

lemma routes_work: "routes_to (topology cfg) (RABBITMQ_EXCHANGE cfg) (RABBITMQ_QUEUE cfg) = [RABBITMQ_QUEUE cfg]"
  unfolding topology_def routes_to_append by (simp add: routes_retry_other) (simp add: routes_to_def)

lemma routes_failed: "routes_to (topology cfg) (DLX_EXCHANGE cfg) (RABBITMQ_QUEUE cfg) = [FAILED_QUEUE cfg]"
  unfolding topology_def routes_to_append by (simp add: routes_retry_other) (simp add: routes_to_def)

lemma retry_queue_declared:
  assumes "1 \<le> i" "i \<le> int (length (RETRY_DELAYS cfg))"
  shows "Queue (tier_queue cfg i)
      \<lparr>message_ttl = Some (RETRY_DELAYS cfg ! nat (i - 1) * 1000), dead_letter_exchange = Some (RABBITMQ_EXCHANGE cfg),
       dead_letter_key = Some (RABBITMQ_QUEUE cfg)\<rparr> \<in> set (topology cfg)"
proof -
  have "(i, RETRY_DELAYS cfg ! nat (i - 1)) \<in> set (py_enumerate 1 (RETRY_DELAYS cfg))"
    using assms by (simp add: in_py_enumerate_iff)
  then show ?thesis by (force simp: topology_def retry_topology_def)
qed

text \<open>
  C21. With at least one delay configured, a retry of any attempt goes to exactly one declared
  queue: the tier of the attempt, or the last one. That queue holds it for the tier's delay
  and then dead-letters it to the work queue, to which published tasks go as well; parked
  messages go to the failed queue.
\<close>

theorem retry_returns_to_work_queue:
  assumes "1 \<le> att" "RETRY_DELAYS cfg \<noteq> []"
  shows "let i = min att (int (length (RETRY_DELAYS cfg))); q = retry_queue_name cfg att in
    routes_to (topology cfg) (RETRY_EXCHANGE cfg) q = [q] \<and>
    Queue q \<lparr>message_ttl = Some (RETRY_DELAYS cfg ! nat (i - 1) * 1000),
       dead_letter_exchange = Some (RABBITMQ_EXCHANGE cfg), dead_letter_key = Some (RABBITMQ_QUEUE cfg)\<rparr>
      \<in> set (topology cfg) \<and>
    routes_to (topology cfg) (RABBITMQ_EXCHANGE cfg) (RABBITMQ_QUEUE cfg) = [RABBITMQ_QUEUE cfg] \<and>
    routes_to (topology cfg) (DLX_EXCHANGE cfg) (RABBITMQ_QUEUE cfg) = [FAILED_QUEUE cfg]"
proof -
  define i where "i = min att (int (length (RETRY_DELAYS cfg)))"
  have i: "1 \<le> i" "i \<le> int (length (RETRY_DELAYS cfg))"
    using assms by (auto simp: i_def) (metis One_nat_def Suc_leI length_greater_0_conv of_nat_1 of_nat_mono)
  have "retry_queue_name cfg att = tier_queue cfg i" by (simp add: retry_queue_name_def i_def)
  with i retry_queue_declared [OF i] show ?thesis
    by (simp add: Let_def i_def [symmetric] routes_retry routes_work routes_failed)
qed

theorem retry_returns_to_work_queue_witness:
  "let i = min 5 (int (length (RETRY_DELAYS default_settings))); q = retry_queue_name default_settings 5 in
    routes_to (topology default_settings) (RETRY_EXCHANGE default_settings) q = [q] \<and>
    Queue q \<lparr>message_ttl = Some (RETRY_DELAYS default_settings ! nat (i - 1) * 1000),
       dead_letter_exchange = Some (RABBITMQ_EXCHANGE default_settings),
       dead_letter_key = Some (RABBITMQ_QUEUE default_settings)\<rparr> \<in> set (topology default_settings) \<and>
    routes_to (topology default_settings) (RABBITMQ_EXCHANGE default_settings) (RABBITMQ_QUEUE default_settings)
      = [RABBITMQ_QUEUE default_settings] \<and>
    routes_to (topology default_settings) (DLX_EXCHANGE default_settings) (RABBITMQ_QUEUE default_settings)
      = [FAILED_QUEUE default_settings]"
  by (rule retry_returns_to_work_queue) (simp_all add: default_settings_def)

text \<open>
  Without configured delays a retry is routed nowhere: the retry queue name is not bound, so a
  direct exchange drops the message and the chunk is never attempted again.
\<close>

lemma retry_without_delays_is_dropped:
  "1 \<le> att \<Longrightarrow>
   routes_to (topology cfg) (RETRY_EXCHANGE cfg) (retry_queue_name cfg att) = [] \<longleftrightarrow> RETRY_DELAYS cfg = []"
  by (cases "RETRY_DELAYS cfg") (auto simp: retry_queue_name_def routes_retry)

subsection \<open>What publishing relies on\<close>

lemma close_mq_returns: "\<exists>m'. close_mq Q m = (Inr (), m')"
proof -
  have "\<exists>m1. catch (on_broker (close_socket Q)) (\<lambda>_. ret ()) m = (Inr (), m1)"
    by (auto simp: catch_def ret_def split: prod.split sum.split)
  then show ?thesis by (auto simp: close_mq_def thenE_run ret_def)
qed

text \<open>
  \<open>sent\<close> is the sequence of messages this process has written to its connections. A
  \<^verbatim>\<open>basic_publish\<close> that returns has written its message; one that raises has written it or not;
  no other call writes one. The source does not enable publisher confirms, so that a message is
  sent says nothing about what the broker then does with it.
\<close>

type_synonym message = "string \<times> string \<times> bytes"   \<comment> \<open>exchange, routing key, body\<close>

locale message_broker =
  fixes Q :: "'s amqp_api"
    and sent :: "'s \<Rightarrow> message list"
  assumes publish_ok: "basic_publish Q e k b s = (Inr u, s') \<Longrightarrow> sent s' = sent s @ [(e, k, b)]"
    and publish_raise: "basic_publish Q e k b s = (Inl x, s') \<Longrightarrow> sent s' = sent s \<or> sent s' = sent s @ [(e, k, b)]"
    and sent_open: "sent (snd (open_connection Q s)) = sent s" "sent (snd (open_channel Q s)) = sent s"
    and sent_declare: "sent (snd (declare_one Q d s)) = sent s"
    and sent_close: "sent (snd (close_socket Q s)) = sent s"
begin

abbreviation mq_sent :: "'s mq \<Rightarrow> message list" where
  "mq_sent m \<equiv> sent (broker m)"

lemma keeps_sent_on_broker: "(\<And>s. sent (snd (f s)) = sent s) \<Longrightarrow> keeps (\<lambda>m. mq_sent m = l) (on_broker f)"
  by (auto simp: keeps_def on_broker_def split: prod.splits) (metis snd_conv)

lemma keeps_sent_channel: "keeps (\<lambda>m. mq_sent m = l) (channel cfg Q)"
proof -
  have "keeps (\<lambda>m. mq_sent m = l) (\<lambda>m. (Inr (), m\<lparr>has_connection := b\<rparr>))"
    "keeps (\<lambda>m. mq_sent m = l) (\<lambda>m. (Inr (), m\<lparr>has_channel := b\<rparr>))" for b
    by (simp_all add: keeps_def)
  moreover have "keeps (\<lambda>m. mq_sent m = l) (declare_topology cfg Q)"
    unfolding declare_topology_def by (intro keeps_foreachE keeps_sent_on_broker sent_declare)
  ultimately have "keeps (\<lambda>m. mq_sent m = l) (thenE (on_broker (open_connection Q))
            (thenE (\<lambda>m. (Inr (), m\<lparr>has_connection := True\<rparr>))
              (thenE (on_broker (open_channel Q))
                (thenE (\<lambda>m. (Inr (), m\<lparr>has_channel := True\<rparr>)) (declare_topology cfg Q)))))"
    by (intro keeps_thenE keeps_sent_on_broker sent_open)
  then show ?thesis unfolding channel_def connect_def by (simp add: keeps_def ret_def)
qed

lemma keeps_sent_close: "keeps (\<lambda>m. mq_sent m = l) (close_mq Q)"
proof -
  have "keeps (\<lambda>m. mq_sent m = l) (catch (on_broker (close_socket Q)) (\<lambda>_. ret ()))"
    by (intro keeps_intros keeps_sent_on_broker sent_close)
  then show ?thesis
    by (auto simp: keeps_def close_mq_def thenE_def bindE_def ret_def split: prod.splits sum.splits)
qed

text \<open>The bodies of one attempt arrive in order, all of them when it returns.\<close>

lemma publish_loop:
  "foreachE bodies (\<lambda>body. on_channel (basic_publish Q e k body)) m = (r, m') \<Longrightarrow>
   \<exists>j \<le> length bodies. mq_sent m' = mq_sent m @ take j (map (\<lambda>b. (e, k, b)) bodies) \<and>
     (r = Inr () \<longrightarrow> j = length bodies)"
proof (induction bodies arbitrary: m)
  case Nil
  then show ?case by (simp add: ret_def)
next
  case (Cons b bodies)
  obtain r1 m1 where r1: "on_channel (basic_publish Q e k b) m = (r1, m1)" by fastforce
  show ?case
  proof (cases r1)
    case (Inl x)
    then have "mq_sent m1 = mq_sent m \<or> mq_sent m1 = mq_sent m @ [(e, k, b)]"
      using r1 publish_raise [of e k b "broker m"]
      by (auto simp: on_channel_def on_broker_def throw_def split: if_splits prod.splits)
    moreover have "m' = m1" "r = Inl x" using Cons.prems r1 Inl by (simp_all add: thenE_raise)
    ultimately show ?thesis
      by (elim disjE) (auto intro: exI [of _ 0] exI [of _ 1])
  next
    case (Inr u)
    then have one: "mq_sent m1 = mq_sent m @ [(e, k, b)]"
      using r1 publish_ok [of e k b "broker m"]
      by (auto simp: on_channel_def on_broker_def throw_def split: if_splits prod.splits)
    from Cons.IH [of m1] Cons.prems r1 Inr obtain j where "j \<le> length bodies"
      "mq_sent m' = mq_sent m1 @ take j (map (\<lambda>b. (e, k, b)) bodies)" "r = Inr () \<longrightarrow> j = length bodies"
      by (auto simp: thenE_run)
    with one show ?thesis by (intro exI [of _ "Suc j"]) simp
  qed
qed

lemma publish_bodies_sent:
  assumes "publish_bodies cfg Q e k bodies m = (r, m')"
  shows "\<exists>j \<le> length bodies. mq_sent m' = mq_sent m @ take j (map (\<lambda>b. (e, k, b)) bodies) \<and>
    (r = Inr () \<longrightarrow> j = length bodies)"
proof -
  obtain r1 m1 where c: "channel cfg Q m = (r1, m1)" by fastforce
  have m1: "mq_sent m1 = mq_sent m" using keepsD [OF keeps_sent_channel, of m "mq_sent m" cfg] c by simp
  show ?thesis
  proof (cases r1)
    case (Inl x)
    then show ?thesis using assms c m1 by (auto simp: publish_bodies_def thenE_raise)
  next
    case (Inr u)
    then show ?thesis using publish_loop [of bodies e k m1 r m'] assms c m1
      by (simp add: publish_bodies_def thenE_run)
  qed
qed

text \<open>A first attempt that does not end with an AMQP error is the only one.\<close>

lemma publish_raw_once:
  assumes "publish_raw cfg Q e k bodies m = (r, m')" "publish_bodies cfg Q e k bodies m = (r1, m1)"
    and "\<not> (\<exists>x. r1 = Inl x \<and> is_amqp_error x)"
  shows "r = r1 \<and> m' = m1"
  using assms by (cases r1) (auto simp: publish_raw_def catch_run catch_raise throw_def)

lemma publish_raw_again:
  assumes "publish_raw cfg Q e k bodies m = (r, m')" "publish_bodies cfg Q e k bodies m = (r1, m1)"
    and "\<exists>x. r1 = Inl x \<and> is_amqp_error x"
  shows "\<exists>j \<le> length bodies. mq_sent m' = mq_sent m1 @ take j (map (\<lambda>b. (e, k, b)) bodies) \<and> (r = Inr () \<longrightarrow> j = length bodies)"
proof -
  obtain m2 where c: "close_mq Q m1 = (Inr (), m2)" using close_mq_returns by blast
  have m2: "mq_sent m2 = mq_sent m1" using keepsD [OF keeps_sent_close, of m1 "mq_sent m1"] c by simp
  have "publish_bodies cfg Q e k bodies m2 = (r, m')"
    using assms c by (auto simp: publish_raw_def catch_raise thenE_run)
  from publish_bodies_sent [OF this] m2 show ?thesis by simp
qed

lemma publish_raw_sent:
  assumes "publish_raw cfg Q e k bodies m = (r, m')"
  defines "msgs \<equiv> map (\<lambda>b. (e, k, b)) bodies"
  shows "\<exists>i j. mq_sent m' = mq_sent m @ take i msgs @ take j msgs \<and> (r = Inr () \<longrightarrow> j = length bodies)"
proof -
  obtain r1 m1 where one: "publish_bodies cfg Q e k bodies m = (r1, m1)" by fastforce
  obtain i where i: "mq_sent m1 = mq_sent m @ take i msgs" "r1 = Inr () \<longrightarrow> i = length bodies"
    using publish_bodies_sent [OF one] unfolding msgs_def by blast
  show ?thesis
  proof (cases "\<exists>x. r1 = Inl x \<and> is_amqp_error x")
    case False
    with publish_raw_once [OF assms(1) one] i show ?thesis by (intro exI [of _ 0] exI [of _ i]) simp
  next
    case True
    with publish_raw_again [OF assms(1) one] i show ?thesis unfolding msgs_def by auto
  qed
qed

end

text \<open>
  A broker that is up, as a consumer sees it: the deliveries that wait for it, in order, and the
  tags it has acknowledged. Taking a delivery and acknowledging it succeed, and new deliveries
  may queue up behind the waiting ones at any time.
\<close>

locale delivery_broker = message_broker +
  fixes waiting :: "'a \<Rightarrow> (int \<times> bytes) list"
    and acked :: "'a \<Rightarrow> int list"
    and up :: "'a \<Rightarrow> bool"
  assumes up_open: "up s \<Longrightarrow> is_open Q s"
    and up_publish: "up s \<Longrightarrow> \<exists>s'. basic_publish Q e k b s = (Inr (), s') \<and> up s' \<and>
      prefix (waiting s) (waiting s') \<and> acked s' = acked s"
    and up_next: "up s \<Longrightarrow> waiting s = d # ds \<Longrightarrow> \<exists>s'. next_delivery Q s = (Inr (Some d), s') \<and> up s' \<and>
      prefix ds (waiting s') \<and> acked s' = acked s \<and> sent s' = sent s"
    and up_ack: "up s \<Longrightarrow> \<exists>s'. basic_ack Q tag s = (Inr (), s') \<and> up s' \<and>
      prefix (waiting s) (waiting s') \<and> acked s' = acked s @ [tag] \<and> sent s' = sent s"
begin

definition consuming :: "(int \<times> bytes) list \<Rightarrow> int list \<Rightarrow> 'a mq \<Rightarrow> bool" where
  "consuming ds tags m \<longleftrightarrow> up (broker m) \<and> has_connection m \<and> has_channel m \<and>
     prefix ds (waiting (broker m)) \<and> acked (broker m) = tags"

lemma channel_consuming: "consuming ds tags m \<Longrightarrow> channel cfg Q m = (Inr (), m)"
  by (simp add: consuming_def channel_def connect_def up_open ret_def)

lemma basic_publish_consuming:
  "consuming ds tags m \<Longrightarrow> \<exists>m'. on_channel (basic_publish Q e k b) m = (Inr (), m') \<and> consuming ds tags m' \<and>
     mq_sent m' = mq_sent m @ [(e, k, b)]"
  using up_publish [of "broker m" e k b] publish_ok [of e k b "broker m"]
  by (auto simp: consuming_def on_channel_def on_broker_def intro: prefix_order.trans)

lemma publish_raw_consuming:
  assumes "consuming ds tags m"
  shows "\<exists>m'. publish_raw cfg Q e k bodies m = (Inr (), m') \<and> consuming ds tags m'"
proof -
  have "\<exists>m'. foreachE bodies (\<lambda>body. on_channel (basic_publish Q e k body)) m = (Inr (), m') \<and> consuming ds tags m'"
    by (rule foreachE_returns) (use assms basic_publish_consuming in blast)+
  then show ?thesis using channel_consuming [OF assms, of cfg]
    by (auto simp: publish_bodies_def publish_raw_def catch_run thenE_run)
qed

lemma next_consuming:
  "consuming (d # ds) tags m \<Longrightarrow> \<exists>m'. on_channel (next_delivery Q) m = (Inr (Some d), m') \<and> consuming ds tags m' \<and>
     mq_sent m' = mq_sent m"
  using up_next [of "broker m" d] by (auto simp: consuming_def on_channel_def on_broker_def prefix_def)

lemma ack_consuming:
  "consuming ds tags m \<Longrightarrow> \<exists>m'. on_channel (basic_ack Q tag) m = (Inr (), m') \<and> consuming ds (tags @ [tag]) m' \<and>
     mq_sent m' = mq_sent m"
  using up_ack [of "broker m" tag] by (auto simp: consuming_def on_channel_def on_broker_def intro: prefix_order.trans)

end

subsection \<open>A reference broker\<close>

text \<open>
  A log of the messages sent behind calls that may be refused or lose their reply; the work queue
  is delivered from in order. The client library reports a connection as open once it was
  opened, also when it has gone stale.
\<close>

record broker_state =
  b_sent :: "message list"
  b_open :: bool
  b_ready :: "(int \<times> bytes) list"   \<comment> \<open>deliveries to come: tag and body\<close>
  b_acked :: "int list"

definition amqp_client :: "broker_state remote amqp_api" where
  "amqp_client = \<lparr>open_connection = call (\<lambda>b. (Inr (), b\<lparr>b_open := True\<rparr>)),
     is_open = (\<lambda>r. b_open (r_state r)),
     open_channel = call (\<lambda>b. (Inr (), b)),
     declare_one = (\<lambda>d. call (\<lambda>b. (Inr (), b))),
     basic_publish = (\<lambda>e k body. call (\<lambda>b. (Inr (), b\<lparr>b_sent := b_sent b @ [(e, k, body)]\<rparr>))),
     close_socket = call (\<lambda>b. (Inr (), b\<lparr>b_open := False\<rparr>)),
     basic_qos = (\<lambda>n. call (\<lambda>b. (Inr (), b))),
     next_delivery = call (\<lambda>b. case b_ready b of
        [] \<Rightarrow> (Inr None, b)
      | d # ds \<Rightarrow> (Inr (Some d), b\<lparr>b_ready := ds\<rparr>)),
     basic_ack = (\<lambda>tag. call (\<lambda>b. (Inr (), b\<lparr>b_acked := b_acked b @ [tag]\<rparr>))),
     cancel_consumer = call (\<lambda>b. (Inr (), b)),
     message_count = call (\<lambda>b. (Inr (int (length (b_ready b))), b))\<rparr>"

lemma call_sent:
  "(\<And>b. b_sent (snd (f b)) = b_sent b) \<Longrightarrow> b_sent (r_state (snd (call f s))) = b_sent (r_state s)"
  using call_state [of f s] by auto

interpretation ref: message_broker amqp_client "\<lambda>r. b_sent (r_state r)"
proof
  fix e k b s u s'
  assume "basic_publish amqp_client e k b s = (Inr u, s')"
  then show "b_sent (r_state s') = b_sent (r_state s) @ [(e, k, b)]"
    by (auto simp: amqp_client_def dest!: call_success sym [of _ "r_state s'"])
next
  fix e k b s x s'
  assume run: "basic_publish amqp_client e k b s = (Inl x, s')"
  then show "b_sent (r_state s') = b_sent (r_state s) \<or> b_sent (r_state s') = b_sent (r_state s) @ [(e, k, b)]"
    using call_state [of "\<lambda>st. (Inr (), st\<lparr>b_sent := b_sent st @ [(e, k, b)]\<rparr>)" s]
    by (auto simp: amqp_client_def)
qed (simp_all add: amqp_client_def call_sent)

interpretation ref: delivery_broker amqp_client "\<lambda>r. b_sent (r_state r)" "\<lambda>r. b_ready (r_state r)"
  "\<lambda>r. b_acked (r_state r)" "\<lambda>r. r_faults r = [] \<and> b_open (r_state r)"
  by unfold_locales (auto simp: amqp_client_def call_def)

text \<open>
  C9. Publishing sends every task, in order and with its own bytes, to the work queue. The first
  attempt sends the tasks once, or a beginning of them when it is interrupted; only an attempt
  that ended with an AMQP error is followed by a second one, which again sends all of them when
  \<open>publish\<close> returns, or a beginning of them when it raises. So nothing is sent twice unless the
  connection failed, and when \<open>publish\<close> returns nothing is missing.
\<close>

theorem publish_sends_every_task:
  assumes "message_broker Q sent" "publish cfg Q tasks m = (r, m')"
  shows "\<exists>bodies. map from_bytes bodies = map Inr tasks \<and>
    (let msgs = map (\<lambda>b. (RABBITMQ_EXCHANGE cfg, RABBITMQ_QUEUE cfg, b)) bodies;
         (r1, m1) = publish_bodies cfg Q (RABBITMQ_EXCHANGE cfg) (RABBITMQ_QUEUE cfg) bodies m in
     \<exists>i \<le> length tasks. sent (broker m1) = sent (broker m) @ take i msgs \<and> (r1 = Inr () \<longrightarrow> i = length tasks) \<and>
       (if \<exists>e. r1 = Inl e \<and> is_amqp_error e
        then \<exists>j \<le> length tasks. sent (broker m') = sent (broker m1) @ take j msgs \<and> (r = Inr () \<longrightarrow> j = length tasks)
        else r = r1 \<and> sent (broker m') = sent (broker m1)))"
proof -
  obtain bodies where b: "smap to_bytes tasks = Inr bodies" "map from_bytes bodies = map Inr tasks"
    using to_bytes_all by blast
  let ?msgs = "map (\<lambda>b. (RABBITMQ_EXCHANGE cfg, RABBITMQ_QUEUE cfg, b)) bodies"
  have len: "length bodies = length tasks" by (rule map_eq_imp_length_eq [OF b(2)])
  have raw: "publish_raw cfg Q (RABBITMQ_EXCHANGE cfg) (RABBITMQ_QUEUE cfg) bodies m = (r, m')"
    using assms(2) b by (simp add: publish_def lift_result_def)
  obtain r1 m1 where one: "publish_bodies cfg Q (RABBITMQ_EXCHANGE cfg) (RABBITMQ_QUEUE cfg) bodies m = (r1, m1)" by fastforce
  from message_broker.publish_bodies_sent [OF assms(1) one] obtain i where i: "i \<le> length tasks"
    "sent (broker m1) = sent (broker m) @ take i ?msgs" "r1 = Inr () \<longrightarrow> i = length tasks" unfolding len by blast
  have "if \<exists>e. r1 = Inl e \<and> is_amqp_error e
      then \<exists>j \<le> length tasks. sent (broker m') = sent (broker m1) @ take j ?msgs \<and> (r = Inr () \<longrightarrow> j = length tasks)
      else r = r1 \<and> sent (broker m') = sent (broker m1)"
    using message_broker.publish_raw_once [OF assms(1) raw one] message_broker.publish_raw_again [OF assms(1) raw one]
    unfolding len by simp
  with i b(2) one show ?thesis by (intro exI [of _ bodies]) (simp only: Let_def prod.case, blast)
qed

definition sample_task :: chunk_task where
  "sample_task = \<lparr>t_job_id = ''j'', t_chunk_index = 0, t_doc_key = ''d:f'', t_file_hash = ''h'', t_start_page = 0,
     t_end_page = -1, t_total_chunks = 1, t_use_llm = False, t_attempt = 1\<rparr>"

definition stale_mq :: "broker_state remote mq" where
  "stale_mq = \<lparr>broker = \<lparr>r_state = \<lparr>b_sent = [], b_open = True, b_ready = [], b_acked = []\<rparr>,
     r_faults = [Lose (AMQPError ''StreamLostError'' ''connection reset'')]\<rparr>, has_connection = True, has_channel = True\<rparr>"

theorem publish_sends_every_task_witness:
  "let (r, m') = publish default_settings amqp_client [sample_task] stale_mq; ex = RABBITMQ_EXCHANGE default_settings;
       key = RABBITMQ_QUEUE default_settings in
   \<exists>body m1 i j. from_bytes body = Inr sample_task \<and>
     publish_bodies default_settings amqp_client ex key [body] stale_mq
       = (Inl (AMQPError ''StreamLostError'' ''connection reset''), m1) \<and>
     b_sent (r_state (broker m1)) = take i [(ex, key, body)] \<and>
     b_sent (r_state (broker m')) = b_sent (r_state (broker m1)) @ take j [(ex, key, body)] \<and> (r = Inr () \<longrightarrow> j = 1)"
proof -
  let ?ex = "RABBITMQ_EXCHANGE default_settings" and ?key = "RABBITMQ_QUEUE default_settings"
  let ?e = "AMQPError ''StreamLostError'' ''connection reset''"
  obtain r m' where run: "publish default_settings amqp_client [sample_task] stale_mq = (r, m')" by fastforce
  from publish_sends_every_task [OF ref.message_broker_axioms run] obtain bodies where
    b: "map from_bytes bodies = map Inr [sample_task]"
    and sends: "let msgs = map (\<lambda>b. (?ex, ?key, b)) bodies;
         (r1, m1) = publish_bodies default_settings amqp_client ?ex ?key bodies stale_mq in
     \<exists>i \<le> length [sample_task]. b_sent (r_state (broker m1)) = b_sent (r_state (broker stale_mq)) @ take i msgs \<and>
       (r1 = Inr () \<longrightarrow> i = length [sample_task]) \<and>
       (if \<exists>e. r1 = Inl e \<and> is_amqp_error e
        then \<exists>j \<le> length [sample_task]. b_sent (r_state (broker m')) = b_sent (r_state (broker m1)) @ take j msgs \<and>
          (r = Inr () \<longrightarrow> j = length [sample_task])
        else r = r1 \<and> b_sent (r_state (broker m')) = b_sent (r_state (broker m1)))" by blast
  obtain body where body: "bodies = [body]" "from_bytes body = Inr sample_task" using b by auto
  obtain m1 where one: "publish_bodies default_settings amqp_client ?ex ?key [body] stale_mq = (Inl ?e, m1)"
    by (simp add: publish_bodies_def channel_def connect_def stale_mq_def amqp_client_def on_channel_def on_broker_def
        call_def io_simps)
  have sent: "b_sent (r_state (broker stale_mq)) = []" by (simp add: stale_mq_def)
  have "\<exists>e. Inl ?e = (Inl e :: exn + unit) \<and> is_amqp_error e" by (simp add: is_amqp_error_def)
  note sends' = sends [unfolded body(1) one Let_def prod.case sent if_P [OF this] append_Nil list.map]
  from sends' obtain i j where "b_sent (r_state (broker m1)) = take i [(?ex, ?key, body)]"
    "b_sent (r_state (broker m')) = b_sent (r_state (broker m1)) @ take j [(?ex, ?key, body)]" "r = Inr () \<longrightarrow> j = 1"
    by (elim exE conjE) (rule that, assumption, assumption, simp)
  with body(2) one show ?thesis unfolding run Let_def prod.case by blast
qed

text \<open>
  On a healthy broker publishing returns; the deliveries to come and the acknowledgements are not
  touched, and what was sent stays sent.
\<close>

definition calm :: "(int \<times> bytes) list \<Rightarrow> int list \<Rightarrow> message set \<Rightarrow> broker_state remote mq \<Rightarrow> bool" where
  "calm ds acked kept m \<longleftrightarrow> r_faults (broker m) = [] \<and> (has_connection m \<longrightarrow> has_channel m) \<and>
     b_ready (r_state (broker m)) = ds \<and> b_acked (r_state (broker m)) = acked \<and> kept \<subseteq> set (b_sent (r_state (broker m)))"

lemma declare_calm:
  assumes "calm ds acked kept m" "has_channel m"
  shows "\<exists>m'. declare_topology cfg amqp_client m = (Inr (), m') \<and> calm ds acked kept m' \<and> has_channel m'"
  unfolding declare_topology_def
  by (rule foreachE_returns) (use assms in \<open>auto simp: calm_def on_broker_def amqp_client_def call_def\<close>)

lemma channel_calm:
  assumes "calm ds acked kept m"
  shows "\<exists>m'. channel cfg amqp_client m = (Inr (), m') \<and> calm ds acked kept m' \<and> has_channel m'"
proof (cases "has_connection m \<and> is_open amqp_client (broker m)")
  case True
  then show ?thesis using assms by (simp add: calm_def channel_def connect_def ret_def)
next
  case False
  let ?m = "m\<lparr>broker := (broker m)\<lparr>r_state := (r_state (broker m))\<lparr>b_open := True\<rparr>\<rparr>,
    has_connection := True, has_channel := True\<rparr>"
  have "channel cfg amqp_client m = declare_topology cfg amqp_client ?m"
    using False assms
    by (cases m) (auto simp: calm_def channel_def connect_def thenE_def bindE_def on_broker_def amqp_client_def call_def)
  moreover have "calm ds acked kept ?m" "has_channel ?m" using assms by (simp_all add: calm_def)
  ultimately show ?thesis using declare_calm [of ds acked kept ?m cfg] by simp
qed

lemma publish_raw_calm:
  assumes "calm ds acked kept m"
  shows "\<exists>m'. publish_raw cfg amqp_client e k bodies m = (Inr (), m') \<and> calm ds acked kept m' \<and> has_channel m'"
proof -
  obtain m1 where m1: "channel cfg amqp_client m = (Inr (), m1)" "calm ds acked kept m1 \<and> has_channel m1"
    using channel_calm [OF assms] by blast
  have "\<exists>m'. foreachE bodies (\<lambda>body. on_channel (basic_publish amqp_client e k body)) m1 = (Inr (), m') \<and>
      (calm ds acked kept m' \<and> has_channel m')"
    by (rule foreachE_returns) (use m1 in \<open>auto simp: calm_def on_channel_def on_broker_def amqp_client_def call_def\<close>)
  with m1(1) show ?thesis by (auto simp: publish_bodies_def publish_raw_def catch_run thenE_run)
qed

lemma publish_healthy:
  assumes "calm ds acked kept m"
  shows "fst (publish cfg amqp_client tasks m) = Inr ()"
proof -
  obtain bodies where "smap to_bytes tasks = Inr bodies" using to_bytes_all by blast
  then show ?thesis using publish_raw_calm [OF assms, of cfg "RABBITMQ_EXCHANGE cfg" "RABBITMQ_QUEUE cfg" bodies]
    by (auto simp: publish_def lift_result_def)
qed

end
