(* ===== verification/Converter.thy ===== *)
theory Converter
  imports Disk Settings
begin

section \<open>converter.py: downloading and converting\<close>

text \<open>
  The HTTP client and markitdown are not part of the repository. A GET request is the
  parameter \<open>http_get\<close>: it raises, or gives a status and the body as the pieces
  \<^verbatim>\<open>iter_content\<close> yields, possibly followed by an exception of the stream. A conversion is
  the parameter \<open>markitdown\<close> of the language-model client, the path and the bytes of the file.
\<close>

record http_response =
  h_status :: int
  h_pieces :: "bytes list"
  h_broken :: "exn option"   \<comment> \<open>raised by the stream after its pieces\<close>

type_synonym llm_client = "string \<times> string \<times> string"   \<comment> \<open>base url, key, model\<close>

subsection \<open>The name of a downloaded file\<close>

text \<open>\<^verbatim>\<open>os.path.basename(urlparse(url).path)\<close>, on the components \<^verbatim>\<open>urllib.parse\<close> documents.\<close>

definition is_alpha :: "char \<Rightarrow> bool" where
  "is_alpha ch = (let k = of_char ch :: nat in (65 \<le> k \<and> k \<le> 90) \<or> (97 \<le> k \<and> k \<le> 122))"

definition is_scheme_char :: "char \<Rightarrow> bool" where
  "is_scheme_char ch \<longleftrightarrow> is_alpha ch \<or> digit_val ch \<noteq> None \<or> ch \<in> {CHR ''+'', CHR ''-'', CHR ''.''}"

text \<open>The scheme of a URL and the rest after its colon.\<close>

definition split_scheme :: "string \<Rightarrow> string \<times> string" where
  "split_scheme url =
     (let s = takeWhile (\<lambda>ch. ch \<noteq> CHR '':'') url; rest = drop (length s) url
      in if rest \<noteq> [] \<and> s \<noteq> [] \<and> is_alpha (hd s) \<and> list_all is_scheme_char s
         then (lower_string s, tl rest) else ([], url))"

definition uses_params :: "string list" where
  "uses_params = ['''', ''ftp'', ''hdl'', ''prospero'', ''http'', ''imap'', ''https'', ''shttp'', ''rtsp'',
     ''rtsps'', ''rtspu'', ''sip'', ''sips'', ''mms'', ''sftp'', ''tel'']"

definition drop_netloc :: "string \<Rightarrow> string" where
  "drop_netloc s =
     (if starts_with ''//'' s
      then dropWhile (\<lambda>ch. ch \<noteq> CHR ''/'' \<and> ch \<noteq> CHR ''?'' \<and> ch \<noteq> CHR 0x23) (drop 2 s) else s)"

text \<open>Parameters are split off the last path segment.\<close>

definition drop_params :: "string \<Rightarrow> string" where
  "drop_params p =
     (let seg = basename p; dir = take (length p - length seg) p
      in dir @ takeWhile (\<lambda>ch. ch \<noteq> CHR '';'') seg)"

definition url_path :: "string \<Rightarrow> string" where
  "url_path url =
     (let (scheme, rest) = split_scheme url;
          p = takeWhile (\<lambda>ch. ch \<noteq> CHR ''?'')
                (takeWhile (\<lambda>ch. ch \<noteq> CHR 0x23) (drop_netloc rest))
      in if scheme \<in> set uses_params then drop_params p else p)"

definition download_name :: "string \<Rightarrow> string" where
  "download_name url =
     (let filename = basename (url_path url) in if filename = [] then ''downloaded_file'' else filename)"

subsection \<open>Temporary files\<close>

text \<open>
  \<^verbatim>\<open>tempfile.mkstemp\<close> creates an empty file under a name no file has. Any such name will do;
  this one is longer than every path on the disk.
\<close>

definition fresh_path :: "string \<Rightarrow> string \<Rightarrow> disk \<Rightarrow> string" where
  "fresh_path dir suffix d =
     path_join dir (''tmp'' @ replicate (foldr (\<lambda>f n. max (length (fst f)) n) d 0) (CHR ''_'') @ suffix)"

lemma path_length_bound: "p \<in> fst ` set d \<Longrightarrow> length p \<le> foldr (\<lambda>f n. max (length (fst f)) n) d 0"
proof (induction d)
  case (Cons f d)
  then have "p = fst f \<or> length p \<le> foldr (\<lambda>f n. max (length (fst f)) n) d 0" by auto
  then show ?case by (auto simp: le_max_iff_disj)
qed simp

lemma fresh_path_new: "read_file (fresh_path dir suffix d) d = None"
proof -
  have "length (fresh_path dir suffix d) > foldr (\<lambda>f n. max (length (fst f)) n) d 0"
    by (simp add: fresh_path_def path_join_def)
  then have "fresh_path dir suffix d \<notin> fst ` set d" using path_length_bound by fastforce
  then show ?thesis by (auto simp: read_file_def map_of_eq_None_iff)
qed

definition mkstemp :: "string \<Rightarrow> string \<Rightarrow> int \<Rightarrow> (disk, string) io" where
  "mkstemp dir suffix now d =
     (let p = fresh_path dir suffix d in (Inr p, write_file p [] now d))"

definition remove_if_exists :: "string \<Rightarrow> (disk, unit) io" where
  "remove_if_exists p d = (Inr (), if path_exists p d then remove_file p d else d)"

subsection \<open>Download\<close>

definition append_file :: "string \<Rightarrow> bytes \<Rightarrow> int \<Rightarrow> disk \<Rightarrow> disk" where
  "append_file p b now d = write_file p ((case read_file p d of None \<Rightarrow> [] | Some x \<Rightarrow> x) @ b) now d"

fun write_pieces :: "settings \<Rightarrow> string \<Rightarrow> string \<Rightarrow> int \<Rightarrow> int \<Rightarrow> bytes list \<Rightarrow> (disk, unit) io" where
  "write_pieces cfg url p now written [] = ret ()"
| "write_pieces cfg url p now written (chunk # chunks) =
     (if chunk = [] then write_pieces cfg url p now written chunks
      else let written' = written + int (length chunk) in
        if written' > MAX_DOWNLOAD_BYTES cfg
        then throw (PyException (''File from '' @ url @ '' exceeds the maximum size of '' @
                      show_int (MAX_DOWNLOAD_BYTES cfg) @ '' bytes''))
        else thenE (\<lambda>d. (Inr (), append_file p chunk now d))
               (write_pieces cfg url p now written' chunks))"

definition tmp_dir :: string where
  "tmp_dir = ''/tmp''"

definition download ::
  "settings \<Rightarrow> (string \<Rightarrow> exn + http_response) \<Rightarrow> int \<Rightarrow> string \<Rightarrow> (disk, string) io" where
  "download cfg http_get now url =
     (case http_get url of
        Inl e \<Rightarrow> throw e
      | Inr response \<Rightarrow>
          if h_status response \<noteq> 200
          then throw (PyException (''Failed to download file from '' @ url @ '', status code: '' @
                        show_int (h_status response)))
          else bindE (mkstemp tmp_dir (''_'' @ download_name url) now) (\<lambda>temp_path.
            thenE
              (catch
                (thenE (\<lambda>d. (Inr (), write_file temp_path [] now d))
                  (thenE (write_pieces cfg url temp_path now 0 (h_pieces response))
                    (case h_broken response of None \<Rightarrow> ret () | Some e \<Rightarrow> throw e)))
                (\<lambda>e. thenE (remove_if_exists temp_path) (throw e)))
              (ret temp_path)))"

subsection \<open>Conversion\<close>

definition get_llm_client :: "settings \<Rightarrow> environ \<Rightarrow> exn + llm_client" where
  "get_llm_client cfg env =
     (case env ''OPENAI_API_KEY'' of
        Some (ch # cs) \<Rightarrow> Inr (OPENAI_BASE_URL cfg, ch # cs, OPENAI_MODEL cfg)
      | _ \<Rightarrow> Inl (RuntimeError ''OPENAI_API_KEY is not set, but LLM-assisted conversion was requested''))"

text \<open>
  \<^verbatim>\<open>lru_cache\<close> keeps the first client that is built and no exception. The settings and the
  environment of a process do not change, so \<open>convert_file\<close> asks \<open>get_llm_client\<close> directly.
\<close>

definition cached_llm_client :: "settings \<Rightarrow> environ \<Rightarrow> (llm_client option, llm_client) io" where
  "cached_llm_client cfg env = memo (get_llm_client cfg env)"

fun llm_calls :: "settings \<Rightarrow> environ \<Rightarrow> nat \<Rightarrow> llm_client option \<Rightarrow> (exn + llm_client) list" where
  "llm_calls cfg env 0 cache = []"
| "llm_calls cfg env (Suc n) cache =
     (case cached_llm_client cfg env cache of (r, cache') \<Rightarrow> r # llm_calls cfg env n cache')"

lemma llm_calls_uncached:
  "(\<And>c. cache = Some c \<Longrightarrow> get_llm_client cfg env = Inr c) \<Longrightarrow>
   llm_calls cfg env n cache = replicate n (get_llm_client cfg env)"
proof (induction n arbitrary: cache)
  case (Suc n)
  note t = memo_transparent [of cache "get_llm_client cfg env", OF Suc.prems]
  obtain r cache' where m: "memo (get_llm_client cfg env) cache = (r, cache')" by fastforce
  with t Suc.IH [of cache'] show ?case by (simp add: cached_llm_client_def)
qed simp

definition convert_file ::
  "settings \<Rightarrow> environ \<Rightarrow> (llm_client option \<Rightarrow> string \<Rightarrow> bytes \<Rightarrow> exn + pytext) \<Rightarrow>
   string \<Rightarrow> bool \<Rightarrow> disk \<Rightarrow> exn + pytext" where
  "convert_file cfg env markitdown path use_llm d =
     sbind (if use_llm then sbind (get_llm_client cfg env) (\<lambda>c. Inr (Some c)) else Inr None) (\<lambda>client.
       case read_file path d of
         None \<Rightarrow> Inl (OtherError ''FileNotFoundError'' path)
       | Some b \<Rightarrow> markitdown client path b)"

subsection \<open>What a download leaves on the disk\<close>

lemma write_pieces_spec:
  assumes "read_file p d = Some b"
  shows "\<exists>d'. snd (write_pieces cfg url p now w chunks d) = d' \<and>
    (\<forall>q. q \<noteq> p \<longrightarrow> read_file q d' = read_file q d) \<and> read_file p d' \<noteq> None \<and>
    (fst (write_pieces cfg url p now w chunks d) = Inr () \<longrightarrow> read_file p d' = Some (b @ concat chunks)) \<and>
    (fst (write_pieces cfg url p now w chunks d) = Inr () \<longleftrightarrow>
      concat chunks = [] \<or> w + int (length (concat chunks)) \<le> MAX_DOWNLOAD_BYTES cfg)"
  using assms
proof (induction chunks arbitrary: b w d)
  case Nil
  then show ?case by (simp add: ret_def)
next
  case (Cons chunk chunks)
  show ?case
  proof (cases "chunk = []")
    case True
    then show ?thesis using Cons by simp
  next
    case False
    let ?w = "w + int (length chunk)"
    show ?thesis
    proof (cases "?w > MAX_DOWNLOAD_BYTES cfg")
      case True
      then show ?thesis using False Cons.prems by (auto simp: throw_def Let_def)
    next
      case small: False
      define d1 where "d1 = append_file p chunk now d"
      have "read_file p d1 = Some (b @ chunk)" and other: "\<And>q. q \<noteq> p \<Longrightarrow> read_file q d1 = read_file q d"
        using Cons.prems by (simp_all add: d1_def append_file_def)
      note IH = Cons.IH [OF this(1), of ?w]
      have "write_pieces cfg url p now w (chunk # chunks) d = write_pieces cfg url p now ?w chunks d1"
        using False small by (simp add: Let_def thenE_def bindE_def d1_def)
      with IH other small False show ?thesis by (auto simp: algebra_simps simp del: concat_eq_Nil_conv)
    qed
  qed
qed

text \<open>
  C29. A download returns exactly when the server answered 200, the stream did not break and
  the body is within the size limit; then a new temporary file holds exactly the body. In
  every other case it raises and leaves the files as they were.
\<close>

theorem download_correct:
  assumes "http_get url = Inr resp"
  shows "let (r, d') = download cfg http_get now url d; body = concat (h_pieces resp) in
    if h_status resp = 200 \<and> h_broken resp = None \<and> (body = [] \<or> int (length body) \<le> MAX_DOWNLOAD_BYTES cfg)
    then \<exists>p. r = Inr p \<and> read_file p d = None \<and> read_file p d' = Some body \<and>
           (\<forall>q. q \<noteq> p \<longrightarrow> read_file q d' = read_file q d)
    else (\<exists>e. r = Inl e) \<and> (\<forall>q. read_file q d' = read_file q d)"
proof (cases "h_status resp = 200")
  case False
  then show ?thesis using assms by (simp add: download_def throw_def)
next
  case True
  define p where "p = fresh_path tmp_dir (CHR ''_'' # download_name url) d"
  define d1 where "d1 = write_file p [] now (write_file p [] now d)"
  have new: "read_file p d = None" using fresh_path_new by (simp add: p_def)
  have "read_file p d1 = Some []" and d1: "\<And>q. q \<noteq> p \<Longrightarrow> read_file q d1 = read_file q d" by (simp_all add: d1_def)
  from write_pieces_spec [OF this(1), where cfg = cfg and url = url and now = now and w = 0 and chunks = "h_pieces resp"]
  obtain r2 d2 where w: "write_pieces cfg url p now 0 (h_pieces resp) d1 = (r2, d2)"
    and d2: "\<And>q. q \<noteq> p \<Longrightarrow> read_file q d2 = read_file q d" "read_file p d2 \<noteq> None"
      "r2 = Inr () \<Longrightarrow> read_file p d2 = Some (concat (h_pieces resp))"
      "r2 = Inr () \<longleftrightarrow> concat (h_pieces resp) = [] \<or> int (length (concat (h_pieces resp))) \<le> MAX_DOWNLOAD_BYTES cfg"
    using d1 by (cases "write_pieces cfg url p now 0 (h_pieces resp) d1") auto
  have del: "read_file q (remove_file p d2) = read_file q d" for q using d2(1) new by simp
  have ex: "path_exists p d2" using d2(2) by (simp add: path_exists_read)
  show ?thesis
  proof (cases "r2 = Inr () \<and> h_broken resp = None")
    case ok: True
    then have "download cfg http_get now url d = (Inr p, d2)"
      using assms True w by (simp add: download_def mkstemp_def Let_def p_def [symmetric] bindE_def thenE_def
          catch_def ret_def d1_def)
    then show ?thesis using ok True new d2 by auto
  next
    case bad: False
    then obtain e where "download cfg http_get now url d = (Inl e, remove_file p d2)"
      using assms True w ex by (cases r2) (auto simp: download_def mkstemp_def Let_def p_def [symmetric] bindE_def
          thenE_def catch_def ret_def throw_def d1_def remove_if_exists_def)
    moreover have "\<not> (h_broken resp = None \<and> (concat (h_pieces resp) = [] \<or>
        int (length (concat (h_pieces resp))) \<le> MAX_DOWNLOAD_BYTES cfg))" using bad d2(4) by blast
    ultimately show ?thesis using del by auto
  qed
qed

theorem download_correct_witness:
  "let (r, d') = download default_settings (\<lambda>u. Inr \<lparr>h_status = 200, h_pieces = [[1, 2], [], [3]], h_broken = None\<rparr>) 7
       ''https://example.com/a/book.pdf?x=1'' []; body = concat [[1, 2], [], [3]] in
    if (200 :: int) = 200 \<and> (None :: exn option) = None \<and> (body = [] \<or> int (length body) \<le> MAX_DOWNLOAD_BYTES default_settings)
    then \<exists>p. r = Inr p \<and> read_file p [] = None \<and> read_file p d' = Some body \<and>
           (\<forall>q. q \<noteq> p \<longrightarrow> read_file q d' = read_file q [])
    else (\<exists>e. r = Inl e) \<and> (\<forall>q. read_file q d' = read_file q [])"
  using download_correct [of "\<lambda>u. Inr \<lparr>h_status = 200, h_pieces = [[1, 2], [], [3]], h_broken = None\<rparr>"
      "''https://example.com/a/book.pdf?x=1''" "\<lparr>h_status = 200, h_pieces = [[1, 2], [], [3]], h_broken = None\<rparr>"
      default_settings 7 "[]"]
  by (simp only: http_response.simps refl if_True simp_thms)

subsection \<open>The downloaded file\<close>

lemma write_pieces_disk:
  assumes "read_file p d = Some b"
  shows "\<exists>b'. snd (write_pieces cfg url p ts k chunks d) = d \<or>
    snd (write_pieces cfg url p ts k chunks d) = write_file p b' ts d"
  using assms
proof (induction chunks arbitrary: b k d)
  case (Cons chunk chunks)
  show ?case
  proof (cases "chunk = [] \<or> k + int (length chunk) > MAX_DOWNLOAD_BYTES cfg")
    case True
    then show ?thesis using Cons by (auto simp: Let_def throw_def)
  next
    case False
    let ?d = "append_file p chunk ts d" and ?k = "k + int (length chunk)"
    have d: "?d = write_file p (b @ chunk) ts d" using Cons.prems by (simp add: append_file_def)
    have "write_pieces cfg url p ts k (chunk # chunks) d = write_pieces cfg url p ts ?k chunks ?d"
      using False by (simp add: Let_def thenE_def bindE_def)
    moreover have "read_file p ?d = Some (b @ chunk)" by (simp add: d)
    ultimately show ?thesis using Cons.IH [of ?d "b @ chunk" ?k] by (auto simp: d)
  qed
qed (simp add: ret_def)

text \<open>A download leaves the disk alone, or adds one new file to it.\<close>

lemma download_disk:
  obtains e where "download cfg http_get ts url d = (Inl e, d)"
  | p b where "download cfg http_get ts url d = (Inr p, write_file p b ts d)" "read_file p d = None"
proof -
  show thesis
  proof (cases "http_get url")
    case (Inl e)
    then show thesis using that(1) by (simp add: download_def throw_def)
  next
    case (Inr resp)
    show thesis
    proof (cases "h_status resp = 200")
      case False
      then show thesis using that(1) Inr by (simp add: download_def throw_def)
    next
      case True
      define p where "p = fresh_path tmp_dir (CHR ''_'' # download_name url) d"
      let ?d1 = "write_file p [] ts d"
      obtain r2 d2 where w: "write_pieces cfg url p ts 0 (h_pieces resp) ?d1 = (r2, d2)" by fastforce
      have "read_file p ?d1 = Some []" by simp
      from write_pieces_disk [OF this, of cfg url ts 0 "h_pieces resp"] w obtain b where d2: "d2 = write_file p b ts d"
        by (metis snd_conv write_twice)
      have new: "read_file p d = None" using fresh_path_new by (simp add: p_def)
      show thesis
      proof (cases "r2 = Inr () \<and> h_broken resp = None")
        case ok: True
        then have "download cfg http_get ts url d = (Inr p, write_file p b ts d)"
          using Inr True w d2 by (simp add: download_def mkstemp_def Let_def p_def [symmetric] bindE_def thenE_def
              catch_def ret_def)
        then show thesis using that(2) new by blast
      next
        case bad: False
        then obtain e where "download cfg http_get ts url d = (Inl e, d)"
          using Inr True w d2 new by (cases r2) (auto simp: download_def mkstemp_def Let_def p_def [symmetric] bindE_def
              thenE_def catch_def ret_def throw_def remove_if_exists_def path_exists_read remove_write_absent)
        then show thesis using that(1) by blast
      qed
    qed
  qed
qed

lemma download_ok:
  assumes "http_get url = Inr resp" "h_status resp = 200" "h_broken resp = None"
    and "int (length (concat (h_pieces resp))) \<le> MAX_DOWNLOAD_BYTES cfg"
  shows "\<exists>p. download cfg http_get ts url d = (Inr p, write_file p (concat (h_pieces resp)) ts d) \<and> read_file p d = None"
proof -
  let ?p = "fresh_path tmp_dir (CHR ''_'' # download_name url) d"
  have "read_file ?p (write_file ?p [] ts d) = Some []" by simp
  from write_pieces_spec [OF this, where cfg = cfg and url = url and now = ts and w = 0 and chunks = "h_pieces resp"] assms(4)
  obtain d2 where w: "write_pieces cfg url ?p ts 0 (h_pieces resp) (write_file ?p [] ts d) = (Inr (), d2)"
    "read_file ?p d2 = Some (concat (h_pieces resp))"
    by (metis add_0 append_Nil prod.collapse)
  have run: "download cfg http_get ts url d = (Inr ?p, d2)"
    using assms w(1) by (simp add: download_def mkstemp_def Let_def bindE_def thenE_def catch_def ret_def)
  show ?thesis by (cases rule: download_disk [of cfg http_get ts url d]) (use run w(2) in auto)
qed

end
