(* ===== verification/World.thy ===== *)
theory World
  imports Chunker Pagination Storage Jobstore Taskqueue Converter
begin

section \<open>One process and what it talks to\<close>

text \<open>
  The state an API process or a worker acts on: its database connection, its broker
  connection, the object store, its local disk, its clock and its stop flag. \<open>deps\<close> are the
  settings and the code outside the repository: the S3 client, the AMQP client, HTTP, pypdf,
  markitdown, SHA-256, the installed markitdown version, the environment, the UUID source and
  the host name.
\<close>

record ('p, 'q, 'o) deps =
  d_cfg :: settings
  d_s3 :: "'o s3_api"
  d_amqp :: "'q amqp_api"
  d_http_get :: "string \<Rightarrow> exn + http_response"
  d_read_pdf :: "bytes \<Rightarrow> exn + 'p list"
  d_write_pdf :: "'p list \<Rightarrow> pdf_output"
  d_markitdown :: "llm_client option \<Rightarrow> string \<Rightarrow> bytes \<Rightarrow> exn + pytext"
  d_sha256 :: "bytes \<Rightarrow> string"
  d_version :: "exn + string"
  d_environ :: environ
  d_uuid :: "nat \<Rightarrow> string"
  d_owner :: string

text \<open>\<open>d_owner\<close> is what this function returns in the process.\<close>

definition consumer_name :: "string \<Rightarrow> int \<Rightarrow> string" where
  "consumer_name hostname pid = hostname @ ''-'' @ show_int pid"

record ('q, 'o) world =
  w_db :: "tables client"
  w_mq :: "'q mq"
  w_s3 :: 'o
  w_disk :: disk
  w_clock :: "nat \<Rightarrow> int"
  w_ticks :: nat
  w_uuids :: nat
  w_stop :: bool

definition on_db :: "(tables client, 'a) io \<Rightarrow> (('q, 'o) world, 'a) io" where
  "on_db f w = (case f (w_db w) of (r, x) \<Rightarrow> (r, w\<lparr>w_db := x\<rparr>))"

definition on_mq :: "('q mq, 'a) io \<Rightarrow> (('q, 'o) world, 'a) io" where
  "on_mq f w = (case f (w_mq w) of (r, x) \<Rightarrow> (r, w\<lparr>w_mq := x\<rparr>))"

definition on_s3 :: "('o, 'a) io \<Rightarrow> (('q, 'o) world, 'a) io" where
  "on_s3 f w = (case f (w_s3 w) of (r, x) \<Rightarrow> (r, w\<lparr>w_s3 := x\<rparr>))"

definition on_disk :: "(disk, 'a) io \<Rightarrow> (('q, 'o) world, 'a) io" where
  "on_disk f w = (case f (w_disk w) of (r, x) \<Rightarrow> (r, w\<lparr>w_disk := x\<rparr>))"

definition on_s3_disk :: "('o \<times> disk, 'a) io \<Rightarrow> (('q, 'o) world, 'a) io" where
  "on_s3_disk f w = (case f (w_s3 w, w_disk w) of (r, s, d) \<Rightarrow> (r, w\<lparr>w_s3 := s, w_disk := d\<rparr>))"

text \<open>\<^verbatim>\<open>jobstore.now()\<close> and \<^verbatim>\<open>jobstore.new_job_id()\<close>.\<close>

definition now :: "(('q, 'o) world, int) io" where
  "now w = (Inr (w_clock w (w_ticks w)), w\<lparr>w_ticks := w_ticks w + 1\<rparr>)"

definition new_job_id :: "('p, 'q, 'o) deps \<Rightarrow> (('q, 'o) world, string) io" where
  "new_job_id D w = (Inr (d_uuid D (w_uuids w)), w\<lparr>w_uuids := w_uuids w + 1\<rparr>)"

text \<open>A job store operation reads the clock first.\<close>

definition timed :: "(int \<Rightarrow> (tables client, 'a) io) \<Rightarrow> (('q, 'o) world, 'a) io" where
  "timed f = bindE now (\<lambda>ts. on_db (f ts))"

lemma on_db_run: "f (w_db w) = (r, x) \<Longrightarrow> on_db f w = (r, w\<lparr>w_db := x\<rparr>)"
  by (simp add: on_db_def)

lemma on_mq_run: "f (w_mq w) = (r, x) \<Longrightarrow> on_mq f w = (r, w\<lparr>w_mq := x\<rparr>)"
  by (simp add: on_mq_def)

lemma on_s3_run: "f (w_s3 w) = (r, x) \<Longrightarrow> on_s3 f w = (r, w\<lparr>w_s3 := x\<rparr>)"
  by (simp add: on_s3_def)

lemma on_disk_run: "f (w_disk w) = (r, x) \<Longrightarrow> on_disk f w = (r, w\<lparr>w_disk := x\<rparr>)"
  by (simp add: on_disk_def)

lemma timed_run:
  "f (w_clock w (w_ticks w)) (w_db w) = (r, x) \<Longrightarrow>
   timed f w = (r, w\<lparr>w_ticks := w_ticks w + 1, w_db := x\<rparr>)"
  by (simp add: timed_def bindE_def now_def on_db_def)

text \<open>Which parts of the world an operation can touch.\<close>

lemma on_parts [simp]:
  "w_mq (snd (on_db f w)) = w_mq w" "w_s3 (snd (on_db f w)) = w_s3 w" "w_disk (snd (on_db f w)) = w_disk w"
  "w_db (snd (on_mq g w)) = w_db w" "w_s3 (snd (on_mq g w)) = w_s3 w" "w_disk (snd (on_mq g w)) = w_disk w"
  "w_db (snd (on_s3 h w)) = w_db w" "w_mq (snd (on_s3 h w)) = w_mq w" "w_disk (snd (on_s3 h w)) = w_disk w"
  "w_db (snd (on_disk k w)) = w_db w" "w_mq (snd (on_disk k w)) = w_mq w" "w_s3 (snd (on_disk k w)) = w_s3 w"
  "w_db (snd (on_s3_disk l w)) = w_db w" "w_mq (snd (on_s3_disk l w)) = w_mq w"
  "w_mq (snd (timed m w)) = w_mq w" "w_s3 (snd (timed m w)) = w_s3 w" "w_disk (snd (timed m w)) = w_disk w"
  by (simp_all add: on_db_def on_mq_def on_s3_def on_disk_def on_s3_disk_def timed_def bindE_def now_def split: prod.splits)

text \<open>Concrete instances of the outside code, for the witnesses.\<close>

definition sample_deps :: "settings \<Rightarrow> (nat, broker_state remote, s3 remote) deps" where
  "sample_deps cfg = \<lparr>d_cfg = cfg, d_s3 = s3_client, d_amqp = amqp_client,
     d_http_get = (\<lambda>url. Inr \<lparr>h_status = 200, h_pieces = [[37, 65], [66, 67]], h_broken = None\<rparr>),
     d_read_pdf = (\<lambda>b. case b of [] \<Rightarrow> Inl (ValueError ''not a PDF'')
        | x # ps \<Rightarrow> if x = 37 then Inr (map unat ps) else Inl (ValueError ''not a PDF'')),
     d_write_pdf = (\<lambda>ps. Inr (37 # map word_of_nat ps, None)),
     d_markitdown = (\<lambda>client path b. Inr (map unat b)),
     d_sha256 = (\<lambda>b. ''f'' @ map (\<lambda>x. if even (unat x) then CHR ''0'' else CHR ''1'') b),
     d_version = Inr ''0.1.3'', d_environ = Map.empty,
     d_uuid = (\<lambda>n. ''job'' @ replicate n (CHR ''0'')), d_owner = ''worker-1''\<rparr>"

definition sample_world :: "tables client \<Rightarrow> s3 remote \<Rightarrow> (broker_state remote, s3 remote) world" where
  "sample_world c s = \<lparr>w_db = c,
     w_mq = \<lparr>broker = healthy_at \<lparr>b_sent = [], b_open = False, b_ready = [], b_acked = []\<rparr>,
             has_connection = False, has_channel = False\<rparr>,
     w_s3 = s, w_disk = [], w_clock = int, w_ticks = 1000, w_uuids = 0, w_stop = False\<rparr>"

end
