(* ===== verification/Worker.thy ===== *)
theory Worker
  imports World "HOL-Library.Product_Lexorder" "HOL-Library.Multiset"
begin

section \<open>worker.py: the consumer\<close>

text \<open>
  Fetching sources through the local cache, converting one chunk, assembling a finished
  document, deciding about retries, and the consumer loop of \<^verbatim>\<open>taskqueue.consume\<close> around it.
  Log lines are left out. A page size for which \<open>paginate\<close> does not return (see
  \<^theory_text>\<open>Pagination\<close>) is shown as the exception class \<^verbatim>\<open>Hang\<close>, which nothing in the source
  raises.
\<close>

subsection \<open>The source cache\<close>

text \<open>
  Least recently used files go first: the entries in order of access time, size and path, until
  the total fits. The local disk does not fail, so the handler for \<^verbatim>\<open>OSError\<close> is never taken.
\<close>

fun evict :: "int \<Rightarrow> int \<Rightarrow> (string \<times> file_entry) list \<Rightarrow> disk \<Rightarrow> disk" where
  "evict max_bytes used [] d = d"
| "evict max_bytes used ((full, e) # rest) d =
     (if used \<le> max_bytes then d
      else evict max_bytes (used - int (length (fe_data e))) rest (remove_file full d))"

definition cache_order :: "string \<times> file_entry \<Rightarrow> int \<times> nat \<times> string" where
  "cache_order f = (fe_atime (snd f), length (fe_data (snd f)), fst f)"

definition prune_source_cache :: "settings \<Rightarrow> int option \<Rightarrow> disk \<Rightarrow> disk" where
  "prune_source_cache cfg max_bytes d =
     (let limit = (case max_bytes of None \<Rightarrow> SOURCE_CACHE_MAX_BYTES cfg | Some m \<Rightarrow> m);
          entries = list_files (SOURCE_CACHE_DIR cfg) d;
          used = (\<Sum>f\<leftarrow>entries. int (length (fe_data (snd f))))
      in evict limit used (sort_key cache_order entries) d)"

text \<open>
  The block whose exceptions \<open>fetch_source\<close> cleans up after: download under the temporary name,
  then move the file into place. What it has done when it raises is also what a process leaves
  behind that dies in the middle of the download.
\<close>

definition store_source :: "('p, 'q, 'o) deps \<Rightarrow> string \<Rightarrow> string \<Rightarrow> string \<Rightarrow> int \<Rightarrow> (('q, 'o) world, unit) io" where
  "store_source D file_hash temp_path path t =
     thenE (on_s3_disk (get_source (d_s3 D) file_hash temp_path t))
       (on_disk (replace_file temp_path path))"

definition fetch_source :: "('p, 'q, 'o) deps \<Rightarrow> string \<Rightarrow> (('q, 'o) world, string) io" where
  "fetch_source D file_hash =
     (let cfg = d_cfg D; path = path_join (SOURCE_CACHE_DIR cfg) file_hash in
      bindE (\<lambda>w. (Inr (path_exists path (w_disk w)), w)) (\<lambda>cached.
        if cached
        then bindE now (\<lambda>t. thenE (on_disk (\<lambda>d. (Inr (), utime path t d))) (ret path))
        else
          bindE now (\<lambda>t.
          bindE (on_disk (mkstemp (SOURCE_CACHE_DIR cfg) [] t)) (\<lambda>temp_path.
          thenE
            (catch (store_source D file_hash temp_path path t)
              (\<lambda>e. thenE (on_disk (remove_if_exists temp_path)) (throw e)))
            (thenE (on_disk (\<lambda>d. (Inr (), prune_source_cache cfg None d)))
              (ret path))))))"

subsection \<open>Converting one range\<close>

definition convert_on_disk :: "('p, 'q, 'o) deps \<Rightarrow> string \<Rightarrow> bool \<Rightarrow> (('q, 'o) world, pytext) io" where
  "convert_on_disk D path use_llm w =
     (convert_file (d_cfg D) (d_environ D) (d_markitdown D) path use_llm (w_disk w), w)"

definition convert_range ::
  "('p, 'q, 'o) deps \<Rightarrow> string \<Rightarrow> int \<Rightarrow> int \<Rightarrow> bool \<Rightarrow> (('q, 'o) world, pytext) io" where
  "convert_range D file_hash start stop use_llm =
     bindE (fetch_source D file_hash) (\<lambda>source_path.
       if stop = -1 then convert_on_disk D source_path use_llm
       else
         bindE now (\<lambda>t.
         bindE (on_disk (mkstemp tmp_dir ''.pdf'' t)) (\<lambda>chunk_path.
         finallyE
           (thenE (on_disk (extract_pages (d_read_pdf D) (d_write_pdf D) t source_path start stop chunk_path))
             (convert_on_disk D chunk_path use_llm))
           (on_disk (remove_if_exists chunk_path)))))"

subsection \<open>Assembling the document\<close>

fun collect_parts :: "('p, 'q, 'o) deps \<Rightarrow> string \<Rightarrow> int list \<Rightarrow> (('q, 'o) world, pytext list) io" where
  "collect_parts D doc_key [] = ret []"
| "collect_parts D doc_key (index # rest) =
     bindE (on_s3 (get_part (d_s3 D) doc_key index)) (\<lambda>part.
       case part of
         None \<Rightarrow> throw (RuntimeError (''chunk '' @ show_int index @ '' missing from storage''))
       | Some p \<Rightarrow> bindE (collect_parts D doc_key rest) (\<lambda>parts. ret (p # parts)))"

definition join_parts :: "pytext list \<Rightarrow> pytext" where
  "join_parts parts = py_join [10, 10] (filter (\<lambda>p. p \<noteq> [] \<and> py_strip p \<noteq> []) parts)"

definition assemble :: "('p, 'q, 'o) deps \<Rightarrow> job_row \<Rightarrow> (('q, 'o) world, unit) io" where
  "assemble D job =
     (let cfg = d_cfg D; doc_key = j_doc_key job in
      bindE (on_db (chunk_indices cfg (j_job_id job))) (\<lambda>indices.
      bindE (collect_parts D doc_key indices) (\<lambda>parts.
      let markdown = join_parts parts in
      case paginate (PAGE_SIZE cfg) markdown of
        None \<Rightarrow> throw (OtherError ''Hang'' ''paginate'')
      | Some pages \<Rightarrow>
          bindE (on_s3 (put_document cfg (d_s3 D) doc_key pages (int (length markdown)))) (\<lambda>_.
          thenE (timed (\<lambda>ts. record_document cfg ts doc_key (j_file_hash job) (int (length pages))
                         (j_total_chunks job) (int (length markdown)) (PAGE_SIZE cfg)))
            (timed (\<lambda>ts. finish_job cfg ts (j_job_id job)))))))"

subsection \<open>Handling one delivered task\<close>

definition handle_failure :: "('p, 'q, 'o) deps \<Rightarrow> chunk_task \<Rightarrow> exn \<Rightarrow> (('q, 'o) world, unit) io" where
  "handle_failure D task e =
     (let cfg = d_cfg D; error = exn_name e @ '': '' @ exn_str e in
      if t_attempt task \<ge> MAX_ATTEMPTS cfg
      then thenE (on_mq (publish_failed cfg (d_amqp D) task error))
            (thenE (timed (\<lambda>ts. fail_chunk cfg ts (t_job_id task) (t_chunk_index task) error))
              (timed (\<lambda>ts. fail_job cfg ts (t_job_id task)
                 (''chunk '' @ show_int (t_chunk_index task) @ '' failed after '' @
                  show_int (t_attempt task) @ '' attempts: '' @ exn_str e)
                 (Some (t_chunk_index task)))))
      else thenE (timed (\<lambda>ts. reschedule_chunk cfg ts (t_job_id task) (t_chunk_index task) error))
            (on_mq (publish_retry cfg (d_amqp D) task)))"

definition assemble_finished :: "('p, 'q, 'o) deps \<Rightarrow> string \<Rightarrow> (('q, 'o) world, unit) io" where
  "assemble_finished D jid =
     catch
       (bindE (on_db (get_job (d_cfg D) jid)) (\<lambda>job.
          case job of
            None \<Rightarrow> throw (TypeError ''NoneType object is not subscriptable'')
          | Some j \<Rightarrow> assemble D j))
       (\<lambda>e. timed (\<lambda>ts. fail_job (d_cfg D) ts jid (''assembly failed: '' @ exn_str e) None))"

definition handle :: "('p, 'q, 'o) deps \<Rightarrow> chunk_task \<Rightarrow> (('q, 'o) world, unit) io" where
  "handle D task =
     (let cfg = d_cfg D in
      bindE (on_db (get_job cfg (t_job_id task))) (\<lambda>job.
        case job of
          None \<Rightarrow> ret ()
        | Some j \<Rightarrow>
            if terminal (j_status j) then ret ()
            else
              thenE (timed (\<lambda>ts. start_chunk cfg ts (t_job_id task) (t_chunk_index task) (d_owner D) (t_attempt task)))
                (try_else
                  (bindE (convert_range D (t_file_hash task) (t_start_page task) (t_end_page task) (t_use_llm task))
                    (\<lambda>markdown. on_s3 (put_part (d_s3 D) (t_doc_key task) (t_chunk_index task) markdown)))
                  (handle_failure D task)
                  (\<lambda>key.
                    bindE (timed (\<lambda>ts. complete_chunk cfg ts (t_job_id task) (t_chunk_index task) key))
                      (\<lambda>remaining.
                        if remaining = 0 then assemble_finished D (t_job_id task) else ret ())))))"

subsection \<open>The consumer loop\<close>

definition touch_liveness :: "('p, 'q, 'o) deps \<Rightarrow> (('q, 'o) world, unit) io" where
  "touch_liveness D =
     bindE now (\<lambda>t. on_disk (\<lambda>d. (Inr (),
       write_file (WORKER_LIVENESS_FILE (d_cfg D)) (str_bytes (show_int t)) t d)))"

definition on_task :: "('p, 'q, 'o) deps \<Rightarrow> chunk_task \<Rightarrow> (('q, 'o) world, unit) io" where
  "on_task D task = thenE (touch_liveness D) (catch (handle D task) (\<lambda>_. ret ()))"

definition on_delivery ::
  "('p, 'q, 'o) deps \<Rightarrow> (chunk_task \<Rightarrow> (('q, 'o) world, unit) io) \<Rightarrow> int \<times> bytes \<Rightarrow> (('q, 'o) world, unit) io" where
  "on_delivery D handler = (\<lambda>(tag, body).
     let cfg = d_cfg D; ack = on_mq (on_channel (basic_ack (d_amqp D) tag)) in
     case from_bytes body of
       Inl e \<Rightarrow>
         thenE (on_mq (on_channel (basic_publish (d_amqp D) (DLX_EXCHANGE cfg) (RABBITMQ_QUEUE cfg) body))) ack
     | Inr task \<Rightarrow> finallyE (handler task) ack)"

text \<open>
  The loop over deliveries, at most \<open>fuel\<close> of them; the value says whether it was stopped.
\<close>

fun consume_loop ::
  "nat \<Rightarrow> ('p, 'q, 'o) deps \<Rightarrow> (chunk_task \<Rightarrow> (('q, 'o) world, unit) io) \<Rightarrow> (('q, 'o) world, bool) io" where
  "consume_loop 0 D handler = ret False"
| "consume_loop (Suc fuel) D handler =
     bindE (on_mq (on_channel (next_delivery (d_amqp D)))) (\<lambda>delivery.
     bindE (\<lambda>w. (Inr (w_stop w), w)) (\<lambda>stop.
       if stop then ret True
       else case delivery of
         None \<Rightarrow> consume_loop fuel D handler
       | Some m \<Rightarrow> thenE (on_delivery D handler m) (consume_loop fuel D handler)))"

definition consume ::
  "nat \<Rightarrow> ('p, 'q, 'o) deps \<Rightarrow> (chunk_task \<Rightarrow> (('q, 'o) world, unit) io) \<Rightarrow> (('q, 'o) world, bool) io" where
  "consume fuel D handler =
     (let cfg = d_cfg D in
      thenE (on_mq (channel cfg (d_amqp D)))
       (thenE (on_mq (on_channel (basic_qos (d_amqp D) (RABBITMQ_PREFETCH cfg))))
         (bindE (consume_loop fuel D handler) (\<lambda>stopped.
            if stopped then catch (thenE (on_mq (on_channel (cancel_consumer (d_amqp D)))) (ret True)) (\<lambda>_. ret True)
            else ret False))))"

text \<open>
  \<^verbatim>\<open>run_forever\<close>, for at most \<open>rounds\<close> reconnections: None when it is still running.
\<close>

fun run_rounds :: "nat \<Rightarrow> nat \<Rightarrow> ('p, 'q, 'o) deps \<Rightarrow> ('q, 'o) world \<Rightarrow> ('q, 'o) world option" where
  "run_rounds 0 fuel D w = None"
| "run_rounds (Suc rounds) fuel D w =
     (if w_stop w then Some w
      else case thenE (touch_liveness D) (consume fuel D (on_task D)) w of
        (Inr True, w') \<Rightarrow> run_rounds rounds fuel D w'
      | (Inr False, w') \<Rightarrow> None
      | (Inl e, w') \<Rightarrow>
          if w_stop w' then Some w'
          else run_rounds rounds fuel D (snd (on_mq (close_mq (d_amqp D)) w')))"

definition run_forever :: "nat \<Rightarrow> nat \<Rightarrow> ('p, 'q, 'o) deps \<Rightarrow> ('q, 'o) world \<Rightarrow> ('q, 'o) world option" where
  "run_forever rounds fuel D w =
     map_option (\<lambda>w'. snd (on_mq (close_mq (d_amqp D)) w')) (run_rounds rounds fuel D w)"

definition handle_signal :: "(('q, 'o) world, unit) io" where
  "handle_signal w = (Inr (), w\<lparr>w_stop := True\<rparr>)"

text \<open>The value says whether the worker stopped within the given bounds.\<close>

definition main :: "nat \<Rightarrow> nat \<Rightarrow> ('p, 'q, 'o) deps \<Rightarrow> (('q, 'o) world, bool) io" where
  "main rounds fuel D =
     thenE (on_db (migrate (job_env (d_cfg D))))
      (thenE (on_s3 (ensure_bucket (d_s3 D)))
        (\<lambda>w. case run_forever rounds fuel D w of None \<Rightarrow> (Inr False, w) | Some w' \<Rightarrow> (Inr True, w')))"

subsection \<open>Eviction is least recently used\<close>

definition cache_size :: "string \<Rightarrow> disk \<Rightarrow> int" where
  "cache_size dir d = (\<Sum>f\<leftarrow>list_files dir d. int (length (fe_data (snd f))))"

abbreviation file_size :: "string \<times> file_entry \<Rightarrow> int" where
  "file_size f \<equiv> int (length (fe_data (snd f)))"

text \<open>Eviction removes a beginning of the ordered entries, no longer than needed.\<close>

lemma remove_file_filter: "remove_file p d = filter (\<lambda>f. fst f \<noteq> p) d"
  by (induction d) (auto simp: remove_file_def)

lemma evict_prefix:
  "\<exists>k \<le> length es. evict m used es d = filter (\<lambda>f. fst f \<notin> fst ` set (take k es)) d \<and>
     (k < length es \<longrightarrow> used - (\<Sum>f\<leftarrow>take k es. file_size f) \<le> m) \<and>
     (\<forall>j < k. m < used - (\<Sum>f\<leftarrow>take j es. file_size f))"
proof (induction es arbitrary: used d)
  case (Cons f es)
  obtain p e where f: "f = (p, e)" by fastforce
  show ?case
  proof (cases "used \<le> m")
    case True
    then show ?thesis by (intro exI [of _ 0]) (simp add: f)
  next
    case False
    from Cons.IH [of "used - file_size f" "remove_file p d"] obtain k where k: "k \<le> length es"
      "evict m (used - file_size f) es (remove_file p d) =
        filter (\<lambda>f. fst f \<notin> fst ` set (take k es)) (remove_file p d)"
      "k < length es \<longrightarrow> used - file_size f - (\<Sum>f\<leftarrow>take k es. file_size f) \<le> m"
      "\<forall>j < k. m < used - file_size f - (\<Sum>f\<leftarrow>take j es. file_size f)" by blast
    have "evict m used (f # es) d = filter (\<lambda>g. fst g \<notin> fst ` set (take (Suc k) (f # es))) d"
      using False k(2) by (simp add: f remove_file_filter conj_commute)
    moreover have "\<forall>j < Suc k. m < used - (\<Sum>f\<leftarrow>take j (f # es). file_size f)"
      using k(4) False by (auto simp: less_Suc_eq_0_disj algebra_simps)
    ultimately show ?thesis using k(1,3) by (intro exI [of _ "Suc k"]) (simp add: algebra_simps)
  qed
qed simp

lemma sum_list_split: "(\<Sum>f\<leftarrow>xs. g f) - (\<Sum>f\<leftarrow>take k xs. g f) = (\<Sum>f\<leftarrow>drop k xs. g f)" for g :: "'a \<Rightarrow> int"
  by (metis add_diff_cancel_left' append_take_drop_id map_append sum_list_append)

lemma sum_sort_key: "(\<Sum>f\<leftarrow>sort_key h xs. g f) = (\<Sum>f\<leftarrow>xs. g f)" for g :: "'a \<Rightarrow> int"
  by (metis mset_map mset_sort sum_mset_sum_list)

lemma list_files_filter: "list_files dir (filter (\<lambda>f. fst f \<notin> R) d) = filter (\<lambda>f. fst f \<notin> R) (list_files dir d)"
  by (simp add: list_files_def conj_commute)

lemma sum_filter_drop:
  fixes g :: "'a \<times> 'b \<Rightarrow> int"
  assumes "distinct (map fst es)"
  shows "(\<Sum>f\<leftarrow>filter (\<lambda>f. fst f \<notin> fst ` set (take k es)) es. g f) = (\<Sum>f\<leftarrow>drop k es. g f)"
proof -
  let ?Q = "\<lambda>f. fst f \<notin> fst ` set (take k es)"
  have "fst ` set (take k es) \<inter> fst ` set (drop k es) = {}"
    using assms by (metis append_take_drop_id distinct_append map_append set_map)
  then have "filter ?Q (drop k es) = drop k es" by (intro filter_True) (blast intro: imageI)
  moreover have "filter ?Q (take k es) = []" by (auto simp: filter_empty_conv)
  ultimately have "filter ?Q es = drop k es" by (metis append_Nil append_take_drop_id filter_append)
  then show ?thesis by simp
qed

lemma distinct_cache_entries:
  assumes "disk_wf d"
  shows "distinct (map fst (sort_key cache_order (list_files dir d)))"
proof -
  have "distinct (map fst (list_files dir d))"
    using assms by (simp add: disk_wf_def list_files_def distinct_map_filter case_prod_beta)
  then show ?thesis by (metis distinct_map distinct_sort set_sort)
qed

lemma prune_spec:
  fixes cfg :: settings
  assumes "disk_wf d"
  defines "es \<equiv> sort_key cache_order (list_files (SOURCE_CACHE_DIR cfg) d)"
  shows "\<exists>k \<le> length es. prune_source_cache cfg (Some m) d = filter (\<lambda>f. fst f \<notin> fst ` set (take k es)) d \<and>
    cache_size (SOURCE_CACHE_DIR cfg) (prune_source_cache cfg (Some m) d) = (\<Sum>f\<leftarrow>drop k es. file_size f) \<and>
    (k < length es \<longrightarrow> (\<Sum>f\<leftarrow>drop k es. file_size f) \<le> m) \<and>
    (\<forall>j < k. m < (\<Sum>f\<leftarrow>drop j es. file_size f))"
proof -
  let ?dir = "SOURCE_CACHE_DIR cfg"
  have used: "(\<Sum>f\<leftarrow>list_files ?dir d. file_size f) = (\<Sum>f\<leftarrow>es. file_size f)"
    unfolding es_def by (rule sum_sort_key [symmetric])
  have dist: "distinct (map fst es)" unfolding es_def by (rule distinct_cache_entries [OF assms(1)])
  obtain k where k: "k \<le> length es"
    "prune_source_cache cfg (Some m) d = filter (\<lambda>f. fst f \<notin> fst ` set (take k es)) d"
    "k < length es \<longrightarrow> (\<Sum>f\<leftarrow>drop k es. file_size f) \<le> m" "\<forall>j < k. m < (\<Sum>f\<leftarrow>drop j es. file_size f)"
    using evict_prefix [of es m "\<Sum>f\<leftarrow>es. file_size f" d]
    by (auto simp: prune_source_cache_def Let_def used es_def [symmetric] sum_list_split)
  have "cache_size ?dir (prune_source_cache cfg (Some m) d)
      = (\<Sum>f\<leftarrow>filter (\<lambda>f. fst f \<notin> fst ` set (take k es)) (list_files ?dir d). file_size f)"
    by (simp add: cache_size_def k(2) list_files_filter)
  also have "\<dots> = (\<Sum>f\<leftarrow>filter (\<lambda>f. fst f \<notin> fst ` set (take k es)) es. file_size f)"
  proof -
    have "filter Q es = sort_key cache_order (filter Q (list_files ?dir d))" for Q
      unfolding es_def by (rule filter_sort)
    then show ?thesis by (simp only: sum_sort_key)
  qed
  also have "\<dots> = (\<Sum>f\<leftarrow>drop k es. file_size f)" by (rule sum_filter_drop [OF dist])
  finally show ?thesis using k by blast
qed

lemma sorted_take_drop:
  "sorted (map h es) \<Longrightarrow> f \<in> set (take k es) \<Longrightarrow> g \<in> set (drop k es) \<Longrightarrow> h f \<le> h g"
proof -
  assume "sorted (map h es)" and mem: "f \<in> set (take k es)" "g \<in> set (drop k es)"
  then have "sorted (map h (take k es) @ map h (drop k es))" by (simp add: map_append [symmetric] del: map_append)
  with mem show ?thesis by (simp add: sorted_append)
qed

text \<open>What pruning deletes comes before what it keeps.\<close>

lemma prune_order:
  assumes "disk_wf d" and f: "f \<in> set d - set (prune_source_cache cfg (Some m) d)"
  shows "f \<in> set (list_files (SOURCE_CACHE_DIR cfg) d)"
    "g \<in> set (list_files (SOURCE_CACHE_DIR cfg) (prune_source_cache cfg (Some m) d)) \<Longrightarrow> cache_order f \<le> cache_order g"
proof -
  let ?dir = "SOURCE_CACHE_DIR cfg"
  define es where "es = sort_key cache_order (list_files ?dir d)"
  obtain k where k: "prune_source_cache cfg (Some m) d = filter (\<lambda>f. fst f \<notin> fst ` set (take k es)) d"
    using prune_spec [OF assms(1), of cfg m] unfolding es_def by blast
  have set_es: "set es = set (list_files ?dir d)" by (simp add: es_def)
  obtain h where h: "h \<in> set (take k es)" "fst h = fst f" using f k by auto
  have "h \<in> set d" using in_set_takeD [OF h(1)] set_es by (auto simp: list_files_def)
  then have gone: "f \<in> set (take k es)" using assms h by (auto simp: disk_wf_def distinct_map inj_on_def)
  show "f \<in> set (list_files ?dir d)" using in_set_takeD [OF gone] set_es by simp
  show "cache_order f \<le> cache_order g" if "g \<in> set (list_files ?dir (prune_source_cache cfg (Some m) d))"
  proof -
    have "g \<in> set es" "g \<notin> set (take k es)" using that k set_es by (auto simp: list_files_def)
    then have "g \<in> set (drop k es)" by (metis Un_iff append_take_drop_id set_append)
    moreover have "sorted (map cache_order es)" by (simp add: es_def)
    ultimately show ?thesis by (intro sorted_take_drop [OF _ gone])
  qed
qed

text \<open>
  C30. Pruning brings the source cache under its budget by deleting least recently used files:
  it touches nothing outside the cache directory, every file it deletes precedes every cached
  file it keeps in the order of access time, size and path, and it deletes nothing when the
  cache already fits.
\<close>

theorem prune_source_cache_lru:
  assumes "disk_wf d"
  shows "let dir = SOURCE_CACHE_DIR cfg; d' = prune_source_cache cfg (Some max_bytes) d in
    cache_size dir d' \<le> max 0 max_bytes \<and> set d' \<subseteq> set d \<and>
    (\<forall>f \<in> set d - set d'. f \<in> set (list_files dir d) \<and>
       (\<forall>g \<in> set (list_files dir d'). cache_order f \<le> cache_order g)) \<and>
    (cache_size dir d \<le> max_bytes \<longrightarrow> d' = d)"
proof -
  let ?dir = "SOURCE_CACHE_DIR cfg" and ?d' = "prune_source_cache cfg (Some max_bytes) d"
  define es where "es = sort_key cache_order (list_files ?dir d)"
  obtain k where k: "k \<le> length es" "?d' = filter (\<lambda>f. fst f \<notin> fst ` set (take k es)) d"
    "cache_size ?dir ?d' = (\<Sum>f\<leftarrow>drop k es. file_size f)"
    "k < length es \<longrightarrow> (\<Sum>f\<leftarrow>drop k es. file_size f) \<le> max_bytes"
    "\<forall>j < k. max_bytes < (\<Sum>f\<leftarrow>drop j es. file_size f)"
    using prune_spec [OF assms, of cfg max_bytes] unfolding es_def by blast
  have "cache_size ?dir ?d' \<le> max 0 max_bytes" using k by (cases "k < length es") auto
  moreover have "?d' = d" if "cache_size ?dir d \<le> max_bytes"
  proof -
    have "(\<Sum>f\<leftarrow>drop 0 es. file_size f) \<le> max_bytes"
      using that by (simp add: cache_size_def es_def sum_sort_key)
    then have "k = 0" using k(5) by (metis gr0I linorder_not_less)
    then show ?thesis using k(2) by simp
  qed
  moreover have "set ?d' \<subseteq> set d" using k(2) by auto
  ultimately show ?thesis using prune_order [OF assms, of _ cfg max_bytes] unfolding Let_def by blast
qed

definition sample_cache :: disk where
  "sample_cache = [(''/tmp/markitdown-src/a'', \<lparr>fe_data = [1, 2, 3], fe_atime = 9\<rparr>),
     (''/tmp/markitdown-src/b'', \<lparr>fe_data = [1, 2], fe_atime = 4\<rparr>)]"

theorem prune_source_cache_lru_witness:
  "let dir = SOURCE_CACHE_DIR default_settings; d' = prune_source_cache default_settings (Some 3) sample_cache in
    cache_size dir d' \<le> max 0 3 \<and> set d' \<subseteq> set sample_cache \<and>
    (\<forall>f \<in> set sample_cache - set d'. f \<in> set (list_files dir sample_cache) \<and>
       (\<forall>g \<in> set (list_files dir d'). cache_order f \<le> cache_order g)) \<and>
    (cache_size dir sample_cache \<le> 3 \<longrightarrow> d' = sample_cache)"
  by (rule prune_source_cache_lru) (simp add: disk_wf_def sample_cache_def)

text \<open>A file newer than every other cached file survives when it fits on its own.\<close>

lemma prune_keeps_newest:
  assumes wf: "disk_wf d" and f: "f \<in> set (list_files (SOURCE_CACHE_DIR cfg) d)" and fits: "file_size f \<le> m"
    and newest: "\<And>g. g \<in> set (list_files (SOURCE_CACHE_DIR cfg) d) \<Longrightarrow> g \<noteq> f \<Longrightarrow> fe_atime (snd g) < fe_atime (snd f)"
  shows "f \<in> set (prune_source_cache cfg (Some m) d)"
proof -
  let ?dir = "SOURCE_CACHE_DIR cfg"
  define es where "es = sort_key cache_order (list_files ?dir d)"
  obtain k where k: "k \<le> length es" "prune_source_cache cfg (Some m) d = filter (\<lambda>f. fst f \<notin> fst ` set (take k es)) d"
    "\<forall>j < k. m < (\<Sum>f\<leftarrow>drop j es. file_size f)"
    using prune_spec [OF wf, of cfg m] unfolding es_def by blast
  have mem: "f \<in> set es" "f \<in> set d" using f by (auto simp: es_def list_files_def)
  have "es \<noteq> []" using mem(1) by auto
  have srt: "sorted (map cache_order es)" by (simp add: es_def)
  have last: "last es = f"
  proof (rule ccontr)
    assume ne: "last es \<noteq> f"
    have "last es \<in> set (list_files ?dir d)" using \<open>es \<noteq> []\<close> last_in_set [of es] by (simp add: es_def)
    then have "cache_order (last es) < cache_order f" using newest ne by (simp add: cache_order_def less_prod_def)
    moreover have "cache_order f \<le> cache_order (last es)"
    proof -
      have es: "es = butlast es @ [last es]" using \<open>es \<noteq> []\<close> by simp
      have "f \<in> set (butlast es)" using mem(1) ne by (subst (asm) es) auto
      moreover have "sorted (map cache_order (butlast es) @ [cache_order (last es)])"
        using srt by (subst (asm) es) simp
      ultimately show ?thesis by (simp add: sorted_append)
    qed
    ultimately show False by simp
  qed
  have dist: "distinct (map fst es)" unfolding es_def by (rule distinct_cache_entries [OF wf])
  have es: "es = butlast es @ [f]" using \<open>es \<noteq> []\<close> last by (metis append_butlast_last_id)
  have "k \<le> length es - 1"
  proof (rule ccontr)
    assume "\<not> k \<le> length es - 1"
    then have "m < (\<Sum>f\<leftarrow>drop (length es - 1) es. file_size f)" using k(3) by simp
    moreover have "drop (length es - 1) es = [f]" using es by (metis append_eq_conv_conj length_butlast)
    ultimately show False using fits by simp
  qed
  then have "set (take k es) \<subseteq> set (butlast es)" 
    by (metis butlast_conv_take set_take_subset_set_take)
  moreover have "fst f \<notin> fst ` set (butlast es)" using dist by (subst (asm) es) auto
  ultimately have "fst f \<notin> fst ` set (take k es)" by blast
  with k(2) mem(2) show ?thesis by simp
qed

end
