(* ===== verification/Sources.thy ===== *)
theory Sources
  imports Worker
begin

section \<open>Sources and their page ranges\<close>

text \<open>
  What a worker reads: the source cache holds nothing but complete stored sources whatever the
  object store does, and the ranges of a plan, fetched and converted one by one, are the pages
  of the source, each once and in order, with no temporary file left behind.
\<close>

subsection \<open>The cache\<close>

text \<open>
  Sources are named by a SHA-256 hex digest, so no source is taken for a temporary file. The cache
  is sound when every file under such a name is the stored source of that name.
\<close>

definition hex_name :: "string \<Rightarrow> bool" where
  "hex_name h \<longleftrightarrow> h \<noteq> [] \<and> set h \<subseteq> set ''0123456789abcdef''"

definition cached_path :: "settings \<Rightarrow> string \<Rightarrow> string" where
  "cached_path cfg h = path_join (SOURCE_CACHE_DIR cfg) h"

definition cache_sound :: "settings \<Rightarrow> (string \<Rightarrow> bytes option) \<Rightarrow> disk \<Rightarrow> bool" where
  "cache_sound cfg v d \<longleftrightarrow>
     (\<forall>h b. hex_name h \<longrightarrow> read_file (cached_path cfg h) d = Some b \<longrightarrow> v (source_key h) = Some b)"

lemma hex_not_temp: "hex_name h \<Longrightarrow> cached_path cfg h \<noteq> fresh_path (SOURCE_CACHE_DIR cfg) sfx d"
  by (auto simp: hex_name_def cached_path_def fresh_path_def)

lemma hex_no_slash: "hex_name h \<Longrightarrow> CHR ''/'' \<notin> set h"
  by (auto simp: hex_name_def)

lemma evict_read: "read_file q (evict m used es d) = read_file q d \<or> read_file q (evict m used es d) = None"
proof (induction es arbitrary: used d)
  case (Cons f es)
  obtain p e where f: "f = (p, e)" by fastforce
  show ?case using Cons.IH [of "used - int (length (fe_data e))" "remove_file p d"] by (auto simp: f split: if_splits)
qed simp

lemma prune_read:
  "read_file q (prune_source_cache cfg m d) = read_file q d \<or> read_file q (prune_source_cache cfg m d) = None"
  by (simp add: prune_source_cache_def Let_def evict_read)

text \<open>Everything a fetch does, on each of its paths.\<close>

lemma fetch_source_hit:
  assumes "path_exists (cached_path (d_cfg D) fh) (w_disk w)"
  shows "fetch_source D fh w = (Inr (cached_path (d_cfg D) fh),
    w\<lparr>w_ticks := w_ticks w + 1, w_disk := utime (cached_path (d_cfg D) fh) (w_clock w (w_ticks w)) (w_disk w)\<rparr>)"
  using assms by (simp add: fetch_source_def cached_path_def Let_def io_simps now_def on_disk_def)

lemma fetch_source_miss:
  fixes D :: "('p, 'q, 'o) deps"
  assumes "\<not> path_exists (cached_path (d_cfg D) fh) (w_disk w)" "hex_name fh"
    and get: "download_file (d_s3 D) (source_key fh) (w_s3 w) = (r, s')"
  shows "fetch_source D fh w =
    (case r of
       Inl e \<Rightarrow> (Inl e, w\<lparr>w_ticks := w_ticks w + 1, w_s3 := s'\<rparr>)
     | Inr (b, Some e) \<Rightarrow> (Inl e, w\<lparr>w_ticks := w_ticks w + 1, w_s3 := s'\<rparr>)
     | Inr (b, None) \<Rightarrow> (Inr (cached_path (d_cfg D) fh),
         w\<lparr>w_ticks := w_ticks w + 1, w_s3 := s',
           w_disk := prune_source_cache (d_cfg D) None
             (write_file (cached_path (d_cfg D) fh) b (w_clock w (w_ticks w)) (w_disk w))\<rparr>))"
proof -
  let ?path = "cached_path (d_cfg D) fh" and ?tmp = "fresh_path (SOURCE_CACHE_DIR (d_cfg D)) [] (w_disk w)"
  have new: "read_file ?tmp (w_disk w) = None" by (rule fresh_path_new)
  have ne: "?path \<noteq> ?tmp" by (rule hex_not_temp [OF assms(2)])
  have ex: "path_exists ?tmp (write_file ?tmp [] t (w_disk w))" for t by (simp add: path_exists_read)
  have ex': "path_exists ?tmp (write_file ?tmp b t (w_disk w))" for b t by (simp add: path_exists_read)
  show ?thesis
    using assms(1) get new ne ex ex'
    by (auto simp add: fetch_source_def store_source_def get_source_def cached_path_def [symmetric] Let_def io_simps now_def
        on_disk_def on_s3_disk_def mkstemp_def remove_if_exists_def remove_write_absent remove_temp split: sum.split option.split)
qed

text \<open>The disk after the try block of a fetch, whether it returned or raised, before any cleanup.\<close>

lemma store_source_disk:
  assumes "hex_name fh" "read_file (fresh_path (SOURCE_CACHE_DIR (d_cfg D)) [] (w_disk w)) (w_disk w) = None"
    and get: "download_file (d_s3 D) (source_key fh) (w_s3 w) = (r, s')"
  defines "temp \<equiv> fresh_path (SOURCE_CACHE_DIR (d_cfg D)) [] (w_disk w)"
  shows "w_disk (snd (store_source D fh temp (cached_path (d_cfg D) fh) t (w\<lparr>w_disk := write_file temp [] t (w_disk w)\<rparr>))) =
    (case r of
       Inl e \<Rightarrow> write_file temp [] t (w_disk w)
     | Inr (b, Some e) \<Rightarrow> write_file temp b t (w_disk w)
     | Inr (b, None) \<Rightarrow> write_file (cached_path (d_cfg D) fh) b t (w_disk w))"
    "w_s3 (snd (store_source D fh temp (cached_path (d_cfg D) fh) t (w\<lparr>w_disk := write_file temp [] t (w_disk w)\<rparr>))) = s'"
  using get hex_not_temp [OF assms(1), of "d_cfg D" "[]" "w_disk w"] assms(2) unfolding temp_def
  by (auto simp: store_source_def get_source_def io_simps on_disk_def on_s3_disk_def remove_temp split: sum.split option.split)

lemma newest_source_stays:
  assumes "disk_wf d" "hex_name fh" "read_file (cached_path cfg fh) d = None"
    and "int (length b) \<le> SOURCE_CACHE_MAX_BYTES cfg"
    and old: "\<forall>f \<in> set (list_files (SOURCE_CACHE_DIR cfg) d). fe_atime (snd f) < t"
  shows "read_file (cached_path cfg fh) (prune_source_cache cfg None (write_file (cached_path cfg fh) b t d)) = Some b"
proof -
  let ?p = "cached_path cfg fh" and ?e = "\<lparr>fe_data = b, fe_atime = t\<rparr>"
  let ?d = "write_file ?p b t d" and ?dir = "SOURCE_CACHE_DIR cfg"
  have d: "?d = d @ [(?p, ?e)]" by (rule write_file_absent [OF assms(3)])
  have "basename ?p = fh" using hex_no_slash [OF assms(2)] by (simp add: cached_path_def)
  then have files: "list_files ?dir ?d = list_files ?dir d @ [(?p, ?e)]"
    unfolding d list_files_def by (simp add: cached_path_def)
  have "(?p, ?e) \<in> set (prune_source_cache cfg (Some (SOURCE_CACHE_MAX_BYTES cfg)) ?d)"
    using assms(1,4) old by (intro prune_keeps_newest) (auto simp: files)
  then have mem: "(?p, ?e) \<in> set (prune_source_cache cfg None ?d)" by (simp add: prune_source_cache_def)
  then have "read_file ?p (prune_source_cache cfg None ?d) \<noteq> None"
    by (auto simp: read_file_def map_of_eq_None_iff intro!: image_eqI)
  then show ?thesis using prune_read [of ?p cfg None ?d] by auto
qed

lemma cache_sound_read:
  "(\<And>q. read_file q d' = read_file q d \<or> read_file q d' = None) \<Longrightarrow> cache_sound cfg v d \<Longrightarrow> cache_sound cfg v d'"
  unfolding cache_sound_def by (metis option.distinct(1))

lemma cache_sound_write:
  "cache_sound cfg v d \<Longrightarrow> hex_name fh \<Longrightarrow> v (source_key fh) = Some b \<Longrightarrow>
   cache_sound cfg v (write_file (cached_path cfg fh) b t d)"
  by (auto simp: cache_sound_def cached_path_def split: if_splits)

lemma fetch_outcome:
  assumes "object_store (d_s3 D) view" "hex_name fh" "cache_sound (d_cfg D) (view (w_s3 w)) (w_disk w)"
  shows "let (r, w') = fetch_source D fh w; path = cached_path (d_cfg D) fh; source = view (w_s3 w) (source_key fh) in
    view (w_s3 w') = view (w_s3 w) \<and> cache_sound (d_cfg D) (view (w_s3 w')) (w_disk w') \<and>
    (case r of
       Inl e \<Rightarrow> w_disk w' = w_disk w
     | Inr p \<Rightarrow> p = path \<and> source \<noteq> None \<and>
         (read_file path (w_disk w') = source \<or>
          read_file path (w_disk w') = None \<and>
          \<not> (disk_wf (w_disk w) \<and> int (length (the source)) \<le> SOURCE_CACHE_MAX_BYTES (d_cfg D) \<and>
             (\<forall>f \<in> set (list_files (SOURCE_CACHE_DIR (d_cfg D)) (w_disk w)). fe_atime (snd f) < w_clock w (w_ticks w)))))"
proof (cases "path_exists (cached_path (d_cfg D) fh) (w_disk w)")
  case True
  then obtain b where b: "read_file (cached_path (d_cfg D) fh) (w_disk w) = Some b" by (auto simp: path_exists_read)
  then have "view (w_s3 w) (source_key fh) = Some b" using assms(2,3) by (simp add: cache_sound_def)
  then show ?thesis using b assms(3) by (simp add: fetch_source_hit [OF True] Let_def cache_sound_def)
next
  case False
  obtain r s' where get: "download_file (d_s3 D) (source_key fh) (w_s3 w) = (r, s')" by fastforce
  have v: "view s' = view (w_s3 w)"
    using object_store.download_view [OF assms(1), of "source_key fh" "w_s3 w"] get by simp
  show ?thesis
  proof (cases "\<exists>b. r = Inr (b, None)")
    case False
    then show ?thesis using v assms(3)
      by (auto simp: fetch_source_miss [OF \<open>\<not> path_exists _ _\<close> assms(2) get] Let_def split: sum.split option.split)
  next
    case True
    then obtain b where r: "r = Inr (b, None)" by blast
    let ?p = "cached_path (d_cfg D) fh" and ?t = "w_clock w (w_ticks w)"
    let ?d = "write_file ?p b ?t (w_disk w)"
    have src: "view (w_s3 w) (source_key fh) = Some b"
      using object_store.download_ok [OF assms(1)] get r by blast
    have "cache_sound (d_cfg D) (view s') (prune_source_cache (d_cfg D) None ?d)"
      using cache_sound_read [OF prune_read cache_sound_write [OF assms(3,2) src]] v by simp
    moreover have "read_file ?p (w_disk w) = None" using False by (simp add: path_exists_read)
    note stays = newest_source_stays [OF _ assms(2) this, of b ?t]
    have "read_file ?p (prune_source_cache (d_cfg D) None ?d) \<in> {Some b, None}"
      using prune_read [of ?p "d_cfg D" None ?d] by auto
    ultimately show ?thesis using src v stays r
      by (auto simp: fetch_source_miss [OF \<open>\<not> path_exists _ _\<close> assms(2) get] Let_def)
  qed
qed

lemma cache_sound_temp:
  "cache_sound cfg v d \<Longrightarrow> cache_sound cfg v (write_file (fresh_path (SOURCE_CACHE_DIR cfg) sfx d') b t d)"
  using hex_not_temp by (auto simp: cache_sound_def split: if_splits)

text \<open>However far a download got, and before any cleanup, the cache is sound.\<close>

lemma interrupted_fetch_sound:
  fixes D :: "('p, 'q, 'o) deps"
  assumes "object_store (d_s3 D) view" "hex_name fh" "cache_sound (d_cfg D) (view (w_s3 w)) (w_disk w)"
  defines "temp \<equiv> fresh_path (SOURCE_CACHE_DIR (d_cfg D)) [] (w_disk w)"
  shows "cache_sound (d_cfg D) (view (w_s3 w))
    (w_disk (snd (store_source D fh temp (cached_path (d_cfg D) fh) t (w\<lparr>w_disk := write_file temp [] t (w_disk w)\<rparr>))))"
proof -
  obtain r s' where get: "download_file (d_s3 D) (source_key fh) (w_s3 w) = (r, s')" by fastforce
  have "view (w_s3 w) (source_key fh) = Some b" if "r = Inr (b, None)" for b
    using object_store.download_ok [OF assms(1)] get that by blast
  then show ?thesis
    using cache_sound_temp [OF assms(3)] cache_sound_write [OF assms(3,2)]
    unfolding temp_def store_source_disk(1) [OF assms(2) fresh_path_new get] by (auto split: sum.split option.split)
qed

text \<open>
  C14. Whatever the object store refuses or loses, and wherever a download breaks off, the cache
  holds only complete stored sources. This is so after the fetch; and it is so when the process
  dies between creating the temporary file and moving it into place, with any bytes written so
  far and no cleanup run. A fetch that raises leaves the files as they were, and one that returns
  names a file with exactly the stored bytes. The only exception is a file that the pruning after
  the download evicted again, which cannot happen to a source that fits the budget and is newer
  than every other cached file.
\<close>

theorem fetch_source_sound:
  assumes "object_store (d_s3 D) view" "hex_name fh" "cache_sound (d_cfg D) (view (w_s3 w)) (w_disk w)"
  shows "let (r, w') = fetch_source D fh w; path = cached_path (d_cfg D) fh; source = view (w_s3 w) (source_key fh);
      temp = fresh_path (SOURCE_CACHE_DIR (d_cfg D)) [] (w_disk w); created = w\<lparr>w_disk := write_file temp [] t (w_disk w)\<rparr>;
      (_, died) = store_source D fh temp path t created in
    view (w_s3 w') = view (w_s3 w) \<and> cache_sound (d_cfg D) (view (w_s3 w')) (w_disk w') \<and>
    cache_sound (d_cfg D) (view (w_s3 w)) (w_disk created) \<and> cache_sound (d_cfg D) (view (w_s3 w)) (w_disk died) \<and>
    (case r of
       Inl e \<Rightarrow> w_disk w' = w_disk w
     | Inr p \<Rightarrow> p = path \<and> source \<noteq> None \<and>
         (read_file path (w_disk w') = source \<or>
          read_file path (w_disk w') = None \<and>
          \<not> (disk_wf (w_disk w) \<and> int (length (the source)) \<le> SOURCE_CACHE_MAX_BYTES (d_cfg D) \<and>
             (\<forall>f \<in> set (list_files (SOURCE_CACHE_DIR (d_cfg D)) (w_disk w)). fe_atime (snd f) < w_clock w (w_ticks w)))))"
proof -
  have "cache_sound (d_cfg D) (view (w_s3 w))
      (w_disk (w\<lparr>w_disk := write_file (fresh_path (SOURCE_CACHE_DIR (d_cfg D)) [] (w_disk w)) [] t (w_disk w)\<rparr>))"
    using cache_sound_temp [OF assms(3)] by simp
  with interrupted_fetch_sound [OF assms, of t] fetch_outcome [OF assms] show ?thesis
    unfolding Let_def case_prod_beta by blast
qed

definition stored_source :: "fault list \<Rightarrow> s3 remote" where
  "stored_source fs = \<lparr>r_state = \<lparr>s3_bucket = True, s3_objects = [source_key ''f0'' \<mapsto> [37, 65, 66, 67]]\<rparr>, r_faults = fs\<rparr>"

theorem fetch_source_sound_witness:
  "let w = sample_world (new_client []) (stored_source [Lose (OSError ''reset'')]);
       D = sample_deps default_settings; path = cached_path default_settings ''f0'';
       temp = fresh_path (SOURCE_CACHE_DIR default_settings) [] (w_disk w);
       (r, died) = store_source D ''f0'' temp path 5 (w\<lparr>w_disk := write_file temp [] 5 (w_disk w)\<rparr>) in
    r = Inl (OSError ''reset'') \<and> read_file temp (w_disk died) = Some [37, 65] \<and>
    cache_sound default_settings (s3_view (w_s3 w)) (w_disk died)"
proof -
  let ?D = "sample_deps default_settings" and ?w = "sample_world (new_client []) (stored_source [Lose (OSError ''reset'')])"
  have D: "d_s3 ?D = s3_client" "d_cfg ?D = default_settings" by (simp_all add: sample_deps_def)
  have "cache_sound (d_cfg ?D) (s3_view (w_s3 ?w)) (w_disk ?w)"
    by (simp add: cache_sound_def sample_world_def read_file_def)
  from fetch_source_sound [of ?D s3_view "''f0''", OF _ _ this, of 5]
  have "cache_sound default_settings (s3_view (w_s3 ?w)) (w_disk (snd (store_source ?D ''f0''
      (fresh_path (SOURCE_CACHE_DIR default_settings) [] (w_disk ?w)) (cached_path default_settings ''f0'') 5
      (?w\<lparr>w_disk := write_file (fresh_path (SOURCE_CACHE_DIR default_settings) [] (w_disk ?w)) [] 5 (w_disk ?w)\<rparr>))))"
    unfolding D Let_def by (simp add: s3c.object_store_axioms hex_name_def case_prod_beta)
  moreover have "download_file s3_client (source_key ''f0'') (w_s3 ?w) = (Inr ([37, 65], Some (OSError ''reset'')), stored_source [])"
    by (simp add: s3_client_def s3_download_def s3_call_def call_def s3_get_def sample_world_def stored_source_def s3_exn_def)
  ultimately show ?thesis
    by (simp add: Let_def case_prod_beta D store_source_def get_source_def io_simps on_s3_disk_def)
qed

subsection \<open>One page range\<close>

definition range_input :: "('p, 'q, 'o) deps \<Rightarrow> bytes \<Rightarrow> int \<Rightarrow> int \<Rightarrow> exn + bytes" where
  "range_input D src start stop =
     (if stop = -1 then Inr src
      else sbind (d_read_pdf D src) (\<lambda>ps. complete_pdf (d_write_pdf D (py_slice start stop ps))))"

definition range_text :: "('p, 'q, 'o) deps \<Rightarrow> string \<Rightarrow> bytes \<Rightarrow> int \<Rightarrow> int \<Rightarrow> bool \<Rightarrow> exn + pytext" where
  "range_text D path src start stop use_llm =
     sbind (range_input D src start stop) (\<lambda>b.
     sbind (if use_llm then sbind (get_llm_client (d_cfg D) (d_environ D)) (\<lambda>c. Inr (Some c)) else Inr None) (\<lambda>client.
     d_markitdown D client path b))"

lemma convert_range_fetched:
  fixes stop :: int
  assumes fetch: "fetch_source D fh w = (Inr p, w1)" and src: "read_file p (w_disk w1) = Some src"
  defines "q \<equiv> if stop = -1 then p else fresh_path tmp_dir ''.pdf'' (w_disk w1)"
  shows "convert_range D fh start stop use_llm w =
    (range_text D q src start stop use_llm, if stop = -1 then w1 else w1\<lparr>w_ticks := w_ticks w1 + 1\<rparr>)"
proof (cases "stop = -1")
  case True
  then show ?thesis using assms
    by (simp add: convert_range_def bindE_run convert_on_disk_def convert_file_def range_text_def range_input_def)
next
  case False
  have new: "read_file q (w_disk w1) = None" unfolding q_def using False fresh_path_new by auto
  then have ne: "p \<noteq> q" using src by auto
  have rm: "remove_file q (write_file q b t (w_disk w1)) = w_disk w1" for b t
    by (rule remove_write_absent [OF new])
  show ?thesis
  proof (cases "d_read_pdf D src")
    case (Inl e)
    then show ?thesis using False fetch src new ne rm unfolding q_def
      by (simp add: convert_range_def bindE_run io_simps now_def on_disk_def mkstemp_def Let_def
          extract_pages_def remove_if_exists_def path_exists_read range_text_def range_input_def)
  next
    case (Inr ps)
    then show ?thesis using False fetch src new ne rm unfolding q_def
      by (simp add: convert_range_def bindE_run io_simps now_def on_disk_def mkstemp_def Let_def
          extract_pages_def remove_if_exists_def path_exists_read range_text_def range_input_def complete_pdf_def
          convert_on_disk_def convert_file_def sbind_def split: sum.splits prod.splits option.splits)
  qed
qed

lemma convert_range_raised:
  "fetch_source D fh w = (Inl e, w1) \<Longrightarrow> convert_range D fh start stop use_llm w = (Inl e, w1)"
  by (simp add: convert_range_def bindE_raise)


text \<open>The cache has room for a source, next to what it holds.\<close>

definition cache_room :: "settings \<Rightarrow> string \<Rightarrow> bytes \<Rightarrow> disk \<Rightarrow> bool" where
  "cache_room cfg fh src d \<longleftrightarrow>
     cache_size (SOURCE_CACHE_DIR cfg) d + (if path_exists (cached_path cfg fh) d then 0 else int (length src))
       \<le> SOURCE_CACHE_MAX_BYTES cfg"

lemma prune_fits: "cache_size (SOURCE_CACHE_DIR cfg) d \<le> SOURCE_CACHE_MAX_BYTES cfg \<Longrightarrow> prune_source_cache cfg None d = d"
proof -
  assume fits: "cache_size (SOURCE_CACHE_DIR cfg) d \<le> SOURCE_CACHE_MAX_BYTES cfg"
  have stop: "used \<le> m \<Longrightarrow> evict m used es d = d" for m used es by (cases es) auto
  show ?thesis using fits by (simp add: prune_source_cache_def Let_def cache_size_def stop)
qed

lemma cache_size_write:
  assumes "hex_name fh" "read_file (cached_path cfg fh) d = None"
  shows "cache_size (SOURCE_CACHE_DIR cfg) (write_file (cached_path cfg fh) b t d)
    = cache_size (SOURCE_CACHE_DIR cfg) d + int (length b)"
  using hex_no_slash [OF assms(1)] unfolding write_file_absent [OF assms(2)]
  by (simp add: cache_size_def list_files_def cached_path_def)

lemma cache_size_utime: "cache_size dir (utime p t d) = cache_size dir d"
  by (induction d) (auto simp: cache_size_def list_files_def utime_def split: if_splits)

lemma fetch_source_room:
  assumes store: "object_store_up (d_s3 D) view up" and up: "up (w_s3 w)" and "hex_name fh"
    and src: "view (w_s3 w) (source_key fh) = Some src"
    and sound: "cache_sound (d_cfg D) (view (w_s3 w)) (w_disk w)" and room: "cache_room (d_cfg D) fh src (w_disk w)"
  shows "\<exists>s' d'. fetch_source D fh w = (Inr (cached_path (d_cfg D) fh),
        w\<lparr>w_ticks := w_ticks w + 1, w_s3 := s', w_disk := d'\<rparr>) \<and>
      up s' \<and> view s' = view (w_s3 w) \<and> read_file (cached_path (d_cfg D) fh) d' = Some src \<and>
      cache_sound (d_cfg D) (view s') d' \<and> cache_room (d_cfg D) fh src d' \<and>
      (\<forall>q. q \<noteq> cached_path (d_cfg D) fh \<longrightarrow> read_file q d' = read_file q (w_disk w))"
proof (cases "path_exists (cached_path (d_cfg D) fh) (w_disk w)")
  case True
  then obtain b where b: "read_file (cached_path (d_cfg D) fh) (w_disk w) = Some b" by (auto simp: path_exists_read)
  then have "b = src" using assms(3) src sound by (auto simp: cache_sound_def)
  with b room sound up show ?thesis unfolding fetch_source_hit [OF True]
    by (intro exI [of _ "w_s3 w"] exI [of _ "utime _ _ (w_disk w)"])
      (auto simp: cache_room_def cache_size_utime path_exists_read cache_sound_def)
next
  case False
  let ?p = "cached_path (d_cfg D) fh"
  let ?d = "write_file ?p src (w_clock w (w_ticks w)) (w_disk w)"
  note os = object_store_up.axioms(1) [OF store]
  obtain s' where get: "download_file (d_s3 D) (source_key fh) (w_s3 w) = (Inr (src, None), s')" "up s'"
    using object_store_up.up_download [OF store up src] by blast
  have v: "view s' = view (w_s3 w)"
    using object_store.download_view [OF os, of "source_key fh" "w_s3 w"] get by simp
  have none: "read_file ?p (w_disk w) = None" using False by (simp add: path_exists_read)
  have size: "cache_size (SOURCE_CACHE_DIR (d_cfg D)) ?d \<le> SOURCE_CACHE_MAX_BYTES (d_cfg D)"
    using room False cache_size_write [OF assms(3) none, of src] by (simp add: cache_room_def)
  have "fetch_source D fh w = (Inr ?p, w\<lparr>w_ticks := w_ticks w + 1, w_s3 := s', w_disk := ?d\<rparr>)"
    using fetch_source_miss [OF False assms(3) get(1)] by (simp add: prune_fits [OF size])
  then show ?thesis using get(2) v size cache_sound_write [OF sound assms(3) src, of "w_clock w (w_ticks w)"]
    by (intro exI [of _ s'] exI [of _ ?d]) (simp add: cache_room_def path_exists_read)
qed

lemma convert_range_room:
  assumes "object_store_up (d_s3 D) view up" "up (w_s3 w)" "hex_name fh"
    and "view (w_s3 w) (source_key fh) = Some src"
    and "cache_sound (d_cfg D) (view (w_s3 w)) (w_disk w)" "cache_room (d_cfg D) fh src (w_disk w)"
  shows "\<exists>q k s' d'. convert_range D fh start stop use_llm w =
        (range_text D q src start stop use_llm, w\<lparr>w_ticks := k, w_s3 := s', w_disk := d'\<rparr>) \<and>
      (if stop = -1 then q = cached_path (d_cfg D) fh else ends_with ''.pdf'' q) \<and>
      up s' \<and> view s' = view (w_s3 w) \<and> cache_sound (d_cfg D) (view s') d' \<and> cache_room (d_cfg D) fh src d' \<and>
      (\<forall>p. p \<noteq> cached_path (d_cfg D) fh \<longrightarrow> read_file p d' = read_file p (w_disk w))"
proof -
  from fetch_source_room [OF assms] obtain s' d' where
    fetch: "fetch_source D fh w = (Inr (cached_path (d_cfg D) fh), w\<lparr>w_ticks := w_ticks w + 1, w_s3 := s', w_disk := d'\<rparr>)"
      (is "_ = (_, ?w1)")
    and rest: "up s'" "view s' = view (w_s3 w)" "read_file (cached_path (d_cfg D) fh) d' = Some src"
      "cache_sound (d_cfg D) (view s') d'" "cache_room (d_cfg D) fh src d'"
      "\<forall>q. q \<noteq> cached_path (d_cfg D) fh \<longrightarrow> read_file q d' = read_file q (w_disk w)" by blast
  have "ends_with ''.pdf'' (fresh_path tmp_dir ''.pdf'' d')"
    using ends_with_append [of "''.pdf''" "path_join tmp_dir (''tmp'' @ replicate _ (CHR ''_''))"]
    by (simp add: fresh_path_def path_join_def)
  moreover have "\<exists>q k. convert_range D fh start stop use_llm w =
        (range_text D q src start stop use_llm, w\<lparr>w_ticks := k, w_s3 := s', w_disk := d'\<rparr>) \<and>
      q = (if stop = -1 then cached_path (d_cfg D) fh else fresh_path tmp_dir ''.pdf'' d')"
    using convert_range_fetched [OF fetch, of src start stop use_llm] rest(3)
    by (cases w; cases "stop = -1") auto
  ultimately show ?thesis using rest by (metis (no_types, lifting))
qed

text \<open>
  C13. On a store that is up and with room in the cache, the page ranges planned for a PDF are
  converted from exactly their own pages, in a temporary PDF that is gone afterwards even when
  writing it or converting it raises; the inputs of all ranges together are the pages of the
  source, each once and in order.
\<close>

theorem planned_chunks_cover_source:
  assumes "object_store_up (d_s3 D) view up" "up (w_s3 w)" "hex_name fh"
    and "view (w_s3 w) (source_key fh) = Some src"
    and "cache_sound (d_cfg D) (view (w_s3 w)) (w_disk w)" "cache_room (d_cfg D) fh src (w_disk w)"
    and "d_read_pdf D src = Inr ps" "1 \<le> PAGES_PER_CHUNK (d_cfg D)"
    and "MIN_PAGES_FOR_PARALLEL (d_cfg D) \<le> int (length ps)"
  shows "\<exists>ranges. plan_chunks (Some (int (length ps))) (PAGES_PER_CHUNK (d_cfg D)) (MIN_PAGES_FOR_PARALLEL (d_cfg D))
        = Inr ranges \<and>
    concat (map (\<lambda>(start, stop). py_slice start stop ps) ranges) = ps \<and>
    (\<forall>(start, stop) \<in> set ranges. \<exists>path w'. ends_with ''.pdf'' path \<and>
       convert_range D fh start stop False w =
         (sbind (complete_pdf (d_write_pdf D (py_slice start stop ps))) (d_markitdown D None path), w') \<and>
       (\<forall>p. p \<noteq> cached_path (d_cfg D) fh \<longrightarrow> read_file p (w_disk w') = read_file p (w_disk w)))"
proof (intro exI conjI ballI)
  let ?rs = "step_ranges 0 (int (length ps)) (PAGES_PER_CHUNK (d_cfg D))"
  show "plan_chunks (Some (int (length ps))) (PAGES_PER_CHUNK (d_cfg D)) (MIN_PAGES_FOR_PARALLEL (d_cfg D)) = Inr ?rs"
    using assms(8,9) by (rule plan_chunks_split)
  show "concat (map (\<lambda>(start, stop). py_slice start stop ps) ?rs) = ps"
    using assms(8) by (intro concat_step_ranges_slices) simp
  fix r assume r: "r \<in> set ?rs"
  obtain start stop where r_eq: "r = (start, stop)" by fastforce
  have "0 < stop" using step_ranges_bounds [of "PAGES_PER_CHUNK (d_cfg D)" start stop] r r_eq assms(8) by fastforce
  with convert_range_room [OF assms(1-6), of start stop False] show "case r of (start, stop) \<Rightarrow> \<exists>path w'.
      ends_with ''.pdf'' path \<and> convert_range D fh start stop False w =
         (sbind (complete_pdf (d_write_pdf D (py_slice start stop ps))) (d_markitdown D None path), w') \<and>
       (\<forall>p. p \<noteq> cached_path (d_cfg D) fh \<longrightarrow> read_file p (w_disk w') = read_file p (w_disk w))"
    unfolding r_eq by (auto simp: range_text_def range_input_def assms(7))
qed


definition small_chunks :: settings where
  "small_chunks = default_settings\<lparr>PAGES_PER_CHUNK := 2, MIN_PAGES_FOR_PARALLEL := 2\<rparr>"

theorem planned_chunks_cover_source_witness:
  "let D = sample_deps small_chunks; w = sample_world (new_client []) (stored_source []) in
   \<exists>ranges. plan_chunks (Some 3) 2 2 = Inr ranges \<and>
    concat (map (\<lambda>(start, stop). py_slice start stop [65, 66, 67 :: nat]) ranges) = [65, 66, 67] \<and>
    (\<forall>(start, stop) \<in> set ranges. \<exists>path w'. ends_with ''.pdf'' path \<and>
       convert_range D ''f0'' start stop False w =
         (sbind (complete_pdf (d_write_pdf D (py_slice start stop [65, 66, 67]))) (d_markitdown D None path), w') \<and>
       (\<forall>p. p \<noteq> cached_path (d_cfg D) ''f0'' \<longrightarrow> read_file p (w_disk w') = read_file p (w_disk w)))"
proof -
  let ?D = "sample_deps small_chunks" and ?w = "sample_world (new_client []) (stored_source [])"
  have D: "object_store_up (d_s3 ?D) s3_view s3_up" "PAGES_PER_CHUNK (d_cfg ?D) = 2"
    "MIN_PAGES_FOR_PARALLEL (d_cfg ?D) = 2" "d_read_pdf ?D [37, 65, 66, 67] = Inr [65, 66, 67]"
    using s3c.object_store_up_axioms by (simp_all add: sample_deps_def small_chunks_def)
  have w: "s3_up (w_s3 ?w)" "s3_view (w_s3 ?w) (source_key ''f0'') = Some [37, 65, 66, 67]"
    "cache_sound (d_cfg ?D) (s3_view (w_s3 ?w)) (w_disk ?w)" "cache_room (d_cfg ?D) ''f0'' [37, 65, 66, 67] (w_disk ?w)"
    by (simp_all add: sample_world_def stored_source_def s3_up_def s3_view_def cache_sound_def cache_room_def
        read_file_def cache_size_def list_files_def path_exists_def sample_deps_def small_chunks_def default_settings_def)
  show ?thesis
    using planned_chunks_cover_source [OF D(1) w(1) _ w(2) w(3,4) D(4)] by (simp add: D hex_name_def Let_def)
qed

end
