(* ===== verification/Assembly.thy ===== *)
theory Assembly
  imports Worker
begin

section \<open>Assembling a finished job\<close>

text \<open>
  The job store operations on a healthy database as functions of the tables, what no statement
  changes of a job, and what \<^verbatim>\<open>worker.assemble\<close> leaves behind when every part is stored: the pages
  of the joined parts with their manifest, the document row, and the job marked done.
\<close>

subsection \<open>Job store operations on a healthy database\<close>

lemma get_job_ready: "ready t c \<Longrightarrow> \<exists>c'. get_job cfg jid c = (Inr (find_job jid t), c') \<and> ready t c'"
  using select_ready [of t c "job_env cfg" star "\<lambda>t. filter (\<lambda>j. j_job_id j = jid) (jobs t)"]
  by (auto simp: get_job_def query_one_def bindE_run ret_def find_job_def)

lemma find_cached_ready:
  "ready t c \<Longrightarrow> \<exists>c'. find_cached_document cfg dk c =
     (Inr (case filter (\<lambda>r. d_doc_key r = dk) (documents t) of [] \<Rightarrow> None | r # _ \<Rightarrow> Some r), c') \<and> ready t c'"
  using select_ready [of t c "job_env cfg" star "\<lambda>t. filter (\<lambda>r. d_doc_key r = dk) (documents t)"]
  by (auto simp: find_cached_document_def query_one_def bindE_run ret_def)

lemma chunk_indices_ready:
  "ready t c \<Longrightarrow> \<exists>c'. chunk_indices cfg jid c = (Inr (sort (map c_chunk_index (chunks_of jid t))), c') \<and> ready t c'"
  using select_ready [of t c "job_env cfg"] by (simp add: chunk_indices_def chunks_of_def)

lemma unit_stmt_ready:
  fixes st :: "(tables, unit) stmt"
  shows "ready t c \<Longrightarrow> plain st \<Longrightarrow> \<exists>c'. thenE (execute E st) (ret ()) c = (Inr (), c') \<and> ready (after st t) c'"
  using exec_ready [of t c st E "ret ()"] by (auto simp: ret_def)

definition started :: "int \<Rightarrow> string \<Rightarrow> int \<Rightarrow> string \<Rightarrow> int \<Rightarrow> tables \<Rightarrow> tables" where
  "started ts jid i owner att t = after (start_job_stmt ts jid) (after (start_chunk_stmt ts jid i owner att) t)"

lemma start_chunk_ready:
  assumes "ready t c"
  shows "\<exists>c'. start_chunk cfg ts jid i owner att c = (Inr (), c') \<and> ready (started ts jid i owner att t) c'"
proof -
  let ?go = "thenE (execute (job_env cfg) (start_job_stmt ts jid)) (ret ())"
  obtain c1 where c1: "thenE (execute (job_env cfg) (start_chunk_stmt ts jid i owner att)) ?go c = ?go c1"
    "ready (after (start_chunk_stmt ts jid i owner att) t) c1"
    using exec_ready [OF assms, of "start_chunk_stmt ts jid i owner att" "job_env cfg" ?go] by auto
  from unit_stmt_ready [OF c1(2), of "start_job_stmt ts jid" "job_env cfg"] c1(1) show ?thesis
    by (simp add: start_chunk_def started_def)
qed

text \<open>What no statement changes: the document key, the file hash and the number of chunks of a job.\<close>

definition job_static :: "string \<Rightarrow> tables \<Rightarrow> (string \<times> string \<times> int) option" where
  "job_static jid t = map_option (\<lambda>j. (j_doc_key j, j_file_hash j, j_total_chunks j)) (find_job jid t)"

lemma static_update_jobs:
  assumes "\<And>j. j_job_id (f j) = j_job_id j" "\<And>j. j_doc_key (f j) = j_doc_key j"
    "\<And>j. j_file_hash (f j) = j_file_hash j" "\<And>j. j_total_chunks (f j) = j_total_chunks j"
  shows "job_static jid (t\<lparr>jobs := update_where p f (jobs t)\<rparr>) = job_static jid t"
  using find_job_update [where f = f and p = p, OF assms(1)] assms(2-4)
  by (cases "find_job jid t") (simp_all add: job_static_def)

lemma static_stmts [simp]:
  "job_static jid (after (start_job_stmt ts j) t) = job_static jid t"
  "job_static jid (after (finish_job_stmt ts j) t) = job_static jid t"
  "job_static jid (after (fail_job_stmt ts j err ci) t) = job_static jid t"
  "job_static jid (after (decrement_stmt ts j) t) = job_static jid t"
  "job_static jid (after (start_chunk_stmt ts j i owner att) t) = job_static jid t"
  "job_static jid (after (complete_chunk_stmt ts j i key) t) = job_static jid t"
  "job_static jid (after (fail_chunk_stmt ts j i err) t) = job_static jid t"
  "job_static jid (after (reschedule_chunk_stmt ts j i err) t) = job_static jid t"
  "job_static jid (after (replace_document r :: (tables, unit) stmt) t) = job_static jid t"
proof -
  show "job_static jid (after (start_job_stmt ts j) t) = job_static jid t"
    "job_static jid (after (finish_job_stmt ts j) t) = job_static jid t"
    "job_static jid (after (fail_job_stmt ts j err ci) t) = job_static jid t"
    "job_static jid (after (decrement_stmt ts j) t) = job_static jid t"
    by (simp_all add: after_def job_stmts decrement_stmt_def update_jobs_def update_jobs_returning_def static_update_jobs)
qed (simp_all add: after_def chunk_stmts update_chunks_def replace_document_def job_static_def)

lemma static_complete [simp]: "job_static jid (snd (complete_pure ts j i key t)) = job_static jid t"
  using decrement_stmt_run [of ts j "after (complete_chunk_stmt ts j i key) t"]
  by (auto simp: complete_pure_def Let_def)

lemma static_started [simp]: "job_static jid (started ts j i owner att t) = job_static jid t"
  by (simp add: started_def)

lemma wf_started [simp]: "tables_wf t \<Longrightarrow> tables_wf (started ts j i owner att t)"
  by (simp add: started_def)

lemma view_started:
  "job_view jid (started ts jid i owner att t)
   = map_option (\<lambda>a. if a_status a = Queued then a\<lparr>a_status := Running\<rparr> else a) (job_view jid t)"
  by (cases "job_view jid t")
    (simp_all add: started_def view_start_job [where i = i and owner = owner and att = att] view_start_chunk)

lemma sorted_chunk_indices:
  assumes "tables_wf t" "job_view jid t = Some a" "a_chunks a = int ` {0..<n}"
  shows "sort (map c_chunk_index (chunks_of jid t)) = map int [0..<n]"
proof (rule sorted_distinct_set_unique)
  have "distinct (map chunk_key (chunks_of jid t))"
    using assms(1) by (simp add: tables_wf_def chunks_of_def distinct_map_filter)
  moreover have "map chunk_key (chunks_of jid t) = map (Pair jid) (map c_chunk_index (chunks_of jid t))"
    by (simp add: chunk_key_def chunks_of_def)
  ultimately have "distinct (map c_chunk_index (chunks_of jid t))" by (metis distinct_map)
  then show "distinct (sort (map c_chunk_index (chunks_of jid t)))" by simp
  show "set (sort (map c_chunk_index (chunks_of jid t))) = set (map int [0..<n])"
    using job_view_chunks [OF assms(2)] assms(3) by simp
  show "distinct (map int [0..<n])" by (simp add: distinct_map)
  show "sorted (map int [0..<n])" by (simp add: sorted_map)
qed simp


lemma timed_stmt:
  fixes st :: "int \<Rightarrow> (tables, unit) stmt"
  assumes "ready t (w_db w)" "\<And>ts. plain (st ts)"
  shows "\<exists>c'. timed (\<lambda>ts. thenE (execute E (st ts)) (ret ())) w = (Inr (), w\<lparr>w_ticks := w_ticks w + 1, w_db := c'\<rparr>) \<and>
    ready (after (st (w_clock w (w_ticks w))) t) c'"
proof -
  obtain c' where "thenE (execute E (st (w_clock w (w_ticks w)))) (ret ()) (w_db w) = (Inr (), c')"
    "ready (after (st (w_clock w (w_ticks w))) t) c'"
    using unit_stmt_ready [OF assms(1), of "st (w_clock w (w_ticks w))" E] assms(2) by blast
  then show ?thesis
    using timed_run [of "\<lambda>ts. thenE (execute E (st ts)) (ret ())" w "Inr ()" c'] by auto
qed

subsection \<open>Assembling on healthy services\<close>

lemma covers_set: "covers ps s \<Longrightarrow> set (concat ps) \<subseteq> set s"
  by (induction rule: covers.induct) auto

lemma join_parts_set: "set (join_parts texts) \<subseteq> (\<Union>t \<in> set texts. set t) \<union> {10}"
proof -
  have "set (py_join [10, 10] ps) \<subseteq> (\<Union>p \<in> set ps. set p) \<union> {10}" for ps :: "pytext list"
    by (induction "[10, 10] :: pytext" ps rule: py_join.induct) auto
  from this [of "filter (\<lambda>p. p \<noteq> [] \<and> py_strip p \<noteq> []) texts"] show ?thesis unfolding join_parts_def by auto
qed

lemma pages_encodable:
  assumes "list_all (list_all encodable) texts" "1 \<le> n" "paginate n (join_parts texts) = Some pages"
  shows "list_all (list_all encodable) pages"
proof -
  have "covers pages (join_parts texts)"
    by (rule paginate_result [OF assms(2), of "join_parts texts"]) (simp add: assms(3))
  from covers_set [OF this] join_parts_set [of texts] have "set (concat pages) \<subseteq> (\<Union>t \<in> set texts. set t) \<union> {10}"
    by blast
  moreover have "encodable 10" by (simp add: encodable_def is_surrogate_def)
  ultimately show ?thesis using assms(1) unfolding list_all_iff by fastforce
qed

definition stores_part :: "(string \<Rightarrow> bytes option) \<Rightarrow> string \<Rightarrow> int \<Rightarrow> pytext \<Rightarrow> bool" where
  "stores_part v dk i txt \<longleftrightarrow> (\<exists>b. utf8_encode txt = Inr b \<and> v (part_key dk i) = Some b)"

definition stores_document :: "settings \<Rightarrow> (string \<Rightarrow> bytes option) \<Rightarrow> string \<Rightarrow> pytext list \<Rightarrow> int \<Rightarrow> bool" where
  "stores_document cfg v dk pages len \<longleftrightarrow>
     (\<exists>b. v (manifest_key dk) = Some b \<and> decode_manifest b = Inr (doc_manifest cfg dk pages len)) \<and>
     (\<forall>j < length pages. \<exists>b. utf8_encode (pages ! j) = Inr b \<and> v (page_key dk (1 + int j)) = Some b)"

lemma collect_parts_healthy:
  assumes store: "object_store_up (d_s3 D) view up" and "up (w_s3 w)"
    and "\<forall>i \<in> set is. stores_part (view (w_s3 w)) dk i (txt i)"
  shows "\<exists>s'. collect_parts D dk is w = (Inr (map txt is), w\<lparr>w_s3 := s'\<rparr>) \<and> up s' \<and> view s' = view (w_s3 w)"
  using assms(2,3)
proof (induction "is" arbitrary: w)
  case Nil
  then show ?case by (intro exI [of _ "w_s3 w"]) (simp add: ret_def)
next
  case (Cons i "is")
  obtain b where b: "utf8_encode (txt i) = Inr b" "view (w_s3 w) (part_key dk i) = Some b"
    using Cons.prems(2) by (auto simp: stores_part_def)
  obtain s1 where s1: "get_part (d_s3 D) dk i (w_s3 w) = (Inr (Some (txt i)), s1)" "up s1" "view s1 = view (w_s3 w)"
    using object_store_up.up_get_part [OF store Cons.prems(1) b(2)] utf8_round_trip [OF b(1)] by blast
  obtain s2 where s2: "collect_parts D dk is (w\<lparr>w_s3 := s1\<rparr>) = (Inr (map txt is), w\<lparr>w_s3 := s2\<rparr>)" "up s2" "view s2 = view s1"
    using Cons.IH [of "w\<lparr>w_s3 := s1\<rparr>"] Cons.prems(2) s1(2,3) by auto
  have "on_s3 (get_part (d_s3 D) dk i) w = (Inr (Some (txt i)), w\<lparr>w_s3 := s1\<rparr>)" using s1(1) by (rule on_s3_run)
  with s1 s2 show ?case by (intro exI [of _ s2]) (simp add: bindE_run ret_def)
qed

lemma stores_part_encodable: "stores_part v dk i txt \<Longrightarrow> list_all encodable txt"
  by (auto simp: stores_part_def utf8_encode_def split: if_splits)

text \<open>The tables after a document was recorded and its job finished.\<close>

definition recorded :: "document_row \<Rightarrow> tables \<Rightarrow> tables" where
  "recorded r t = after (replace_document r :: (tables, unit) stmt) t"

lemma recorded_simps [simp]:
  "job_static jid (recorded r t) = job_static jid t" "job_view jid (recorded r t) = job_view jid t"
  "tables_wf t \<Longrightarrow> tables_wf (recorded r t)"
  "documents (recorded r t) = filter (\<lambda>x. d_doc_key x \<noteq> d_doc_key r) (documents t) @ [r]"
  by (simp_all add: recorded_def view_replace_document) (simp add: replace_document_def after_def)

lemma documents_finish [simp]: "documents (after (finish_job_stmt ts j) t) = documents t"
  by (simp add: after_def finish_job_stmt_def update_jobs_def)

text \<open>The two writes at the end of an assembly.\<close>

lemma record_and_finish_healthy:
  fixes D :: "('p, 'q, 'o) deps" and w :: "('q, 'o) world"
  assumes "ready t (w_db w)"
  shows "\<exists>c ts ts'. thenE (timed (\<lambda>ts. record_document (d_cfg D) ts dk fh tp tc len psz))
        (timed (\<lambda>ts. finish_job (d_cfg D) ts jid)) w = (Inr (), w\<lparr>w_ticks := w_ticks w + 2, w_db := c\<rparr>) \<and>
      ready (after (finish_job_stmt ts jid) (recorded (document_of (d_cfg D) ts' dk fh tp tc len psz) t)) c"
proof -
  let ?row = "\<lambda>ts. document_of (d_cfg D) ts dk fh tp tc len psz" and ?ts' = "w_clock w (w_ticks w)"
  from timed_stmt [OF assms, of "\<lambda>ts. replace_document (?row ts)" "job_env (d_cfg D)"] obtain c1 where
    first: "timed (\<lambda>ts. record_document (d_cfg D) ts dk fh tp tc len psz) w
      = (Inr (), w\<lparr>w_ticks := w_ticks w + 1, w_db := c1\<rparr>)"
    and c1: "ready (recorded (?row ?ts') t) c1"
    by (auto simp: record_document_def recorded_def)
  let ?w1 = "w\<lparr>w_ticks := w_ticks w + 1, w_db := c1\<rparr>"
  have "ready (recorded (?row ?ts') t) (w_db ?w1)" using c1 by simp
  from timed_stmt [OF this, of "\<lambda>ts. finish_job_stmt ts jid" "job_env (d_cfg D)"] obtain c2 where
    "timed (\<lambda>ts. finish_job (d_cfg D) ts jid) ?w1 = (Inr (), ?w1\<lparr>w_ticks := w_ticks ?w1 + 1, w_db := c2\<rparr>)"
    and c2: "ready (after (finish_job_stmt (w_clock ?w1 (w_ticks ?w1)) jid) (recorded (?row ?ts') t)) c2"
    by (auto simp: finish_job_def)
  with first have "thenE (timed (\<lambda>ts. record_document (d_cfg D) ts dk fh tp tc len psz))
      (timed (\<lambda>ts. finish_job (d_cfg D) ts jid)) w = (Inr (), w\<lparr>w_ticks := w_ticks w + 2, w_db := c2\<rparr>)"
    by (simp add: thenE_run)
  with c2 show ?thesis by blast
qed

text \<open>Reading the parts of a job back, in page order.\<close>

lemma read_parts_healthy:
  fixes D :: "('p, 'q, 'o) deps" and w :: "('q, 'o) world"
  assumes store: "object_store_up (d_s3 D) view up" and up: "up (w_s3 w)"
    and t: "ready t (w_db w)" "tables_wf t" "job_view jid t = Some a" "a_chunks a = int ` {0..<length texts}"
    and parts: "\<forall>i < length texts. stores_part (view (w_s3 w)) dk (int i) (texts ! i)"
  shows "\<exists>c s. bindE (on_db (chunk_indices (d_cfg D) jid)) (collect_parts D dk) w
      = (Inr texts, w\<lparr>w_db := c, w_s3 := s\<rparr>) \<and> ready t c \<and> up s \<and> view s = view (w_s3 w)"
proof -
  let ?ixs = "map int [0..<length texts]"
  obtain c where c: "chunk_indices (d_cfg D) jid (w_db w) = (Inr ?ixs, c)" "ready t c"
    using chunk_indices_ready [OF t(1), of "d_cfg D" jid] sorted_chunk_indices [OF t(2-4)] by auto
  obtain s where s: "collect_parts D dk ?ixs (w\<lparr>w_db := c\<rparr>)
      = (Inr (map (\<lambda>i. texts ! nat i) ?ixs), w\<lparr>w_db := c, w_s3 := s\<rparr>)" "up s" "view s = view (w_s3 w)"
    using collect_parts_healthy [OF store, of "w\<lparr>w_db := c\<rparr>" ?ixs dk "\<lambda>i. texts ! nat i"] up parts by auto
  have "map (\<lambda>i. texts ! nat i) ?ixs = texts" by (rule nth_equalityI) simp_all
  with c s show ?thesis by (auto simp: bindE_run [OF on_db_run [where f = "chunk_indices (d_cfg D) jid"]])
qed

lemma assemble_healthy:
  assumes store: "object_store_up (d_s3 D) view up" and up: "up (w_s3 w)"
    and t: "ready t (w_db w)" "tables_wf t" "job_view jid t = Some a" "a_chunks a = int ` {0..<length texts}"
    and j: "j_job_id j = jid" "j_doc_key j = dk"
    and parts: "\<forall>i < length texts. stores_part (view (w_s3 w)) dk (int i) (texts ! i)"
    and size: "1 \<le> PAGE_SIZE (d_cfg D)"
  shows "\<exists>pages w' t' ts. paginate (PAGE_SIZE (d_cfg D)) (join_parts texts) = Some pages \<and>
     assemble D j w = (Inr (), w') \<and> ready t' (w_db w') \<and> up (w_s3 w') \<and>
     w_disk w' = w_disk w \<and> w_mq w' = w_mq w \<and> w_clock w' = w_clock w \<and>
     stores_document (d_cfg D) (view (w_s3 w')) dk pages (int (length (join_parts texts))) \<and>
     (\<forall>k. k \<noteq> manifest_key dk \<longrightarrow> (\<forall>i. k \<noteq> page_key dk i) \<longrightarrow> view (w_s3 w') k = view (w_s3 w) k) \<and>
     t' = after (finish_job_stmt (fst ts) jid) (recorded (document_of (d_cfg D) (snd ts) dk (j_file_hash j)
            (int (length pages)) (j_total_chunks j) (int (length (join_parts texts))) (PAGE_SIZE (d_cfg D))) t)"
proof -
  let ?cfg = "d_cfg D" and ?md = "join_parts texts"
  note os = object_store_up.axioms(1) [OF store]
  obtain c1 s1 where read: "bindE (on_db (chunk_indices ?cfg jid)) (collect_parts D dk) w
      = (Inr texts, w\<lparr>w_db := c1, w_s3 := s1\<rparr>)" "ready t c1" "up s1" "view s1 = view (w_s3 w)"
    using read_parts_healthy [OF store up t parts] by blast
  obtain pages where pages: "paginate (PAGE_SIZE ?cfg) ?md = Some pages"
    by (rule paginate_result [OF size, of ?md]) simp
  have "list_all (list_all encodable) texts"
    using parts stores_part_encodable by (fastforce simp: list_all_length)
  then obtain s2 where s2: "put_document ?cfg (d_s3 D) dk pages (int (length ?md)) s1
      = (Inr (doc_manifest ?cfg dk pages (int (length ?md))), s2)" "up s2"
    using object_store_up.up_put_document [OF store read(3) pages_encodable [OF _ size pages]] by blast
  note stored = object_store.put_document_ok [OF os s2(1)]
  let ?w2 = "w\<lparr>w_db := c1, w_s3 := s2\<rparr>"
  have w2: "ready t (w_db ?w2)" using read(2) by simp
  obtain c3 ts ts' where fin: "thenE (timed (\<lambda>ts. record_document ?cfg ts dk (j_file_hash j) (int (length pages)) (j_total_chunks j)
        (int (length ?md)) (PAGE_SIZE ?cfg))) (timed (\<lambda>ts. finish_job ?cfg ts jid)) ?w2
      = (Inr (), ?w2\<lparr>w_ticks := w_ticks ?w2 + 2, w_db := c3\<rparr>)"
    "ready (after (finish_job_stmt ts jid) (recorded (document_of ?cfg ts' dk (j_file_hash j) (int (length pages))
        (j_total_chunks j) (int (length ?md)) (PAGE_SIZE ?cfg)) t)) c3"
    using record_and_finish_healthy [OF w2, of D dk "j_file_hash j" "int (length pages)" "j_total_chunks j"
        "int (length ?md)" "PAGE_SIZE ?cfg" jid] by blast
  have put: "on_s3 (put_document ?cfg (d_s3 D) dk pages (int (length ?md))) (w\<lparr>w_db := c1, w_s3 := s1\<rparr>)
      = (Inr (doc_manifest ?cfg dk pages (int (length ?md))), ?w2)"
    using on_s3_run [of "put_document ?cfg (d_s3 D) dk pages (int (length ?md))" "w\<lparr>w_db := c1, w_s3 := s1\<rparr>"] s2(1) by simp
  have "assemble D j w = (Inr (), ?w2\<lparr>w_ticks := w_ticks ?w2 + 2, w_db := c3\<rparr>)"
    using read(1) pages put fin(1) j unfolding assemble_def Let_def bindE_assoc [symmetric] by (simp add: bindE_run)
  moreover have "stores_document ?cfg (view s2) dk pages (int (length ?md))"
    using stored(2,3) unfolding stores_document_def by blast
  moreover have "view s2 k = view (w_s3 w) k" if "k \<noteq> manifest_key dk" "\<forall>i. k \<noteq> page_key dk i" for k
    using stored(4) [of k] that read(4) by simp
  ultimately show ?thesis using pages fin(2) s2(2)
    by (intro exI [of _ pages] exI [of _ "?w2\<lparr>w_ticks := w_ticks ?w2 + 2, w_db := c3\<rparr>"] exI [of _ "(ts, ts')"] exI) simp
qed

end
