(* ===== verification/Api.thy ===== *)
theory Api
  imports World
begin

section \<open>api/index.py: the HTTP producer\<close>

text \<open>
  The endpoints as functions of the parsed request; routing, request parsing and the OpenAPI
  document are FastAPI's. An HTTP error is the exception \<open>HTTPException\<close>. Log lines and the
  wall-clock measurements they print are left out.
\<close>

subsection \<open>Requests and answers\<close>

record convert_request =
  rq_file :: "string option"
  rq_use_llm :: "bool option"

record page_response =
  pr_id :: string
  pr_content :: pytext
  pr_pagination :: pagination

record job_accepted =
  ja_job_id :: string
  ja_status :: string
  ja_doc_key :: string
  ja_total_chunks :: int

record job_status_response =
  js_job_id :: string
  js_status :: string
  js_doc_key :: string
  js_progress :: progress
  js_error :: "string option"
  js_created_at :: int
  js_updated_at :: int

record readiness =
  rd_status :: string
  rd_database :: bool
  rd_storage :: bool
  rd_queue :: bool

datatype submit_result =
    Cached page_response
  | Submitted (sub_job: string) (sub_doc_key: string) (sub_chunks: int)

definition verify_api_key :: "settings \<Rightarrow> string option \<Rightarrow> exn + string option" where
  "verify_api_key cfg x_api_key =
     (case ADMIN_API_KEY cfg of
        None \<Rightarrow> Inl (HTTPException 500 ''API key not configured on server'')
      | Some k \<Rightarrow>
          if k = [] then Inl (HTTPException 500 ''API key not configured on server'')
          else if x_api_key \<noteq> Some k then Inl (HTTPException 401 ''Invalid API key'')
          else Inr x_api_key)"

text \<open>\<^verbatim>\<open>dependencies=[Depends(verify_api_key)]\<close>: the check runs before the endpoint.\<close>

definition authorized :: "('p, 'q, 'o) deps \<Rightarrow> string option \<Rightarrow> (('q, 'o) world, 'a) io \<Rightarrow> (('q, 'o) world, 'a) io" where
  "authorized D key endpoint =
     (case verify_api_key (d_cfg D) key of Inl e \<Rightarrow> throw e | Inr _ \<Rightarrow> endpoint)"

subsection \<open>The producer\<close>

definition page_payload :: "string \<Rightarrow> int \<Rightarrow> manifest \<Rightarrow> pytext \<Rightarrow> page_response" where
  "page_payload doc_id page m content =
     \<lparr>pr_id = doc_id, pr_content = content,
      pr_pagination = build_pagination doc_id page (m_total_pages m) (m_total_length m) (m_page_size m)\<rparr>"

definition first_page_payload ::
  "('p, 'q, 'o) deps \<Rightarrow> string \<Rightarrow> manifest \<Rightarrow> (('q, 'o) world, page_response option) io" where
  "first_page_payload D doc_key m =
     bindE (on_s3 (get_page (d_s3 D) doc_key 1)) (\<lambda>content.
       ret (map_option (page_payload doc_key 1 m) content))"

definition cached_payload :: "('p, 'q, 'o) deps \<Rightarrow> string \<Rightarrow> (('q, 'o) world, page_response option) io" where
  "cached_payload D doc_key =
     bindE (on_db (find_cached_document (d_cfg D) doc_key)) (\<lambda>cached.
       case cached of
         None \<Rightarrow> ret None
       | Some _ \<Rightarrow>
           bindE (on_s3 (get_manifest (d_s3 D) doc_key)) (\<lambda>m.
             case m of None \<Rightarrow> ret None | Some m \<Rightarrow> first_page_payload D doc_key m))"

text \<open>
  The part of \<^verbatim>\<open>submit\<close> under \<^verbatim>\<open>try\<close>: a cached first page, or the hash, key and page ranges of
  a source that is now stored.
\<close>

definition read_source :: "string \<Rightarrow> (('q, 'o) world, bytes) io" where
  "read_source path w =
     (case read_file path (w_disk w) of
        None \<Rightarrow> (Inl (OtherError ''FileNotFoundError'' path), w)
      | Some b \<Rightarrow> (Inr b, w))"

definition prepare ::
  "('p, 'q, 'o) deps \<Rightarrow> bool \<Rightarrow> string \<Rightarrow>
   (('q, 'o) world, page_response + string \<times> string \<times> range list) io" where
  "prepare D use_llm path =
     (let cfg = d_cfg D in
      bindE (read_source path) (\<lambda>content.
      let file_hash = hash_file (d_sha256 D) content;
          doc_key = make_doc_key cfg (d_version D) (d_sha256 D) file_hash use_llm
      in bindE (cached_payload D doc_key) (\<lambda>payload.
         case payload of
           Some p \<Rightarrow> ret (Inl p)
         | None \<Rightarrow>
             bindE (\<lambda>w. (Inr (page_count (d_read_pdf D) path (w_disk w)), w)) (\<lambda>pages.
             bindE (lift_result (plan_chunks pages (PAGES_PER_CHUNK cfg) (MIN_PAGES_FOR_PARALLEL cfg))) (\<lambda>ranges.
             bindE (read_source path) (\<lambda>b.
             bindE (on_s3 (put_source (d_s3 D) file_hash b)) (\<lambda>_.
             ret (Inr (file_hash, doc_key, ranges)))))))))"

definition chunk_tasks :: "string \<Rightarrow> string \<Rightarrow> string \<Rightarrow> range list \<Rightarrow> bool \<Rightarrow> chunk_task list" where
  "chunk_tasks jid dk fh ranges use_llm =
     map (\<lambda>(index, start, stop).
            \<lparr>t_job_id = jid, t_chunk_index = index, t_doc_key = dk, t_file_hash = fh, t_start_page = start,
             t_end_page = stop, t_total_chunks = int (length ranges), t_use_llm = use_llm, t_attempt = 1\<rparr>)
       (py_enumerate 0 ranges)"

definition queue_job ::
  "('p, 'q, 'o) deps \<Rightarrow> string \<Rightarrow> bool \<Rightarrow> string \<times> string \<times> range list \<Rightarrow> (('q, 'o) world, submit_result) io" where
  "queue_job D url use_llm = (\<lambda>(file_hash, doc_key, ranges).
     let cfg = d_cfg D in
     bindE (new_job_id D) (\<lambda>jid.
     thenE (timed (\<lambda>ts. create_job cfg ts jid doc_key file_hash url ranges use_llm))
      (thenE (on_mq (publish cfg (d_amqp D) (chunk_tasks jid doc_key file_hash ranges use_llm)))
        (ret (Submitted jid doc_key (int (length ranges)))))))"

definition submit :: "('p, 'q, 'o) deps \<Rightarrow> string \<Rightarrow> bool \<Rightarrow> (('q, 'o) world, submit_result) io" where
  "submit D url use_llm =
     bindE now (\<lambda>t.
     bindE (on_disk (download (d_cfg D) (d_http_get D) t url)) (\<lambda>path.
     bindE (finallyE (prepare D use_llm path) (on_disk (remove_if_exists path))) (\<lambda>prepared.
       case prepared of
         Inl payload \<Rightarrow> ret (Cached payload)
       | Inr x \<Rightarrow> queue_job D url use_llm x)))"

subsection \<open>Endpoints\<close>

definition job_payload :: "('p, 'q, 'o) deps \<Rightarrow> job_row \<Rightarrow> (('q, 'o) world, job_status_response) io" where
  "job_payload D j =
     bindE (on_db (job_progress (d_cfg D) (j_job_id j))) (\<lambda>p.
       ret \<lparr>js_job_id = j_job_id j, js_status = job_status_text (j_status j), js_doc_key = j_doc_key j,
            js_progress = p, js_error = j_error j, js_created_at = j_created_at j,
            js_updated_at = j_updated_at j\<rparr>)"

text \<open>
  The polling loop, for at most \<open>polls\<close> rounds: None when the job has not ended by then.
  \<open>elapse\<close> is what the rest of the system does to the world while the loop sleeps.
\<close>

fun wait_for_job ::
  "nat \<Rightarrow> ('p, 'q, 'o) deps \<Rightarrow> (('q, 'o) world \<Rightarrow> ('q, 'o) world) \<Rightarrow> string \<Rightarrow> (('q, 'o) world, job_row option) io" where
  "wait_for_job 0 D elapse jid = ret None"
| "wait_for_job (Suc polls) D elapse jid =
     bindE (on_db (get_job (d_cfg D) jid)) (\<lambda>job.
       case job of
         Some j \<Rightarrow>
           if terminal (j_status j) then ret (Some j)
           else thenE (\<lambda>w. (Inr (), elapse w)) (wait_for_job polls D elapse jid)
       | None \<Rightarrow> thenE (\<lambda>w. (Inr (), elapse w)) (wait_for_job polls D elapse jid))"

definition submit_request :: "('p, 'q, 'o) deps \<Rightarrow> convert_request option \<Rightarrow> (('q, 'o) world, submit_result) io" where
  "submit_request D request =
     (case Option.bind request rq_file of
        Some (ch # cs) \<Rightarrow>
          (let use_llm = (case Option.bind request rq_use_llm of None \<Rightarrow> CONVERT_USE_LLM (d_cfg D) | Some b \<Rightarrow> b)
           in catch (submit D (ch # cs) use_llm)
                (\<lambda>e. throw (HTTPException 400 (''Error processing URL: '' @ exn_str e))))
      | _ \<Rightarrow> throw (HTTPException 422 ''`file` (a URL) is required''))"

definition completed_job_payload :: "('p, 'q, 'o) deps \<Rightarrow> job_row \<Rightarrow> (('q, 'o) world, page_response) io" where
  "completed_job_payload D j =
     (if j_status j = Failed
      then throw (HTTPException 400
             (''Conversion failed: '' @ (case j_error j of None \<Rightarrow> ''None'' | Some e \<Rightarrow> e)))
      else
        bindE (on_s3 (get_manifest (d_s3 D) (j_doc_key j))) (\<lambda>m.
          case m of
            None \<Rightarrow> throw (HTTPException 500 ''Converted document is missing'')
          | Some m \<Rightarrow>
              bindE (first_page_payload D (j_doc_key j) m) (\<lambda>payload.
                case payload of
                  None \<Rightarrow> throw (HTTPException 500 ''Converted document is missing'')
                | Some p \<Rightarrow> ret p)))"

text \<open>The synchronous endpoint; None when the job has not ended within the given polls.\<close>

definition convert_endpoint ::
  "nat \<Rightarrow> ('p, 'q, 'o) deps \<Rightarrow> (('q, 'o) world \<Rightarrow> ('q, 'o) world) \<Rightarrow> string option \<Rightarrow> convert_request option
   \<Rightarrow> (('q, 'o) world, page_response option) io" where
  "convert_endpoint polls D elapse key request =
     authorized D key
       (bindE (submit_request D request) (\<lambda>res.
          case res of
            Cached payload \<Rightarrow> ret (Some payload)
          | Submitted jid dk n \<Rightarrow>
              bindE (wait_for_job polls D elapse jid) (\<lambda>job.
                case job of
                  None \<Rightarrow> ret None
                | Some j \<Rightarrow> bindE (completed_job_payload D j) (\<lambda>p. ret (Some p)))))"

definition async_convert_endpoint ::
  "('p, 'q, 'o) deps \<Rightarrow> string option \<Rightarrow> convert_request option
   \<Rightarrow> (('q, 'o) world, int \<times> (page_response + job_accepted)) io" where
  "async_convert_endpoint D key request =
     authorized D key
       (bindE (submit_request D request) (\<lambda>res.
          case res of
            Cached payload \<Rightarrow> ret (200, Inl payload)
          | Submitted jid dk n \<Rightarrow>
              ret (202, Inr \<lparr>ja_job_id = jid, ja_status = ''queued'', ja_doc_key = dk, ja_total_chunks = n\<rparr>)))"

definition get_job_endpoint ::
  "('p, 'q, 'o) deps \<Rightarrow> string option \<Rightarrow> string \<Rightarrow> (('q, 'o) world, job_status_response) io" where
  "get_job_endpoint D key jid =
     authorized D key
       (bindE (on_db (get_job (d_cfg D) jid)) (\<lambda>job.
          case job of
            None \<Rightarrow> throw (HTTPException 404 ''Job not found'')
          | Some j \<Rightarrow> job_payload D j))"

abbreviation page_not_found :: exn where
  "page_not_found \<equiv> HTTPException 404 ''Document or page not found (it may have expired).''"

definition get_page_endpoint ::
  "('p, 'q, 'o) deps \<Rightarrow> string option \<Rightarrow> string \<Rightarrow> int \<Rightarrow> (('q, 'o) world, page_response) io" where
  "get_page_endpoint D key doc_id page =
     authorized D key
       (bindE (on_s3 (get_manifest (d_s3 D) doc_id)) (\<lambda>m.
          case m of
            None \<Rightarrow> throw page_not_found
          | Some m \<Rightarrow>
              if page < 1 \<or> page > m_total_pages m then throw page_not_found
              else
                bindE (on_s3 (get_page (d_s3 D) doc_id page)) (\<lambda>content.
                  case content of
                    None \<Rightarrow> throw page_not_found
                  | Some c \<Rightarrow> ret (page_payload doc_id page m c))))"

definition root :: "string" where
  "root = ''ok''"

definition readyz :: "('p, 'q, 'o) deps \<Rightarrow> (('q, 'o) world, int \<times> readiness) io" where
  "readyz D =
     bindE (on_db (db_health (job_env (d_cfg D)))) (\<lambda>database.
     bindE (on_s3 (storage_health (d_s3 D))) (\<lambda>storage.
     bindE (on_mq (mq_health (d_cfg D) (d_amqp D))) (\<lambda>queue.
       let good = (database \<and> storage \<and> queue)
       in ret (if good then 200 else 503,
               \<lparr>rd_status = (if good then ''ok'' else ''degraded''), rd_database = database,
                rd_storage = storage, rd_queue = queue\<rparr>))))"

text \<open>The OpenAPI document is dumped once; \<open>dump\<close> is \<^verbatim>\<open>yaml.safe_dump(app.openapi())\<close>.\<close>

definition openapi_yaml :: "exn + string \<Rightarrow> (string option, string \<times> string) io" where
  "openapi_yaml dump = bindE (memo dump) (\<lambda>doc. ret (doc, ''application/yaml''))"

definition lifespan :: "('p, 'q, 'o) deps \<Rightarrow> (('q, 'o) world, unit) io" where
  "lifespan D = on_db (migrate (job_env (d_cfg D)))"

end
