(* ===== verification/Pipeline.thy ===== *)
theory Pipeline
  imports Sources Assembly Api
begin

section \<open>From a created job to a served document\<close>

text \<open>
  The worker's \<^verbatim>\<open>handle\<close> on the tasks of one job, with the services up: an invariant that ties the
  job row, the counter, the finished chunks and the stored parts together, and what the API
  serves at the end.
\<close>

subsection \<open>Handling the tasks of one job\<close>

text \<open>What markitdown makes of the pages of a task does not depend on the name of the temporary file.\<close>

definition converts :: "('p, 'q, 'o) deps \<Rightarrow> string \<Rightarrow> bytes \<Rightarrow> pytext list \<Rightarrow> chunk_task \<Rightarrow> bool" where
  "converts D fh src texts task \<longleftrightarrow>
     0 \<le> t_chunk_index task \<and> t_chunk_index task < int (length texts) \<and>
     (\<forall>path. (if t_end_page task = -1 then path = cached_path (d_cfg D) fh else ends_with ''.pdf'' path) \<longrightarrow>
        range_text D path src (t_start_page task) (t_end_page task) (t_use_llm task)
          = Inr (texts ! nat (t_chunk_index task)))"

definition task_of :: "string \<Rightarrow> string \<Rightarrow> string \<Rightarrow> chunk_task \<Rightarrow> bool" where
  "task_of jid dk fh task \<longleftrightarrow> t_job_id task = jid \<and> t_doc_key task = dk \<and> t_file_hash task = fh"

text \<open>The document is stored and recorded.\<close>

definition served :: "('p, 'q, 'o) deps \<Rightarrow> (string \<Rightarrow> bytes option) \<Rightarrow> tables \<Rightarrow> string \<Rightarrow> string \<Rightarrow> pytext list \<Rightarrow> bool" where
  "served D v t dk fh texts \<longleftrightarrow>
     (\<exists>pages ts. paginate (PAGE_SIZE (d_cfg D)) (join_parts texts) = Some pages \<and>
        stores_document (d_cfg D) v dk pages (int (length (join_parts texts))) \<and>
        filter (\<lambda>r. d_doc_key r = dk) (documents t) =
          [document_of (d_cfg D) ts dk fh (int (length pages)) (int (length texts))
             (int (length (join_parts texts))) (PAGE_SIZE (d_cfg D))])"

definition source_ready ::
  "('p, 'q, 'o) deps \<Rightarrow> ('o \<Rightarrow> string \<Rightarrow> bytes option) \<Rightarrow> ('o \<Rightarrow> bool) \<Rightarrow> string \<Rightarrow> bytes \<Rightarrow> ('q, 'o) world \<Rightarrow> bool" where
  "source_ready D view up fh src w \<longleftrightarrow>
     up (w_s3 w) \<and> view (w_s3 w) (source_key fh) = Some src \<and>
     cache_sound (d_cfg D) (view (w_s3 w)) (w_disk w) \<and> cache_room (d_cfg D) fh src (w_disk w)"

text \<open>A job whose row, counter, finished chunks and stored parts agree.\<close>

definition job_base ::
  "('p, 'q, 'o) deps \<Rightarrow> ('o \<Rightarrow> string \<Rightarrow> bytes option) \<Rightarrow> ('o \<Rightarrow> bool) \<Rightarrow> string \<Rightarrow> string \<Rightarrow> string \<Rightarrow> bytes \<Rightarrow>
   pytext list \<Rightarrow> tables \<Rightarrow> job_abs \<Rightarrow> ('q, 'o) world \<Rightarrow> bool" where
  "job_base D view up jid dk fh src texts t a w \<longleftrightarrow>
     ready t (w_db w) \<and> tables_wf t \<and> job_view jid t = Some a \<and>
     job_static jid t = Some (dk, fh, int (length texts)) \<and> consistent a \<and> a_chunks a = int ` {0..<length texts} \<and>
     source_ready D view up fh src w \<and>
     (\<forall>i \<in> a_done a. stores_part (view (w_s3 w)) dk i (texts ! nat i))"

text \<open>
  A job on its way: as long as it is not done, some chunk is open. \<open>seen\<close> are the chunks handled
  so far.
\<close>

definition job_inv ::
  "('p, 'q, 'o) deps \<Rightarrow> ('o \<Rightarrow> string \<Rightarrow> bytes option) \<Rightarrow> ('o \<Rightarrow> bool) \<Rightarrow> string \<Rightarrow> string \<Rightarrow> string \<Rightarrow> bytes \<Rightarrow>
   pytext list \<Rightarrow> int set \<Rightarrow> tables \<Rightarrow> job_abs \<Rightarrow> ('q, 'o) world \<Rightarrow> bool" where
  "job_inv D view up jid dk fh src texts seen t a w \<longleftrightarrow>
     job_base D view up jid dk fh src texts t a w \<and>
     (if a_status a = Done then served D (view (w_s3 w)) t dk fh texts
      else a_status a \<noteq> Failed \<and> seen \<subseteq> a_done a \<and> a_done a \<noteq> a_chunks a)"

lemma stores_frame:
  "(\<And>i. v' (page_key dk i) = v (page_key dk i)) \<Longrightarrow> v' (manifest_key dk) = v (manifest_key dk) \<Longrightarrow>
   stores_document cfg v' dk pages len = stores_document cfg v dk pages len"
  by (simp add: stores_document_def)

lemma get_job_world:
  assumes "ready t (w_db w)"
  shows "\<exists>c'. on_db (get_job cfg jid) w = (Inr (find_job jid t), w\<lparr>w_db := c'\<rparr>) \<and> ready t c'"
proof -
  obtain c' where "get_job cfg jid (w_db w) = (Inr (find_job jid t), c')" "ready t c'"
    using get_job_ready [OF assms] by blast
  then show ?thesis by (auto simp: on_db_def)
qed

lemma job_inv_frame:
  "w_db w' = w_db w \<Longrightarrow> w_s3 w' = w_s3 w \<Longrightarrow> w_disk w' = w_disk w \<Longrightarrow>
   job_inv D view up jid dk fh src texts seen t a w' = job_inv D view up jid dk fh src texts seen t a w"
  by (simp add: job_inv_def job_base_def source_ready_def)

lemma job_inv_w_db: "job_inv D view up jid dk fh src texts seen t a w \<Longrightarrow> ready t c' \<Longrightarrow>
   job_inv D view up jid dk fh src texts seen t a (w\<lparr>w_db := c'\<rparr>)"
  by (auto simp: job_inv_def job_base_def source_ready_def)

lemma handle_dropped:
  assumes "job_inv D view up jid dk fh src texts seen t a w" "a_status a = Done" "t_job_id task = jid"
  shows "\<exists>w'. handle D task w = (Inr (), w') \<and> job_inv D view up jid dk fh src texts seen' t a w'"
proof -
  have rd: "ready t (w_db w)" and "job_view jid t = Some a" using assms(1) by (simp_all add: job_inv_def job_base_def)
  then obtain j where j: "find_job jid t = Some j" "j_status j = Done" using job_view_find assms(2) by fastforce
  obtain c' where c': "on_db (get_job (d_cfg D) jid) w = (Inr (Some j), w\<lparr>w_db := c'\<rparr>)" "ready t c'"
    using get_job_world [OF rd, of "d_cfg D" jid] j(1) by auto
  have "handle D task w = (Inr (), w\<lparr>w_db := c'\<rparr>)"
    using c'(1) j(2) assms(3) by (simp add: handle_def bindE_run ret_def Let_def)
  moreover have "job_inv D view up jid dk fh src texts seen' t a (w\<lparr>w_db := c'\<rparr>)"
    using job_inv_w_db [OF assms(1) c'(2)] assms(2) by (simp add: job_inv_def job_base_def)
  ultimately show ?thesis by blast
qed


lemma convert_and_store:
  assumes store: "object_store_up (d_s3 D) view up" and "hex_name fh" and sr: "source_ready D view up fh src w"
    and task: "task_of jid dk fh task" "converts D fh src texts task" and enc: "list_all (list_all encodable) texts"
  shows "\<exists>k s' d' b. bindE (convert_range D (t_file_hash task) (t_start_page task) (t_end_page task) (t_use_llm task))
        (\<lambda>markdown. on_s3 (put_part (d_s3 D) (t_doc_key task) (t_chunk_index task) markdown)) w
      = (Inr (part_key dk (t_chunk_index task)), w\<lparr>w_ticks := k, w_s3 := s', w_disk := d'\<rparr>) \<and>
    utf8_encode (texts ! nat (t_chunk_index task)) = Inr b \<and>
    view s' = (view (w_s3 w))(part_key dk (t_chunk_index task) \<mapsto> b) \<and>
    source_ready D view up fh src (w\<lparr>w_ticks := k, w_s3 := s', w_disk := d'\<rparr>)"
proof -
  let ?i = "t_chunk_index task" and ?start = "t_start_page task" and ?stop = "t_end_page task"
  let ?txt = "texts ! nat ?i"
  note t = task(1) [unfolded task_of_def]
  obtain q k s1 d' where conv: "convert_range D fh ?start ?stop (t_use_llm task) w
      = (range_text D q src ?start ?stop (t_use_llm task), w\<lparr>w_ticks := k, w_s3 := s1, w_disk := d'\<rparr>)"
    and q: "if ?stop = -1 then q = cached_path (d_cfg D) fh else ends_with ''.pdf'' q"
    and s1: "up s1" "view s1 = view (w_s3 w)" and d': "cache_sound (d_cfg D) (view s1) d'" "cache_room (d_cfg D) fh src d'"
    using convert_range_room [OF store, of w fh src ?start ?stop "t_use_llm task"] sr assms(2)
    unfolding source_ready_def by blast
  have out: "range_text D q src ?start ?stop (t_use_llm task) = Inr ?txt"
    using task(2) q by (simp add: converts_def)
  have "nat ?i < length texts" using task(2) by (auto simp: converts_def)
  then have "?txt \<in> set texts" by simp
  with enc obtain b where b: "utf8_encode ?txt = Inr b" using utf8_encode_ok [of ?txt] by (auto simp: list_all_iff)
  obtain s' where s': "put_part (d_s3 D) dk ?i ?txt s1 = (Inr (part_key dk ?i), s')" "up s'"
    "view s' = (view s1)(part_key dk ?i \<mapsto> b)"
    using object_store_up.up_put_part [OF store s1(1) b, of dk ?i] by blast
  have "cache_sound (d_cfg D) (view s') d'" using d'(1) s'(3) by (simp add: cache_sound_def)
  with conv out s' s1 d' b sr t show ?thesis
    by (intro exI [of _ k] exI [of _ s'] exI [of _ d'] exI [of _ b])
      (simp add: bindE_run on_s3_def source_ready_def)
qed

text \<open>The counter reaches zero with the last open chunk.\<close>

lemma last_open_chunk:
  assumes "consistent a" "\<not> terminal (a_status a)" "i \<in> a_chunks a" "i \<notin> a_done a"
  shows "a_remaining a - 1 = 0 \<longleftrightarrow> insert i (a_done a) = a_chunks a"
proof -
  have fin: "finite (a_chunks a)" "a_done a \<subseteq> a_chunks a" and card: "a_remaining a = int (card (a_chunks a - a_done a))"
    using assms(1,2) by (simp_all add: consistent_def)
  have "card (a_chunks a - a_done a) = 1 \<longleftrightarrow> a_chunks a - a_done a = {i}"
    using assms(3,4) by (metis card_1_singletonE Diff_iff singletonD is_singletonI is_singleton_altdef)
  also have "\<dots> \<longleftrightarrow> insert i (a_done a) = a_chunks a" using fin(2) assms(3,4) by blast
  finally show ?thesis using card by simp
qed


lemma abs_complete_inv:
  assumes "consistent a" "\<not> terminal (a_status a)" "i \<in> a_chunks a" "a_done a \<noteq> a_chunks a"
  defines "b \<equiv> snd (abs_complete i a)" and "r \<equiv> fst (abs_complete i a)"
  shows "consistent b" "\<not> terminal (a_status b)" "a_chunks b = a_chunks a" "a_done b = insert i (a_done a)"
    "r = 0 \<longleftrightarrow> a_done b = a_chunks b"
proof -
  show "consistent b" unfolding b_def by (rule consistent_complete [OF assms(1)])
  show "\<not> terminal (a_status b)" "a_chunks b = a_chunks a" "a_done b = insert i (a_done a)"
    using assms(2,3) by (auto simp: b_def abs_complete_def)
  show "r = 0 \<longleftrightarrow> a_done b = a_chunks b"
  proof (cases "i \<in> a_done a")
    case True
    then show ?thesis using assms(4) by (simp add: r_def b_def abs_complete_def CHUNK_ALREADY_DONE_def)
  next
    case False
    then show ?thesis using last_open_chunk [OF assms(1-3) False] assms(2,3)
      by (simp add: r_def b_def abs_complete_def)
  qed
qed

lemma assemble_finished_healthy:
  assumes store: "object_store_up (d_s3 D) view up" and size: "1 \<le> PAGE_SIZE (d_cfg D)"
    and t: "ready t (w_db w)" "tables_wf t" "job_view jid t = Some a" "job_static jid t = Some (dk, fh, int (length texts))"
      "a_chunks a = int ` {0..<length texts}" "consistent a"
    and sr: "source_ready D view up fh src w" and parts: "\<forall>i \<in> a_chunks a. stores_part (view (w_s3 w)) dk i (texts ! nat i)"
  shows "\<exists>w' t'. assemble_finished D jid w = (Inr (), w') \<and>
    job_inv D view up jid dk fh src texts seen t' (a\<lparr>a_status := Done\<rparr>) w'"
proof -
  obtain j where j: "find_job jid t = Some j" "j_doc_key j = dk" "j_file_hash j = fh" "j_total_chunks j = int (length texts)"
    using t(4) by (auto simp: job_static_def)
  obtain c1 where c1: "on_db (get_job (d_cfg D) jid) w = (Inr (Some j), w\<lparr>w_db := c1\<rparr>)" "ready t c1"
    using get_job_world [OF t(1), of "d_cfg D" jid] j(1) by auto
  let ?w = "w\<lparr>w_db := c1\<rparr>"
  have "\<forall>i < length texts. stores_part (view (w_s3 ?w)) dk (int i) (texts ! i)" using parts t(5) by auto
  moreover have "up (w_s3 ?w)" using sr by (simp add: source_ready_def)
  moreover have "ready t (w_db ?w)" using c1(2) by simp
  ultimately obtain pages w' t' ts where asm: "paginate (PAGE_SIZE (d_cfg D)) (join_parts texts) = Some pages"
      "assemble D j ?w = (Inr (), w')" "ready t' (w_db w')" "up (w_s3 w')" "w_disk w' = w_disk w"
      "stores_document (d_cfg D) (view (w_s3 w')) dk pages (int (length (join_parts texts)))"
    and frame: "\<forall>k. k \<noteq> manifest_key dk \<longrightarrow> (\<forall>i. k \<noteq> page_key dk i) \<longrightarrow> view (w_s3 w') k = view (w_s3 w) k"
    and t': "t' = after (finish_job_stmt (fst ts) jid) (recorded (document_of (d_cfg D) (snd ts) dk fh
            (int (length pages)) (int (length texts)) (int (length (join_parts texts))) (PAGE_SIZE (d_cfg D))) t)"
    using assemble_healthy [OF store _ _ t(2,3,5) find_job_id [OF j(1)] j(2) _ size, of ?w] j(3,4) by auto
  have view': "job_view jid t' = Some (a\<lparr>a_status := Done\<rparr>)" using t(3) by (simp add: t' view_finish_job)
  have "served D (view (w_s3 w')) t' dk fh texts"
    unfolding served_def using asm(1,6)
    by (intro exI [of _ pages] exI [of _ "snd ts"]) (simp add: t' document_of_def)
  moreover have "source_ready D view up fh src w'"
    using sr frame asm(4,5) by (simp add: source_ready_def cache_sound_def)
  moreover have "\<forall>i \<in> a_done a. stores_part (view (w_s3 w')) dk i (texts ! nat i)"
    using parts t(6) frame by (auto simp: stores_part_def consistent_def)
  moreover have "tables_wf t'" "job_static jid t' = Some (dk, fh, int (length texts))" using t(2,4) by (simp_all add: t')
  moreover have "assemble_finished D jid w = (Inr (), w')"
    using c1(1) asm(2) by (simp add: assemble_finished_def catch_run bindE_run)
  ultimately show ?thesis using asm(3) t(5,6) view' by (auto simp: job_inv_def job_base_def consistent_def)
qed


lemma start_chunk_world:
  assumes "ready t (w_db w)"
  shows "\<exists>c'. timed (\<lambda>ts. start_chunk cfg ts jid i owner att) w = (Inr (), w\<lparr>w_ticks := w_ticks w + 1, w_db := c'\<rparr>) \<and>
    ready (started (w_clock w (w_ticks w)) jid i owner att t) c'"
proof -
  obtain c' where "start_chunk cfg (w_clock w (w_ticks w)) jid i owner att (w_db w) = (Inr (), c')"
    "ready (started (w_clock w (w_ticks w)) jid i owner att t) c'" using start_chunk_ready [OF assms] by blast
  then show ?thesis using timed_run [of "\<lambda>ts. start_chunk cfg ts jid i owner att" w "Inr ()" c'] by auto
qed

lemma complete_chunk_world:
  assumes "ready t (w_db w)"
  defines "ts \<equiv> w_clock w (w_ticks w)"
  shows "\<exists>c'. timed (\<lambda>ts. complete_chunk cfg ts jid i key) w
      = (Inr (fst (complete_pure ts jid i key t)), w\<lparr>w_ticks := w_ticks w + 1, w_db := c'\<rparr>) \<and>
    ready (snd (complete_pure ts jid i key t)) c'"
proof -
  obtain c' where "complete_chunk cfg ts jid i key (w_db w) = (Inr (fst (complete_pure ts jid i key t)), c')"
    "ready (snd (complete_pure ts jid i key t)) c'" using complete_chunk_ready [OF assms(1)] by blast
  then show ?thesis
    using timed_run [of "\<lambda>ts. complete_chunk cfg ts jid i key" w "Inr (fst (complete_pure ts jid i key t))" c']
    by (auto simp: ts_def)
qed

lemma source_ready_cong:
  "w_s3 w' = w_s3 w \<Longrightarrow> w_disk w' = w_disk w \<Longrightarrow> source_ready D view up fh src w' = source_ready D view up fh src w"
  by (simp add: source_ready_def)

text \<open>Counting a stored part, and assembling when it was the last one.\<close>

lemma complete_and_assemble:
  assumes store: "object_store_up (d_s3 D) view up" and size: "1 \<le> PAGE_SIZE (d_cfg D)"
    and t: "ready t (w_db w)" "tables_wf t" "job_view jid t = Some a" "job_static jid t = Some (dk, fh, int (length texts))"
      "a_chunks a = int ` {0..<length texts}" "consistent a" "\<not> terminal (a_status a)" "a_done a \<noteq> a_chunks a"
    and i: "i \<in> a_chunks a" and seen: "seen \<subseteq> a_done a"
    and sr: "source_ready D view up fh src w"
    and parts: "\<forall>i' \<in> insert i (a_done a). stores_part (view (w_s3 w)) dk i' (texts ! nat i')"
  shows "\<exists>w' t' a'. bindE (timed (\<lambda>ts. complete_chunk (d_cfg D) ts jid i key))
        (\<lambda>remaining. if remaining = 0 then assemble_finished D jid else ret ()) w = (Inr (), w') \<and>
      job_inv D view up jid dk fh src texts (insert i seen) t' a' w'"
proof -
  let ?b = "snd (abs_complete i a)" and ?r = "fst (abs_complete i a)"
  let ?t = "snd (complete_pure (w_clock w (w_ticks w)) jid i key t)"
  note b = abs_complete_inv [OF t(6,7) i t(8)]
  note pure = complete_pure_refines [OF t(2,3), of "w_clock w (w_ticks w)" i key]
  obtain c' where run: "timed (\<lambda>ts. complete_chunk (d_cfg D) ts jid i key) w
      = (Inr ?r, w\<lparr>w_ticks := w_ticks w + 1, w_db := c'\<rparr>)" (is "_ = (_, ?w)") and rd: "ready ?t c'"
    using complete_chunk_world [OF t(1), of "d_cfg D" jid i key] pure(1) by auto
  have t': "ready ?t (w_db ?w)" "tables_wf ?t" "job_view jid ?t = Some ?b" "job_static jid ?t = Some (dk, fh, int (length texts))"
    using rd wf_complete_pure [OF t(2)] pure(2) t(4) by simp_all
  have chunks: "a_chunks ?b = int ` {0..<length texts}" using b(3) t(5) by simp
  have sr': "source_ready D view up fh src ?w" using sr by (simp add: source_ready_def)
  show ?thesis
  proof (cases "?r = 0")
    case True
    then have "\<forall>i \<in> a_chunks ?b. stores_part (view (w_s3 ?w)) dk i (texts ! nat i)" using b(4,5) parts by simp
    from assemble_finished_healthy [OF store size t' chunks b(1) sr' this, of "insert i seen"] run True show ?thesis
      by (auto simp: bindE_run)
  next
    case False
    then have "job_inv D view up jid dk fh src texts (insert i seen) ?t ?b ?w"
      using t' chunks b sr' parts seen by (auto simp: job_inv_def job_base_def)
    with run False show ?thesis by (auto simp: bindE_run ret_def)
  qed
qed

text \<open>A delivered task of an active job, up to the point where its chunk is counted.\<close>

lemma handle_to_completion:
  assumes store: "object_store_up (d_s3 D) view up" and hex: "hex_name fh" and enc: "list_all (list_all encodable) texts"
    and base: "job_base D view up jid dk fh src texts t a w" and active: "\<not> terminal (a_status a)"
    and task: "task_of jid dk fh task" "converts D fh src texts task"
  defines "b \<equiv> if a_status a = Queued then a\<lparr>a_status := Running\<rparr> else a"
  shows "\<exists>w' t'. handle D task w = bindE (timed (\<lambda>ts. complete_chunk (d_cfg D) ts jid (t_chunk_index task) (part_key dk (t_chunk_index task))))
        (\<lambda>remaining. if remaining = 0 then assemble_finished D jid else ret ()) w' \<and>
      job_base D view up jid dk fh src texts t' b w' \<and> t_chunk_index task \<in> a_chunks b \<and>
      stores_part (view (w_s3 w')) dk (t_chunk_index task) (texts ! nat (t_chunk_index task))"
proof -
  let ?i = "t_chunk_index task"
  note T = base [unfolded job_base_def]
  note ids = task(1) [unfolded task_of_def]
  have rd: "ready t (w_db w)" using T by simp
  obtain j where j: "find_job jid t = Some j" "j_status j = a_status a"
    using T job_view_find [of jid t a] by blast
  obtain c1 where c1: "on_db (get_job (d_cfg D) jid) w = (Inr (Some j), w\<lparr>w_db := c1\<rparr>)" "ready t c1"
    using get_job_world [OF rd, of "d_cfg D" jid] j(1) by auto
  define w1 where "w1 = w\<lparr>w_db := c1\<rparr>"
  let ?t2 = "started (w_clock w1 (w_ticks w1)) jid ?i (d_owner D) (t_attempt task) t"
  obtain c2 where c2: "timed (\<lambda>ts. start_chunk (d_cfg D) ts jid ?i (d_owner D) (t_attempt task)) w1
      = (Inr (), w1\<lparr>w_ticks := w_ticks w1 + 1, w_db := c2\<rparr>)" "ready ?t2 c2"
    using start_chunk_world [of t w1 "d_cfg D" jid ?i "d_owner D" "t_attempt task"] c1(2) by (auto simp: w1_def)
  define w2 where "w2 = w1\<lparr>w_ticks := w_ticks w1 + 1, w_db := c2\<rparr>"
  have sr2: "source_ready D view up fh src w2" using T by (simp add: w2_def w1_def source_ready_def)
  obtain k s' d' e where stored: "bindE (convert_range D (t_file_hash task) (t_start_page task) (t_end_page task) (t_use_llm task))
        (\<lambda>markdown. on_s3 (put_part (d_s3 D) (t_doc_key task) ?i markdown)) w2
      = (Inr (part_key dk ?i), w2\<lparr>w_ticks := k, w_s3 := s', w_disk := d'\<rparr>)"
    and e: "utf8_encode (texts ! nat ?i) = Inr e" "view s' = (view (w_s3 w2))(part_key dk ?i \<mapsto> e)"
    and sr3: "source_ready D view up fh src (w2\<lparr>w_ticks := k, w_s3 := s', w_disk := d'\<rparr>)"
    using convert_and_store [OF store hex sr2 task enc] by blast
  define w3 where "w3 = w2\<lparr>w_ticks := k, w_s3 := s', w_disk := d'\<rparr>"
  have sub: "a_done a \<subseteq> a_chunks a" "a_chunks a = int ` {0..<length texts}" using T unfolding consistent_def by blast+
  then have "0 \<le> i'" if "i' \<in> a_done a" for i' using that by auto
  then have parts: "\<forall>i' \<in> a_done b. stores_part (view (w_s3 w3)) dk i' (texts ! nat i')"
    using T e task(2) by (auto simp: stores_part_def w3_def w2_def w1_def converts_def b_def)
  have "job_base D view up jid dk fh src texts ?t2 b w3"
    using c2(2) T active sr3 parts by (auto simp: job_base_def w3_def w2_def view_started consistent_def b_def)
  moreover have "?i \<in> a_chunks b" using task(2) sub(2) by (auto simp: b_def converts_def image_iff intro!: bexI [of _ "nat ?i"])
  moreover have "stores_part (view (w_s3 w3)) dk ?i (texts ! nat ?i)" using e by (simp add: stores_part_def w3_def)
  moreover have "handle D task w = bindE (timed (\<lambda>ts. complete_chunk (d_cfg D) ts jid ?i (part_key dk ?i)))
        (\<lambda>remaining. if remaining = 0 then assemble_finished D jid else ret ()) w3"
    using c1(1) c2(1) stored active j(2) ids
    by (simp add: handle_def bindE_run thenE_run try_else_run Let_def w3_def w2_def w1_def cong: if_cong)
  ultimately show ?thesis by blast
qed

lemma handle_active:
  assumes store: "object_store_up (d_s3 D) view up" and size: "1 \<le> PAGE_SIZE (d_cfg D)"
    and hex: "hex_name fh" and enc: "list_all (list_all encodable) texts"
    and inv: "job_inv D view up jid dk fh src texts seen t a w" and active: "a_status a \<noteq> Done"
    and task: "task_of jid dk fh task" "converts D fh src texts task"
  shows "\<exists>w' t' a'. handle D task w = (Inr (), w') \<and>
    job_inv D view up jid dk fh src texts (insert (t_chunk_index task) seen) t' a' w'"
proof -
  let ?i = "t_chunk_index task" and ?b = "if a_status a = Queued then a\<lparr>a_status := Running\<rparr> else a"
  have base: "job_base D view up jid dk fh src texts t a w" and open_a: "\<not> terminal (a_status a)" "seen \<subseteq> a_done a" "a_done a \<noteq> a_chunks a"
    using inv active by (auto simp: job_inv_def)
  obtain w1 t1 where run: "handle D task w = bindE (timed (\<lambda>ts. complete_chunk (d_cfg D) ts jid ?i (part_key dk ?i)))
        (\<lambda>remaining. if remaining = 0 then assemble_finished D jid else ret ()) w1"
    and base1: "job_base D view up jid dk fh src texts t1 ?b w1" and i: "?i \<in> a_chunks ?b"
    and part: "stores_part (view (w_s3 w1)) dk ?i (texts ! nat ?i)"
    using handle_to_completion [OF store hex enc base open_a(1) task] by blast
  note T = base1 [unfolded job_base_def]
  have "\<forall>i' \<in> insert ?i (a_done ?b). stores_part (view (w_s3 w1)) dk i' (texts ! nat i')" using T part by blast
  moreover have "\<not> terminal (a_status ?b)" "a_done ?b \<noteq> a_chunks ?b" "seen \<subseteq> a_done ?b" using open_a by auto
  ultimately show ?thesis
    unfolding run using T i by (intro complete_and_assemble [OF store size, where a = ?b and t = t1]) blast+
qed

lemma handle_all:
  assumes "object_store_up (d_s3 D) view up" "1 \<le> PAGE_SIZE (d_cfg D)" "hex_name fh" "list_all (list_all encodable) texts"
    and "job_inv D view up jid dk fh src texts seen t a w"
    and "\<forall>task \<in> set tasks. task_of jid dk fh task \<and> converts D fh src texts task"
  shows "\<exists>w' t' a'. foreachE tasks (handle D) w = (Inr (), w') \<and>
    job_inv D view up jid dk fh src texts (t_chunk_index ` set tasks \<union> seen) t' a' w'"
  using assms(5,6)
proof (induction tasks arbitrary: seen t a w)
  case Nil
  then show ?case by (auto simp: ret_def)
next
  case (Cons task tasks)
  have task: "task_of jid dk fh task" "converts D fh src texts task" using Cons.prems(2) by simp_all
  have "\<exists>w1 t1 a1. handle D task w = (Inr (), w1) \<and>
      job_inv D view up jid dk fh src texts (insert (t_chunk_index task) seen) t1 a1 w1"
  proof (cases "a_status a = Done")
    case True
    then show ?thesis using handle_dropped [OF Cons.prems(1) True, of task "insert (t_chunk_index task) seen"] task(1)
      unfolding task_of_def by blast
  next
    case False
    then show ?thesis by (rule handle_active [OF assms(1-4) Cons.prems(1) _ task])
  qed
  then obtain w1 t1 a1 where one: "handle D task w = (Inr (), w1)"
    "job_inv D view up jid dk fh src texts (insert (t_chunk_index task) seen) t1 a1 w1" by blast
  from Cons.IH [OF one(2)] Cons.prems(2) one(1) show ?case by (simp add: thenE_run)
qed

lemma all_handled_done:
  assumes "job_inv D view up jid dk fh src texts seen t a w" "a_chunks a \<subseteq> seen"
  shows "a_status a = Done \<and> served D (view (w_s3 w)) t dk fh texts"
proof -
  have "a_done a \<subseteq> a_chunks a" using assms(1) unfolding job_inv_def job_base_def consistent_def by blast
  then show ?thesis using assms unfolding job_inv_def job_base_def by (metis subset_antisym subset_trans)
qed

text \<open>The state a new job starts in.\<close>

lemma job_inv_new:
  assumes "ready t (w_db w)" "tables_wf t" "unknown_job jid t" "ranges \<noteq> []" "length texts = length ranges"
    and "source_ready D view up fh src w"
  shows "\<exists>w' t'. timed (\<lambda>ts. create_job (d_cfg D) ts jid dk fh url ranges llm) w = (Inr (), w') \<and>
    w_s3 w' = w_s3 w \<and> w_disk w' = w_disk w \<and> job_inv D view up jid dk fh src texts {} t' (new_job_abs (length texts)) w'"
proof -
  let ?ts = "w_clock w (w_ticks w)" and ?sts = "create_stmts (w_clock w (w_ticks w)) jid dk fh url ranges llm"
  obtain t' where t': "apply_stmts ?sts t = Inr t'" "jobs t' = jobs t @ [new_job_row ?ts jid dk fh url (int (length ranges)) llm]"
    using create_fresh [OF assms(3), of ?ts dk fh url ranges llm] by blast
  obtain c' where c': "create_job (d_cfg D) ?ts jid dk fh url ranges llm (w_db w) = (Inr (), c')" "ready t' c'"
    using transaction_stmts_ready [of t "w_db w" ?sts "job_env (d_cfg D)"] assms(1) create_stmts_write t'(1)
    by (auto simp: create_job_stmts)
  have wf: "tables_wf t'" using apply_stmts_keeps [of ?sts tables_wf t] create_stmts_wf assms(2) t'(1) by blast
  have "filter (\<lambda>j. j_job_id j = jid) (jobs t) = []"
    using assms(3) by (auto simp: unknown_job_def list_all_iff filter_empty_conv)
  then have "job_static jid t' = Some (dk, fh, int (length texts))"
    using t'(2) assms(5) by (simp add: job_static_def find_job_def new_job_row_def)
  then have "job_inv D view up jid dk fh src texts {} t' (new_job_abs (length texts)) (w\<lparr>w_ticks := w_ticks w + 1, w_db := c'\<rparr>)"
    using c'(2) wf create_fresh_view [OF assms(3) t'(1)] consistent_new [of "length texts"] assms(4-6)
    by (auto simp: job_inv_def job_base_def source_ready_def new_job_abs_def)
  with timed_run [of "\<lambda>ts. create_job (d_cfg D) ts jid dk fh url ranges llm" w "Inr ()" c'] c'(1) show ?thesis by auto
qed


subsection \<open>What the API then serves\<close>

lemma authorized_ok: "ADMIN_API_KEY (d_cfg D) = Some key \<Longrightarrow> key \<noteq> [] \<Longrightarrow> authorized D (Some key) m = m"
  by (simp add: authorized_def verify_api_key_def)

lemma get_page_endpoint_run:
  assumes store: "object_store_up (d_s3 D) view up" and up: "up (w_s3 w)"
    and key: "ADMIN_API_KEY (d_cfg D) = Some key" "key \<noteq> []"
    and doc: "stores_document (d_cfg D) (view (w_s3 w)) dk pages len" and i: "i < length pages"
  shows "\<exists>s'. get_page_endpoint D (Some key) dk (1 + int i) w
    = (Inr (page_payload dk (1 + int i) (doc_manifest (d_cfg D) dk pages len) (pages ! i)), w\<lparr>w_s3 := s'\<rparr>)
    \<and> up s' \<and> view s' = view (w_s3 w)"
proof -
  obtain b where b: "view (w_s3 w) (manifest_key dk) = Some b" "decode_manifest b = Inr (doc_manifest (d_cfg D) dk pages len)"
    using doc by (auto simp: stores_document_def)
  obtain s1 where s1: "get_manifest (d_s3 D) dk (w_s3 w) = (Inr (Some (doc_manifest (d_cfg D) dk pages len)), s1)"
    "up s1" "view s1 = view (w_s3 w)"
    using object_store_up.up_get_manifest [OF store up b] by blast
  obtain p where p: "utf8_encode (pages ! i) = Inr p" "view s1 (page_key dk (1 + int i)) = Some p"
    using doc i s1(3) by (auto simp: stores_document_def)
  obtain s2 where "get_page (d_s3 D) dk (1 + int i) s1 = (Inr (Some (pages ! i)), s2)" "up s2" "view s2 = view s1"
    using object_store_up.up_get_page [OF store s1(2) p(2)] utf8_round_trip [OF p(1)] by blast
  with s1 i show ?thesis
    by (auto simp: get_page_endpoint_def authorized_ok [OF key] bindE_def on_s3_def ret_def)
qed

lemma get_job_endpoint_ok:
  assumes "ready t (w_db w)" "find_job jid t = Some j" "ADMIN_API_KEY (d_cfg D) = Some key" "key \<noteq> []"
  shows "fst (get_job_endpoint D (Some key) jid w) = Inr
    \<lparr>js_job_id = jid, js_status = job_status_text (j_status j), js_doc_key = j_doc_key j, js_progress = progress_of (Some j),
     js_error = j_error j, js_created_at = j_created_at j, js_updated_at = j_updated_at j\<rparr>"
proof -
  obtain c1 where c1: "on_db (get_job (d_cfg D) jid) w = (Inr (Some j), w\<lparr>w_db := c1\<rparr>)" "ready t c1"
    using get_job_world [OF assms(1), of "d_cfg D" jid] assms(2) by auto
  obtain c2 where c2: "get_job (d_cfg D) jid c1 = (Inr (Some j), c2)"
    using get_job_ready [OF c1(2), of "d_cfg D" jid] assms(2) by auto
  show ?thesis using c1(1) c2 find_job_id [OF assms(2)]
    by (simp add: get_job_endpoint_def authorized_ok [OF assms(3,4)] bindE_run job_payload_def job_progress_def
        on_db_def bindE_def ret_def)
qed

text \<open>Deliveries of the tasks of a job: each task at least once, in any order, on any attempt.\<close>

definition delivers :: "chunk_task list \<Rightarrow> chunk_task list \<Rightarrow> bool" where
  "delivers tasks ds \<longleftrightarrow> (\<lambda>d. d\<lparr>t_attempt := 1\<rparr>) ` set ds = set tasks"

lemma chunk_tasks_ids:
  assumes "task \<in> set (chunk_tasks jid dk fh ranges llm)"
  shows "task_of jid dk fh task"
  using assms by (auto simp: chunk_tasks_def task_of_def)

lemma chunk_tasks_index: "t_chunk_index ` set (chunk_tasks jid dk fh ranges llm) = int ` {0..<length ranges}"
proof -
  have "map t_chunk_index (chunk_tasks jid dk fh ranges llm) = map fst (py_enumerate 0 ranges)"
    by (simp add: chunk_tasks_def comp_def case_prod_beta)
  then have "set (map t_chunk_index (chunk_tasks jid dk fh ranges llm)) = set (map fst (py_enumerate 0 ranges))"
    by simp
  then show ?thesis by (simp add: map_fst_py_enumerate)
qed

lemma deliveries_complete:
  assumes store: "object_store_up (d_s3 D) view up" "1 \<le> PAGE_SIZE (d_cfg D)" "hex_name fh" "list_all (list_all encodable) texts"
    and inv: "job_inv D view up jid dk fh src texts {} t a w" and texts: "length texts = length ranges"
      "\<forall>task \<in> set (chunk_tasks jid dk fh ranges llm). converts D fh src texts task"
    and deliveries: "delivers (chunk_tasks jid dk fh ranges llm) ds"
  shows "\<exists>w' t' a'. foreachE ds (handle D) w = (Inr (), w') \<and>
    job_inv D view up jid dk fh src texts (t_chunk_index ` set ds) t' a' w' \<and>
    a_status a' = Done \<and> served D (view (w_s3 w')) t' dk fh texts"
proof -
  let ?tasks = "chunk_tasks jid dk fh ranges llm"
  have base: "d\<lparr>t_attempt := 1\<rparr> \<in> set ?tasks" if "d \<in> set ds" for d using deliveries that by (auto simp: delivers_def)
  have "task_of jid dk fh d \<and> converts D fh src texts d" if "d \<in> set ds" for d
    using chunk_tasks_ids [OF base [OF that]] texts(2) base [OF that] by (auto simp: task_of_def converts_def)
  then obtain w' t' a' where w': "foreachE ds (handle D) w = (Inr (), w')"
    "job_inv D view up jid dk fh src texts (t_chunk_index ` set ds) t' a' w'"
    using handle_all [OF store inv, of ds] by auto
  have "t_chunk_index ` set ds = t_chunk_index ` set ?tasks"
    unfolding deliveries [unfolded delivers_def, symmetric] by (simp add: image_image)
  then have "a_chunks a' \<subseteq> t_chunk_index ` set ds"
    using w'(2) texts(1) chunk_tasks_index [of jid dk fh ranges llm] by (simp add: job_inv_def job_base_def)
  from all_handled_done [OF w'(2) this] w' show ?thesis by blast
qed

text \<open>
  C3. A job whose chunks can all be converted ends as done, whatever the order in which its
  tasks are delivered and however often each is repeated: once every task was handled, the job
  endpoint reports it as done and the page endpoint serves exactly the pages of the chunk texts
  joined in chunk order.
\<close>

theorem job_runs_to_completion:
  assumes store: "object_store_up (d_s3 D) view up" and key: "ADMIN_API_KEY (d_cfg D) = Some key" "key \<noteq> []"
    and size: "1 \<le> PAGE_SIZE (d_cfg D)"
    and db: "ready t (w_db w)" "tables_wf t" "unknown_job jid t" and ranges: "ranges \<noteq> []"
    and source: "hex_name fh" "source_ready D view up fh src w"
    and texts: "length texts = length ranges" "list_all (list_all encodable) texts"
      "\<forall>task \<in> set (chunk_tasks jid dk fh ranges llm). converts D fh src texts task"
    and deliveries: "delivers (chunk_tasks jid dk fh ranges llm) ds"
  shows "\<exists>pages w1 w2. paginate (PAGE_SIZE (d_cfg D)) (join_parts texts) = Some pages \<and>
    timed (\<lambda>ts. create_job (d_cfg D) ts jid dk fh url ranges llm) w = (Inr (), w1) \<and>
    foreachE ds (handle D) w1 = (Inr (), w2) \<and>
    (\<exists>status. fst (get_job_endpoint D (Some key) jid w2) = Inr status \<and> js_status status = ''done'') \<and>
    map (\<lambda>i. map_sum id pr_content (fst (get_page_endpoint D (Some key) dk i w2))) [1..int (length pages)] = map Inr pages"
proof -
  let ?tasks = "chunk_tasks jid dk fh ranges llm"
  obtain w1 t1 where w1: "timed (\<lambda>ts. create_job (d_cfg D) ts jid dk fh url ranges llm) w = (Inr (), w1)"
    "job_inv D view up jid dk fh src texts {} t1 (new_job_abs (length texts)) w1"
    using job_inv_new [OF db ranges texts(1) source(2), of dk url llm] by blast
  obtain w2 t2 a2 where w2: "foreachE ds (handle D) w1 = (Inr (), w2)"
    "job_inv D view up jid dk fh src texts (t_chunk_index ` set ds) t2 a2 w2"
    and fin: "a_status a2 = Done" "served D (view (w_s3 w2)) t2 dk fh texts"
    using deliveries_complete [OF store size source(1) texts(2) w1(2) texts(1,3) deliveries] by blast
  then obtain pages where pages: "paginate (PAGE_SIZE (d_cfg D)) (join_parts texts) = Some pages"
    "stores_document (d_cfg D) (view (w_s3 w2)) dk pages (int (length (join_parts texts)))" by (auto simp: served_def)
  have t2: "ready t2 (w_db w2)" "job_view jid t2 = Some a2" "up (w_s3 w2)"
    using w2(2) by (simp_all add: job_inv_def job_base_def source_ready_def)
  then obtain j where j: "find_job jid t2 = Some j" "j_status j = Done" using job_view_find fin(1) by fastforce
  have "\<exists>status. fst (get_job_endpoint D (Some key) jid w2) = Inr status \<and> js_status status = ''done''"
    using get_job_endpoint_ok [OF t2(1) j(1) key] j(2) by simp
  moreover have "map (\<lambda>i. map_sum id pr_content (fst (get_page_endpoint D (Some key) dk i w2))) [1..int (length pages)]
      = map Inr pages"
    using get_page_endpoint_run [OF store t2(3) key pages(2)]
    by (intro nth_equalityI) (fastforce simp: page_payload_def)+
  ultimately show ?thesis using pages(1) w1(1) w2(1) by blast
qed


definition keyed_chunks :: settings where
  "keyed_chunks = small_chunks\<lparr>ADMIN_API_KEY := Some ''secret''\<rparr>"

lemma sample_source_ready:
  "source_ready (sample_deps keyed_chunks) s3_view s3_up ''f0'' [37, 65, 66, 67]
     (sample_world (new_client []) (stored_source []))"
  by (simp add: source_ready_def sample_world_def stored_source_def s3_up_def s3_view_def cache_sound_def
      cache_room_def read_file_def cache_size_def list_files_def path_exists_def sample_deps_def
      keyed_chunks_def small_chunks_def default_settings_def)

theorem job_runs_to_completion_witness:
  "let D = sample_deps keyed_chunks; w = sample_world (new_client []) (stored_source []);
       tasks = chunk_tasks ''j'' ''f0:k'' ''f0'' [(0, 2), (2, 3)] False in
   \<exists>pages w1 w2. paginate 5000 (join_parts [[37, 65, 66], [37, 67]]) = Some pages \<and>
    timed (\<lambda>ts. create_job (d_cfg D) ts ''j'' ''f0:k'' ''f0'' ''u'' [(0, 2), (2, 3)] False) w = (Inr (), w1) \<and>
    foreachE [tasks ! 1, (tasks ! 0)\<lparr>t_attempt := 2\<rparr>, tasks ! 1] (handle D) w1 = (Inr (), w2) \<and>
    (\<exists>status. fst (get_job_endpoint D (Some ''secret'') ''j'' w2) = Inr status \<and> js_status status = ''done'') \<and>
    map (\<lambda>i. map_sum id pr_content (fst (get_page_endpoint D (Some ''secret'') ''f0:k'' i w2))) [1..int (length pages)]
      = map Inr pages"
proof -
  let ?D = "sample_deps keyed_chunks" and ?w = "sample_world (new_client []) (stored_source [])"
  let ?tasks = "chunk_tasks ''j'' ''f0:k'' ''f0'' [(0, 2), (2, 3)] False"
  have D: "object_store_up (d_s3 ?D) s3_view s3_up" "ADMIN_API_KEY (d_cfg ?D) = Some ''secret''" "PAGE_SIZE (d_cfg ?D) = 5000"
    using s3c.object_store_up_axioms by (simp_all add: sample_deps_def keyed_chunks_def small_chunks_def default_settings_def)
  have db: "ready no_tables (w_db ?w)" "tables_wf no_tables" "unknown_job ''j'' no_tables"
    using new_client_ready no_tables_wf by (simp_all add: sample_world_def)
  have conv: "\<forall>task \<in> set ?tasks. converts ?D ''f0'' [37, 65, 66, 67] [[37, 65, 66], [37, 67]] task"
    by (simp add: chunk_tasks_def converts_def range_text_def range_input_def sample_deps_def slice_nonneg)
  have "delivers ?tasks [?tasks ! 1, (?tasks ! 0)\<lparr>t_attempt := 2\<rparr>, ?tasks ! 1]"
    by (auto simp: delivers_def chunk_tasks_def)
  from job_runs_to_completion [OF D(1,2) _ _ db _ _ sample_source_ready _ _ conv this, of "''u''"] show ?thesis
    by (simp add: D Let_def hex_name_def encodable_def is_surrogate_def)
qed

end
