(* ===== verification/Producer.thy ===== *)
theory Producer
  imports Api Sources
begin

section \<open>Submitting a document\<close>

text \<open>
  What \<^verbatim>\<open>submit\<close> leaves behind on every outcome: no file, and no message without its rows; and
  the answers of the asynchronous endpoint and the readiness probe.
\<close>

subsection \<open>Submission leaves no file behind\<close>

lemma read_source_parts [simp]: "snd (read_source p w) = w"
  by (simp add: read_source_def split: option.split)

text \<open>Up to the point where a job is queued, only the database and the object store are touched.\<close>

lemma keeps_on_other:
  "keeps (\<lambda>w. w_disk w = d \<and> w_mq w = m) (on_db f)" "keeps (\<lambda>w. w_disk w = d \<and> w_mq w = m) (on_s3 g)"
  "keeps (\<lambda>w. w_disk w = d \<and> w_mq w = m) (read_source p)" "keeps (\<lambda>w. w_disk w = d \<and> w_mq w = m) (lift_result r)"
  by (simp_all add: keeps_def lift_result_def throw_def ret_def split: sum.split)

lemma keeps_const: "keeps P (\<lambda>w. (Inr (f w), w))"
  by (simp add: keeps_def)

lemma keeps_prepare: "keeps (\<lambda>w. w_disk w = d \<and> w_mq w = m) (prepare D use_llm path)"
  unfolding prepare_def Let_def cached_payload_def first_page_payload_def
  by (intro keeps_bindE keeps_on_other keeps_const keeps_ret keeps_case_option)

lemma submit_phases:
  obtains
    (failed) e w' where "submit D url use_llm w = (Inl e, w')" "w_disk w' = w_disk w" "w_mq w' = w_mq w"
  | (cached) p w' where "submit D url use_llm w = (Inr (Cached p), w')" "w_disk w' = w_disk w" "w_mq w' = w_mq w"
  | (queued) x w' where "submit D url use_llm w = queue_job D url use_llm x w'" "w_disk w' = w_disk w" "w_mq w' = w_mq w"
proof -
  let ?t = "w_clock w (w_ticks w)"
  show thesis
  proof (cases rule: download_disk [of "d_cfg D" "d_http_get D" ?t url "w_disk w"])
    case (1 e)
    then have "submit D url use_llm w = (Inl e, w\<lparr>w_ticks := Suc (w_ticks w), w_disk := w_disk w\<rparr>)"
      by (simp add: submit_def bindE_def now_def on_disk_def)
    then show thesis by (rule failed) simp_all
  next
    case (2 p b)
    let ?d = "write_file p b ?t (w_disk w)"
    let ?w1 = "w\<lparr>w_ticks := Suc (w_ticks w), w_disk := ?d\<rparr>"
    obtain r w2 where prep: "prepare D use_llm p ?w1 = (r, w2)" by fastforce
    have w2: "w_disk w2 = ?d" "w_mq w2 = w_mq w"
      using keepsD [OF keeps_prepare, of ?w1 ?d "w_mq w" D use_llm p] prep by simp_all
    let ?w3 = "w2\<lparr>w_disk := w_disk w\<rparr>"
    have fin: "finallyE (prepare D use_llm p) (on_disk (remove_if_exists p)) ?w1 = (r, ?w3)"
      using prep w2(1) 2(2) by (simp add: finallyE_def on_disk_def remove_if_exists_def path_exists_read remove_write_absent)
    have run: "submit D url use_llm w = (case r of
        Inl e \<Rightarrow> (Inl e, ?w3)
      | Inr (Inl payload) \<Rightarrow> (Inr (Cached payload), ?w3)
      | Inr (Inr x) \<Rightarrow> queue_job D url use_llm x ?w3)"
      using 2(1) fin by (simp add: submit_def bindE_def now_def on_disk_def ret_def split: sum.split)
    have w3: "w_disk ?w3 = w_disk w" "w_mq ?w3 = w_mq w" using w2(2) by simp_all
    show thesis
    proof (cases r)
      case (Inl e)
      then show thesis using failed run w3 by simp
    next
      case (Inr y)
      then show thesis using cached queued run w3 by (cases y) simp_all
    qed
  qed
qed

lemma queue_job_disk: "w_disk (snd (queue_job D url use_llm x w)) = w_disk w"
  by (simp add: queue_job_def Let_def io_simps new_job_id_def timed_def now_def on_db_def on_mq_def
      split: prod.split sum.split)

text \<open>
  C28. However a submission ends, whatever the URL, the database, the object store and the broker
  do, the local files are exactly as before: the downloaded file never stays behind.
\<close>

theorem submit_leaves_no_file: "w_disk (snd (submit D url use_llm w)) = w_disk w"
  by (cases rule: submit_phases [of D url use_llm w]) (simp_all add: queue_job_disk)

subsection \<open>Rows before messages\<close>

text \<open>The rows a task refers to.\<close>

definition has_rows :: "tables \<Rightarrow> chunk_task \<Rightarrow> bool" where
  "has_rows t task \<longleftrightarrow>
     (\<exists>j \<in> set (jobs t). j_job_id j = t_job_id task \<and> j_doc_key j = t_doc_key task \<and>
        j_file_hash j = t_file_hash task \<and> j_total_chunks j = t_total_chunks task) \<and>
     (\<exists>ck \<in> set (job_chunks t). c_job_id ck = t_job_id task \<and> c_chunk_index ck = t_chunk_index task \<and>
        c_start_page ck = t_start_page task \<and> c_end_page ck = t_end_page task)"

lemma created_tasks_have_rows:
  assumes "create_job cfg ts jid dk fh url ranges llm c = (Inr u, c')" "task \<in> set (chunk_tasks jid dk fh ranges llm)"
  shows "has_rows (db_data c') task"
proof -
  obtain d where d: "apply_stmts (create_stmts ts jid dk fh url ranges llm) d = Inr (db_data c')"
    using create_job_rows [OF assms(1)] by blast
  obtain index start stop where chunk: "(index, start, stop) \<in> set (py_enumerate 0 ranges)"
    and task: "task = \<lparr>t_job_id = jid, t_chunk_index = index, t_doc_key = dk, t_file_hash = fh, t_start_page = start,
        t_end_page = stop, t_total_chunks = int (length ranges), t_use_llm = llm, t_attempt = 1\<rparr>"
    using assms(2) by (auto simp: chunk_tasks_def)
  have "\<exists>j \<in> set (jobs (db_data c')). j_job_id j = jid \<and> j_doc_key j = dk \<and> j_file_hash j = fh \<and> j_total_chunks j = int (length ranges)"
    using create_stmts_rows(1) [OF d] by (rule bexI [rotated]) (simp add: new_job_row_def)
  moreover obtain n where "new_chunk_row ts jid (index, start, stop) n \<in> set (job_chunks (db_data c'))"
    using create_stmts_rows(2) [OF d chunk] by blast
  then have "\<exists>ck \<in> set (job_chunks (db_data c')). c_job_id ck = jid \<and> c_chunk_index ck = index \<and> c_start_page ck = start \<and> c_end_page ck = stop"
    by (rule bexI [rotated]) (simp add: new_chunk_row_def)
  ultimately show ?thesis by (simp add: has_rows_def task)
qed


text \<open>
  C12. State first, then messages: whatever fails during a submission, every message it
  has sent is a task on the work queue whose job row and chunk row are committed.
\<close>

theorem messages_have_rows:
  assumes "message_broker (d_amqp D) sent" "submit D url use_llm w = (r, w')"
  shows "\<exists>new. sent (broker (w_mq w')) = sent (broker (w_mq w)) @ new \<and>
    (\<forall>(exchange, key, body) \<in> set new. exchange = RABBITMQ_EXCHANGE (d_cfg D) \<and> key = RABBITMQ_QUEUE (d_cfg D) \<and>
       (\<exists>task. from_bytes body = Inr task \<and> has_rows (db_data (w_db w')) task))"
proof (cases rule: submit_phases [of D url use_llm w])
  case (queued x w1)
  obtain fh dk ranges where x: "x = (fh, dk, ranges)" by (cases x) auto
  let ?jid = "d_uuid D (w_uuids w1)" and ?w2 = "w1\<lparr>w_uuids := w_uuids w1 + 1\<rparr>"
  let ?ts = "w_clock w1 (w_ticks w1)" and ?tasks = "chunk_tasks (d_uuid D (w_uuids w1)) dk fh ranges use_llm"
  obtain rc c where create: "create_job (d_cfg D) ?ts ?jid dk fh url ranges use_llm (w_db w1) = (rc, c)" by fastforce
  then have timed: "timed (\<lambda>ts. create_job (d_cfg D) ts ?jid dk fh url ranges use_llm) ?w2
      = (rc, ?w2\<lparr>w_ticks := w_ticks w1 + 1, w_db := c\<rparr>)"
    using timed_run [of "\<lambda>ts. create_job (d_cfg D) ts ?jid dk fh url ranges use_llm" ?w2] by simp
  show ?thesis
  proof (cases rc)
    case (Inl e)
    then have "w_mq w' = w_mq w" using assms(2) queued timed x
      by (auto simp: queue_job_def Let_def bindE_def new_job_id_def thenE_raise)
    then show ?thesis by auto
  next
    case (Inr u)
    obtain rp m where pub: "publish (d_cfg D) (d_amqp D) ?tasks (w_mq w) = (rp, m)" by fastforce
    have w': "w_mq w' = m" "w_db w' = c"
      using assms(2) queued timed x Inr pub
      by (auto simp: queue_job_def Let_def bindE_def new_job_id_def thenE_run on_mq_def thenE_def ret_def split: sum.splits)
    obtain bodies where b: "smap to_bytes ?tasks = Inr bodies" "map from_bytes bodies = map Inr ?tasks"
      using to_bytes_all by blast
    then have "publish_raw (d_cfg D) (d_amqp D) (RABBITMQ_EXCHANGE (d_cfg D)) (RABBITMQ_QUEUE (d_cfg D)) bodies (w_mq w) = (rp, m)"
      using pub by (simp add: publish_def lift_result_def)
    from message_broker.publish_raw_sent [OF assms(1) this] obtain i j where
      sent: "sent (broker m) = sent (broker (w_mq w)) @
        (take i (map (\<lambda>b. (RABBITMQ_EXCHANGE (d_cfg D), RABBITMQ_QUEUE (d_cfg D), b)) bodies) @
         take j (map (\<lambda>b. (RABBITMQ_EXCHANGE (d_cfg D), RABBITMQ_QUEUE (d_cfg D), b)) bodies))" by auto
    have "\<exists>task. from_bytes body = Inr task \<and> has_rows (db_data c) task" if "body \<in> set bodies" for body
    proof -
      have "from_bytes body \<in> set (map Inr ?tasks)" using that unfolding b(2) [symmetric] by simp
      then show ?thesis using created_tasks_have_rows [OF create [unfolded Inr]] by auto
    qed
    then show ?thesis using sent w' by (auto dest!: in_set_takeD)
  qed
qed (use assms(2) in auto)


theorem messages_have_rows_witness:
  "let (r, w') = submit (sample_deps small_chunks) ''https://h/a.pdf'' False (sample_world (new_client []) s3_fresh) in
   \<exists>new. b_sent (r_state (broker (w_mq w'))) = [] @ new \<and>
    (\<forall>(exchange, key, body) \<in> set new. exchange = ''markitdown'' \<and> key = ''markitdown.chunks'' \<and>
       (\<exists>task. from_bytes body = Inr task \<and> has_rows (db_data (w_db w')) task))"
proof -
  obtain r w' where run: "submit (sample_deps small_chunks) ''https://h/a.pdf'' False (sample_world (new_client []) s3_fresh) = (r, w')"
    by fastforce
  have "message_broker (d_amqp (sample_deps small_chunks)) (\<lambda>r. b_sent (r_state r))"
    using ref.message_broker_axioms by (simp add: sample_deps_def)
  from messages_have_rows [OF this run] show ?thesis
    unfolding run by (simp add: sample_deps_def sample_world_def small_chunks_def default_settings_def)
qed

subsection \<open>Answers\<close>

definition names_file :: "convert_request option \<Rightarrow> bool" where
  "names_file request \<longleftrightarrow> (\<exists>c cs. Option.bind request rq_file = Some (c # cs))"

lemma submit_disk: "submit D url use_llm w = (r, w') \<Longrightarrow> w_disk w' = w_disk w"
  using queue_job_disk [of D url use_llm]
  by (cases rule: submit_phases [of D url use_llm w]) (simp, simp, metis snd_conv)

text \<open>Why \<^verbatim>\<open>POST /async/convert\<close> answered with an error, and in what state it left the world.\<close>

inductive refusal ::
  "('p, 'q, 'o) deps \<Rightarrow> string option \<Rightarrow> convert_request option \<Rightarrow> ('q, 'o) world \<Rightarrow> int \<Rightarrow> string \<Rightarrow> ('q, 'o) world \<Rightarrow> bool"
  for D key request w where
  bad_key: "verify_api_key (d_cfg D) key = Inl (HTTPException code msg) \<Longrightarrow> code \<in> {401, 500} \<Longrightarrow>
    refusal D key request w code msg w"
| no_file: "\<not> names_file request \<Longrightarrow> refusal D key request w 422 msg w"
| failed: "Option.bind request rq_file = Some url \<Longrightarrow> submit D url use_llm w = (Inl cause, w') \<Longrightarrow> w_disk w' = w_disk w \<Longrightarrow>
    refusal D key request w 400 (''Error processing URL: '' @ exn_str cause) w'"

lemma submit_request_shapes:
  "(\<exists>code detail w'. submit_request D request w = (Inl (HTTPException code detail), w') \<and> refusal D key request w code detail w') \<or>
   (\<exists>res w'. submit_request D request w = (Inr res, w') \<and> w_disk w' = w_disk w)"
proof (cases "names_file request")
  case True
  then obtain c cs where url: "Option.bind request rq_file = Some (c # cs)" by (auto simp: names_file_def)
  let ?llm = "case Option.bind request rq_use_llm of None \<Rightarrow> CONVERT_USE_LLM (d_cfg D) | Some b \<Rightarrow> b"
  obtain r w' where sub: "submit D (c # cs) ?llm w = (r, w')" by fastforce
  note disk = submit_disk [OF sub]
  show ?thesis
  proof (cases r)
    case (Inl e)
    with sub url show ?thesis using refusal.failed [OF url sub [unfolded Inl] disk]
      by (auto simp: submit_request_def catch_def throw_def Let_def)
  next
    case (Inr res)
    then show ?thesis using sub disk url by (auto simp: submit_request_def catch_def Let_def)
  qed
next
  case False
  then have "\<exists>detail. submit_request D request w = (Inl (HTTPException 422 detail), w)"
    by (cases "Option.bind request rq_file") (auto simp: submit_request_def names_file_def throw_def neq_Nil_conv split: list.split)
  then show ?thesis using refusal.no_file [OF False] by blast
qed

lemma async_convert_shapes:
  "case async_convert_endpoint D key request w of
      (Inr (code, Inl page), w') \<Rightarrow> code = 200 \<and> w_disk w' = w_disk w
    | (Inr (code, Inr acc), w') \<Rightarrow> code = 202 \<and> ja_status acc = ''queued'' \<and> w_disk w' = w_disk w
    | (Inl e, w') \<Rightarrow> \<exists>code detail. e = HTTPException code detail \<and> refusal D key request w code detail w'"
proof (cases "verify_api_key (d_cfg D) key")
  case (Inl e)
  then obtain code detail where "e = HTTPException code detail" "code \<in> {401, 500}"
    by (auto simp: verify_api_key_def split: option.splits if_splits)
  then show ?thesis using Inl refusal.bad_key [of D key code detail request w]
    by (simp add: async_convert_endpoint_def authorized_def throw_def)
next
  case (Inr k)
  then have run: "async_convert_endpoint D key request = bindE (submit_request D request) (\<lambda>res.
      case res of Cached payload \<Rightarrow> ret (200, Inl payload)
      | Submitted jid dk n \<Rightarrow>
          ret (202, Inr \<lparr>ja_job_id = jid, ja_status = ''queued'', ja_doc_key = dk, ja_total_chunks = n\<rparr>))"
    by (simp add: async_convert_endpoint_def authorized_def)
  show ?thesis unfolding run using submit_request_shapes [of D request w key]
    by (auto simp: io_run io_raise ret_def split: submit_result.splits)
qed

text \<open>Each health check reports whether its dependency answered.\<close>

lemma health_checks:
  "\<exists>c. db_health E db = (Inr (\<exists>rows c'. query E select_one db = (Inr rows, c')), c)"
  "\<exists>o'. storage_health S ob = (Inr (\<exists>o'. head_bucket S ob = (Inr (), o')), o')"
  "\<exists>m. mq_health cfg Q mq = (Inr (\<exists>m'. connect cfg Q mq = (Inr (), m') \<and> is_open Q (broker m')), m)"
  by (auto simp: db_health_def storage_health_def mq_health_def io_simps split: prod.splits sum.splits)

text \<open>
  C26. Whatever fails behind \<^verbatim>\<open>POST /async/convert\<close>, it answers 200 with a page, 202 with a queued
  job, or one of four errors: 401 or 500 when the key check refused, 422 when no file was named,
  and in these three cases nothing has happened; 400 when \<^verbatim>\<open>submit\<close> raised, whatever it raised,
  with the message of that exception. No other exception gets out, and nothing stays on the disk.
  \<^verbatim>\<open>GET /readyz\<close> never raises; it reports the database up when \<^verbatim>\<open>SELECT 1\<close> returned, the storage when
  \<^verbatim>\<open>head_bucket\<close> did, the queue when the connection is open after \<^verbatim>\<open>connect\<close>, and answers 200 exactly
  when all three are up, else 503.
\<close>

theorem async_convert_and_readyz_answers:
  shows "(case async_convert_endpoint D key request w of
      (Inr (code, Inl page), w') \<Rightarrow> code = 200 \<and> w_disk w' = w_disk w
    | (Inr (code, Inr acc), w') \<Rightarrow> code = 202 \<and> ja_status acc = ''queued'' \<and> w_disk w' = w_disk w
    | (Inl e, w') \<Rightarrow> \<exists>code detail. e = HTTPException code detail \<and> refusal D key request w code detail w')
    \<and> (\<exists>code rd w'. readyz D w = (Inr (code, rd), w') \<and>
        code = (if rd_database rd \<and> rd_storage rd \<and> rd_queue rd then 200 else 503) \<and>
        (rd_database rd \<longleftrightarrow> (\<exists>rows c. query (job_env (d_cfg D)) select_one (w_db w) = (Inr rows, c))) \<and>
        (rd_storage rd \<longleftrightarrow> (\<exists>o'. head_bucket (d_s3 D) (w_s3 w) = (Inr (), o'))) \<and>
        (rd_queue rd \<longleftrightarrow> (\<exists>m. connect (d_cfg D) (d_amqp D) (w_mq w) = (Inr (), m) \<and> is_open (d_amqp D) (broker m))))"
proof (rule conjI [OF async_convert_shapes])
  obtain c where c: "db_health (job_env (d_cfg D)) (w_db w)
      = (Inr (\<exists>rows c. query (job_env (d_cfg D)) select_one (w_db w) = (Inr rows, c)), c)"
    using health_checks(1) ..
  obtain ob where ob: "storage_health (d_s3 D) (w_s3 w) = (Inr (\<exists>o'. head_bucket (d_s3 D) (w_s3 w) = (Inr (), o')), ob)"
    using health_checks(2) ..
  obtain m where m: "mq_health (d_cfg D) (d_amqp D) (w_mq w)
      = (Inr (\<exists>m. connect (d_cfg D) (d_amqp D) (w_mq w) = (Inr (), m) \<and> is_open (d_amqp D) (broker m)), m)"
    using health_checks(3) ..
  show "\<exists>code rd w'. readyz D w = (Inr (code, rd), w') \<and>
      code = (if rd_database rd \<and> rd_storage rd \<and> rd_queue rd then 200 else 503) \<and>
      (rd_database rd \<longleftrightarrow> (\<exists>rows c. query (job_env (d_cfg D)) select_one (w_db w) = (Inr rows, c))) \<and>
      (rd_storage rd \<longleftrightarrow> (\<exists>o'. head_bucket (d_s3 D) (w_s3 w) = (Inr (), o'))) \<and>
      (rd_queue rd \<longleftrightarrow> (\<exists>m. connect (d_cfg D) (d_amqp D) (w_mq w) = (Inr (), m) \<and> is_open (d_amqp D) (broker m)))"
    by (simp add: readyz_def on_db_def on_s3_def on_mq_def Let_def bindE_def ret_def c ob m)
qed

theorem async_convert_and_readyz_answers_witness:
  "let D = sample_deps default_settings; w = sample_world (new_client []) (\<lparr>r_state = r_state s3_fresh, r_faults = [Refuse (OSError ''down'')]\<rparr>) in
   (\<exists>detail. refusal D (Some ''k'') None w 500 detail w) \<and>
   (\<exists>rd w'. readyz D w = (Inr (503, rd), w') \<and> \<not> rd_storage rd)"
proof -
  let ?D = "sample_deps default_settings" and
    ?w = "sample_world (new_client []) (\<lparr>r_state = r_state s3_fresh, r_faults = [Refuse (OSError ''down'')]\<rparr>)"
  have key: "\<exists>detail. verify_api_key (d_cfg ?D) (Some ''k'') = Inl (HTTPException 500 detail)"
    by (simp add: sample_deps_def verify_api_key_def default_settings_def)
  then obtain detail where "async_convert_endpoint ?D (Some ''k'') None ?w = (Inl (HTTPException 500 detail), ?w)"
    by (auto simp: async_convert_endpoint_def authorized_def throw_def)
  moreover have "\<nexists>o'. head_bucket (d_s3 ?D) (w_s3 ?w) = (Inr (), o')"
    by (simp add: sample_deps_def sample_world_def s3_client_def s3_call_def call_def)
  ultimately show ?thesis unfolding Let_def
    using async_convert_and_readyz_answers [of ?D "Some ''k''" None ?w] by auto
qed

end
