(* ===== verification/Service.thy ===== *)
theory Service
  imports Pipeline Producer
begin

section \<open>The service as a whole\<close>

text \<open>
  A submission on healthy services, the synchronous endpoint from request to answer, and the
  answer to a repeated submission.
\<close>

subsection \<open>A submission on healthy services\<close>

definition source_hash :: "('p, 'q, 'o) deps \<Rightarrow> bytes \<Rightarrow> string" where
  "source_hash D src = hash_file (d_sha256 D) src"

definition source_doc_key :: "('p, 'q, 'o) deps \<Rightarrow> bytes \<Rightarrow> bool \<Rightarrow> string" where
  "source_doc_key D src use_llm = make_doc_key (d_cfg D) (d_version D) (d_sha256 D) (source_hash D src) use_llm"

definition source_pages :: "('p, 'q, 'o) deps \<Rightarrow> bytes \<Rightarrow> int option" where
  "source_pages D src = (case d_read_pdf D src of Inl e \<Rightarrow> None | Inr ps \<Rightarrow> Some (int (length ps)))"

lemma put_source_up:
  assumes store: "object_store_up S view up" and up: "up s" and src: "view s (source_key fh) \<in> {None, Some src}"
  shows "\<exists>s'. put_source S fh src s = (Inr (source_key fh), s') \<and> up s' \<and> view s' = (view s)(source_key fh \<mapsto> src)"
proof (cases "view s (source_key fh)")
  case None
  note os = object_store_up.axioms(1) [OF store]
  obtain c m s1 where s1: "head_object S (source_key fh) s = (Inl (ClientError c m), s1)" "up s1"
    using object_store_up.up_head_missing [OF store up None] by blast
  obtain s2 where s2: "put_object S (source_key fh) src s1 = (Inr (), s2)" "up s2"
    using object_store_up.up_put [OF store s1(2)] by blast
  have "view s1 = view s" using object_store.head_view [OF os, of "source_key fh" s] s1(1) by simp
  then have "view s2 = (view s)(source_key fh \<mapsto> src)" using object_store.put_ok [OF os s2(1)] by simp
  moreover have "object_exists S (source_key fh) s = (Inr False, s1)"
    using s1(1) by (simp add: object_exists_def try_else_raise is_client_error_def ret_def)
  ultimately show ?thesis using s2 by (simp add: put_source_def Let_def bindE_def thenE_def ret_def)
next
  case (Some b)
  note os = object_store_up.axioms(1) [OF store]
  obtain s1 where s1: "head_object S (source_key fh) s = (Inr (), s1)" "up s1"
    using object_store_up.up_head [OF store up, of "source_key fh"] Some by auto
  have "view s1 = view s" using object_store.head_view [OF os, of "source_key fh" s] s1(1) by simp
  moreover have "object_exists S (source_key fh) s = (Inr True, s1)"
    using s1(1) by (simp add: object_exists_def try_else_run ret_def)
  moreover have "b = src" using Some src by simp
  ultimately show ?thesis using s1(2) Some
    by (auto simp: put_source_def Let_def bindE_run ret_def fun_upd_idem)
qed

lemma cached_payload_none:
  assumes "ready t (w_db w)" "filter (\<lambda>r. d_doc_key r = dk) (documents t) = []"
  shows "\<exists>c'. cached_payload D dk w = (Inr None, w\<lparr>w_db := c'\<rparr>) \<and> ready t c'"
proof -
  obtain c' where "find_cached_document (d_cfg D) dk (w_db w) = (Inr None, c')" "ready t c'"
    using find_cached_ready [OF assms(1), of "d_cfg D" dk] assms(2) by auto
  then show ?thesis by (auto simp: cached_payload_def bindE_def on_db_def ret_def)
qed

lemma first_page_ok:
  assumes store: "object_store_up (d_s3 D) view up" and up: "up (w_s3 w)"
    and doc: "stores_document (d_cfg D) (view (w_s3 w)) dk pages len" and ne: "pages \<noteq> []"
  shows "\<exists>s1 s2. get_manifest (d_s3 D) dk (w_s3 w) = (Inr (Some (doc_manifest (d_cfg D) dk pages len)), s1) \<and>
    first_page_payload D dk m (w\<lparr>w_s3 := s1\<rparr>) = (Inr (Some (page_payload dk 1 m (hd pages))), w\<lparr>w_s3 := s2\<rparr>) \<and>
    up s2 \<and> view s2 = view (w_s3 w)"
proof -
  obtain b where b: "view (w_s3 w) (manifest_key dk) = Some b" "decode_manifest b = Inr (doc_manifest (d_cfg D) dk pages len)"
    using doc by (auto simp: stores_document_def)
  obtain s1 where s1: "get_manifest (d_s3 D) dk (w_s3 w) = (Inr (Some (doc_manifest (d_cfg D) dk pages len)), s1)"
    "up s1" "view s1 = view (w_s3 w)"
    using object_store_up.up_get_manifest [OF store up b] by blast
  obtain p where p: "utf8_encode (hd pages) = Inr p" "view s1 (page_key dk 1) = Some p"
    using doc ne s1(3) by (auto simp: stores_document_def hd_conv_nth)
  obtain s2 where "get_page (d_s3 D) dk 1 s1 = (Inr (Some (hd pages)), s2)" "up s2" "view s2 = view s1"
    using object_store_up.up_get_page [OF store s1(2) p(2)] utf8_round_trip [OF p(1)] by blast
  with s1 show ?thesis
    by (intro exI [of _ s1] exI [of _ s2]) (simp add: first_page_payload_def bindE_def on_s3_def ret_def)
qed

lemma prepare_new:
  assumes store: "object_store_up (d_s3 D) view up" and up: "up (w_s3 w)"
    and db: "ready t (w_db w)" "filter (\<lambda>r. d_doc_key r = source_doc_key D src use_llm) (documents t) = []"
    and src: "read_file path (w_disk w) = Some src" "view (w_s3 w) (source_key (source_hash D src)) \<in> {None, Some src}"
    and plan: "plan_chunks (source_pages D src) (PAGES_PER_CHUNK (d_cfg D)) (MIN_PAGES_FOR_PARALLEL (d_cfg D)) = Inr ranges"
  shows "\<exists>c' s'. prepare D use_llm path w
      = (Inr (Inr (source_hash D src, source_doc_key D src use_llm, ranges)), w\<lparr>w_db := c', w_s3 := s'\<rparr>) \<and>
    ready t c' \<and> up s' \<and> view s' = (view (w_s3 w))(source_key (source_hash D src) \<mapsto> src)"
proof -
  let ?fh = "source_hash D src" and ?dk = "source_doc_key D src use_llm"
  obtain c' where c': "cached_payload D ?dk w = (Inr None, w\<lparr>w_db := c'\<rparr>)" "ready t c'"
    using cached_payload_none [OF db, of D] by blast
  obtain s' where s': "put_source (d_s3 D) ?fh src (w_s3 w) = (Inr (source_key ?fh), s')" "up s'"
    "view s' = (view (w_s3 w))(source_key ?fh \<mapsto> src)"
    using put_source_up [OF store up src(2)] by blast
  have "prepare D use_llm path w = (Inr (Inr (?fh, ?dk, ranges)), w\<lparr>w_db := c', w_s3 := s'\<rparr>)"
    using src(1) c'(1) s'(1) plan
    by (simp add: prepare_def Let_def source_hash_def [symmetric] source_doc_key_def [symmetric] bindE_def read_source_def
        page_count_def source_pages_def [symmetric] lift_result_def ret_def on_s3_def)
  with c'(2) s' show ?thesis by blast
qed


text \<open>The URL serves \<open>src\<close>, whole and within the size limit.\<close>

definition fetchable :: "('p, 'q, 'o) deps \<Rightarrow> string \<Rightarrow> bytes \<Rightarrow> bool" where
  "fetchable D url src \<longleftrightarrow>
     (case d_http_get D url of
        Inl e \<Rightarrow> False
      | Inr resp \<Rightarrow> h_status resp = 200 \<and> h_broken resp = None \<and> concat (h_pieces resp) = src \<and>
          int (length src) \<le> MAX_DOWNLOAD_BYTES (d_cfg D))"

lemma submit_prepared:
  assumes "fetchable D url src"
    and prep: "\<And>path w1. read_file path (w_disk w1) = Some src \<Longrightarrow> w_db w1 = w_db w \<Longrightarrow> w_s3 w1 = w_s3 w \<Longrightarrow>
      \<exists>c' s'. prepare D use_llm path w1 = (Inr r, w1\<lparr>w_db := c', w_s3 := s'\<rparr>) \<and> P c' s'"
  shows "\<exists>c' s'. submit D url use_llm w = (case r of
      Inl payload \<Rightarrow> ret (Cached payload)
    | Inr x \<Rightarrow> queue_job D url use_llm x) (w\<lparr>w_ticks := w_ticks w + 1, w_db := c', w_s3 := s'\<rparr>) \<and> P c' s'"
proof -
  let ?ts = "w_clock w (w_ticks w)"
  obtain p where p: "download (d_cfg D) (d_http_get D) ?ts url (w_disk w) = (Inr p, write_file p src ?ts (w_disk w))"
    "read_file p (w_disk w) = None"
    using assms(1) download_ok [of "d_http_get D" url _ "d_cfg D" ?ts "w_disk w"]
    by (auto simp: fetchable_def split: sum.splits)
  let ?w1 = "w\<lparr>w_ticks := w_ticks w + 1, w_disk := write_file p src ?ts (w_disk w)\<rparr>"
  have "read_file p (w_disk ?w1) = Some src" by simp
  from prep [OF this] obtain c' s' where c: "prepare D use_llm p ?w1 = (Inr r, ?w1\<lparr>w_db := c', w_s3 := s'\<rparr>)" "P c' s'" by auto
  let ?w3 = "w\<lparr>w_ticks := w_ticks w + 1, w_db := c', w_s3 := s'\<rparr>"
  have "finallyE (prepare D use_llm p) (on_disk (remove_if_exists p)) ?w1 = (Inr r, ?w3)"
    using c(1) p(2) by (cases w) (simp add: finallyE_def on_disk_def remove_if_exists_def path_exists_read remove_write_absent)
  then have "submit D url use_llm w = (case r of
      Inl payload \<Rightarrow> ret (Cached payload) | Inr x \<Rightarrow> queue_job D url use_llm x) ?w3"
    using p(1) by (simp add: submit_def bindE_def now_def on_disk_def)
  with c(2) show ?thesis by blast
qed

text \<open>A new document is queued as a job in its initial state.\<close>

lemma submit_new:
  assumes store: "object_store_up (d_s3 D) view up" and up: "up (w_s3 w)"
    and db: "ready t (w_db w)" "tables_wf t" "unknown_job (d_uuid D (w_uuids w)) t"
      "filter (\<lambda>r. d_doc_key r = source_doc_key D src use_llm) (documents t) = []"
    and src: "fetchable D url src" "view (w_s3 w) (source_key (source_hash D src)) \<in> {None, Some src}"
    and plan: "plan_chunks (source_pages D src) (PAGES_PER_CHUNK (d_cfg D)) (MIN_PAGES_FOR_PARALLEL (d_cfg D)) = Inr ranges"
      "ranges \<noteq> []" "length texts = length ranges"
    and cache: "cache_sound (d_cfg D) (view (w_s3 w)) (w_disk w)" "cache_room (d_cfg D) (source_hash D src) src (w_disk w)"
    and mq: "fst (publish (d_cfg D) (d_amqp D) (chunk_tasks (d_uuid D (w_uuids w)) (source_doc_key D src use_llm)
        (source_hash D src) ranges use_llm) (w_mq w)) = Inr ()"
  shows "\<exists>w' t'. submit D url use_llm w = (Inr (Submitted (d_uuid D (w_uuids w)) (source_doc_key D src use_llm) (int (length ranges))), w') \<and>
    job_inv D view up (d_uuid D (w_uuids w)) (source_doc_key D src use_llm) (source_hash D src) src texts {} t' (new_job_abs (length texts)) w'"
proof -
  let ?fh = "source_hash D src" and ?dk = "source_doc_key D src use_llm" and ?jid = "d_uuid D (w_uuids w)"
  let ?P = "\<lambda>c' s'. ready t c' \<and> up s' \<and> view s' = (view (w_s3 w))(source_key ?fh \<mapsto> src)"
  have "\<exists>c' s'. prepare D use_llm path w1 = (Inr (Inr (?fh, ?dk, ranges)), w1\<lparr>w_db := c', w_s3 := s'\<rparr>) \<and> ?P c' s'"
    if "read_file path (w_disk w1) = Some src" "w_db w1 = w_db w" "w_s3 w1 = w_s3 w" for path w1
    using prepare_new [OF store, of w1 t src use_llm path ranges] up db(1,4) src(2) plan(1) that by simp
  note prepared = submit_prepared [OF src(1), where w = w and r = "Inr (?fh, ?dk, ranges)" and P = ?P, OF this, unfolded sum.case]
  obtain c' s' where
    run: "submit D url use_llm w = queue_job D url use_llm (?fh, ?dk, ranges) (w\<lparr>w_ticks := w_ticks w + 1, w_db := c', w_s3 := s'\<rparr>)"
    and P: "?P c' s'" using prepared by blast
  let ?w = "w\<lparr>w_ticks := w_ticks w + 1, w_db := c', w_s3 := s', w_uuids := w_uuids w + 1\<rparr>"
  have "cache_sound (d_cfg D) (view s') (w_disk w)"
    using cache(1) P src(2) by (fastforce simp: cache_sound_def source_key_def)
  then have sr: "source_ready D view up ?fh src ?w" using P cache(2) by (simp add: source_ready_def)
  obtain w1 t1 where w1: "timed (\<lambda>ts. create_job (d_cfg D) ts ?jid ?dk ?fh url ranges use_llm) ?w = (Inr (), w1)"
    "job_inv D view up ?jid ?dk ?fh src texts {} t1 (new_job_abs (length texts)) w1"
    using job_inv_new [OF _ db(2,3) plan(2,3) sr, of ?dk url use_llm] P by auto
  have "w_mq w1 = w_mq w" using w1(1) on_parts(15) [of "\<lambda>ts. create_job (d_cfg D) ts ?jid ?dk ?fh url ranges use_llm" ?w] by simp
  with mq obtain m where "on_mq (publish (d_cfg D) (d_amqp D) (chunk_tasks ?jid ?dk ?fh ranges use_llm)) w1 = (Inr (), w1\<lparr>w_mq := m\<rparr>)"
    by (cases "publish (d_cfg D) (d_amqp D) (chunk_tasks ?jid ?dk ?fh ranges use_llm) (w_mq w)") (auto simp: on_mq_def)
  with w1(1) run have "submit D url use_llm w = (Inr (Submitted ?jid ?dk (int (length ranges))), w1\<lparr>w_mq := m\<rparr>)"
    by (simp add: queue_job_def Let_def bindE_def new_job_id_def thenE_def ret_def)
  moreover have "job_inv D view up ?jid ?dk ?fh src texts {} t1 (new_job_abs (length texts)) (w1\<lparr>w_mq := m\<rparr>)"
    using w1(2) by (simp add: job_inv_frame [of "w1\<lparr>w_mq := m\<rparr>" w1])
  ultimately show ?thesis by blast
qed


subsection \<open>The synchronous endpoint\<close>

lemma completed_job_ok:
  assumes "object_store_up (d_s3 D) view up" "up (w_s3 w)" "j_status j = Done"
    and "stores_document (d_cfg D) (view (w_s3 w)) (j_doc_key j) pages len" "pages \<noteq> []"
  shows "\<exists>w'. completed_job_payload D j w
    = (Inr (page_payload (j_doc_key j) 1 (doc_manifest (d_cfg D) (j_doc_key j) pages len) (hd pages)), w')"
proof -
  let ?m = "doc_manifest (d_cfg D) (j_doc_key j) pages len"
  obtain s1 s2 where "get_manifest (d_s3 D) (j_doc_key j) (w_s3 w) = (Inr (Some ?m), s1)"
    "first_page_payload D (j_doc_key j) ?m (w\<lparr>w_s3 := s1\<rparr>) = (Inr (Some (page_payload (j_doc_key j) 1 ?m (hd pages))), w\<lparr>w_s3 := s2\<rparr>)"
    using first_page_ok [OF assms(1,2,4,5), of ?m] by blast
  then show ?thesis using assms(3) by (simp add: completed_job_payload_def bindE_def on_s3_def ret_def)
qed

lemma wait_for_done:
  assumes inv: "job_inv D view up jid dk fh src texts seen t a w" and open_job: "a_status a \<noteq> Done"
    and elapse: "\<And>c'. ready t c' \<Longrightarrow> \<exists>t' a'. job_inv D view up jid dk fh src texts seen' t' a' (elapse (w\<lparr>w_db := c'\<rparr>)) \<and> a_status a' = Done"
    and polls: "2 \<le> polls"
  shows "\<exists>j w'. wait_for_job polls D elapse jid w = (Inr (Some j), w') \<and> j_status j = Done \<and> j_doc_key j = dk \<and>
    (\<exists>t' a'. job_inv D view up jid dk fh src texts seen' t' a' w' \<and> a_status a' = Done)"
proof -
  obtain n where n: "polls = Suc (Suc n)" using polls by (metis Suc_le_D numeral_2_eq_2 Suc_le_mono)
  have rd: "ready t (w_db w)" "job_view jid t = Some a" "a_status a \<noteq> Failed" using inv open_job by (simp_all add: job_inv_def job_base_def)
  then obtain j where j: "find_job jid t = Some j" "\<not> terminal (j_status j)" using job_view_find open_job by fastforce
  obtain c1 where c1: "on_db (get_job (d_cfg D) jid) w = (Inr (Some j), w\<lparr>w_db := c1\<rparr>)" "ready t c1"
    using get_job_world [OF rd(1), of "d_cfg D" jid] j(1) by auto
  obtain t' a' where inv': "job_inv D view up jid dk fh src texts seen' t' a' (elapse (w\<lparr>w_db := c1\<rparr>))" "a_status a' = Done"
    using elapse [OF c1(2)] by blast
  let ?w2 = "elapse (w\<lparr>w_db := c1\<rparr>)"
  have rd': "ready t' (w_db ?w2)" "job_view jid t' = Some a'" "job_static jid t' = Some (dk, fh, int (length texts))"
    using inv'(1) by (simp_all add: job_inv_def job_base_def)
  then obtain j' where j': "find_job jid t' = Some j'" "j_status j' = Done" using job_view_find inv'(2) by fastforce
  have "j_doc_key j' = dk" using rd'(3) j'(1) by (simp add: job_static_def)
  obtain c2 where c2: "on_db (get_job (d_cfg D) jid) ?w2 = (Inr (Some j'), ?w2\<lparr>w_db := c2\<rparr>)" "ready t' c2"
    using get_job_world [OF rd'(1), of "d_cfg D" jid] j'(1) by auto
  have "wait_for_job polls D elapse jid w = (Inr (Some j'), ?w2\<lparr>w_db := c2\<rparr>)"
    using c1(1) c2(1) j(2) j'(2) by (simp add: n bindE_def thenE_def ret_def)
  with j'(2) \<open>j_doc_key j' = dk\<close> job_inv_w_db [OF inv'(1) c2(2)] inv'(2) show ?thesis by blast
qed

text \<open>
  C2. End to end: with the services up, a source that can be downloaded, split and converted, and
  a worker that handles the published tasks in any order and with any repetition while the
  request waits, \<^verbatim>\<open>POST /convert\<close> answers with the first page of the chunk texts joined in
  page order, under the document key of the source.
\<close>

theorem convert_returns_first_page:
  fixes D :: "('p, 'q, 'o) deps" and w :: "('q, 'o) world"
  defines "cfg \<equiv> d_cfg D" and "jid \<equiv> d_uuid D (w_uuids w)"
  assumes store: "object_store_up (d_s3 D) view up" and up: "up (w_s3 w)"
    and key: "ADMIN_API_KEY cfg = Some key" "key \<noteq> []" and size: "1 \<le> PAGE_SIZE cfg"
    and db: "ready t (w_db w)" "tables_wf t" "unknown_job jid t"
      "filter (\<lambda>r. d_doc_key r = source_doc_key D src llm) (documents t) = []"
    and src: "url \<noteq> []" "fetchable D url src" "hex_name (source_hash D src)"
      "view (w_s3 w) (source_key (source_hash D src)) \<in> {None, Some src}"
    and cache: "cache_sound cfg (view (w_s3 w)) (w_disk w)" "cache_room cfg (source_hash D src) src (w_disk w)"
    and plan: "plan_chunks (source_pages D src) (PAGES_PER_CHUNK cfg) (MIN_PAGES_FOR_PARALLEL cfg) = Inr ranges" "ranges \<noteq> []"
    and texts: "length texts = length ranges" "list_all (list_all encodable) texts"
      "\<forall>task \<in> set (chunk_tasks jid (source_doc_key D src llm) (source_hash D src) ranges llm).
         converts D (source_hash D src) src texts task"
    and mq: "fst (publish cfg (d_amqp D) (chunk_tasks jid (source_doc_key D src llm) (source_hash D src) ranges llm) (w_mq w)) = Inr ()"
    and deliveries: "delivers (chunk_tasks jid (source_doc_key D src llm) (source_hash D src) ranges llm) ds"
    and polls: "2 \<le> polls"
  shows "\<exists>pages payload. paginate (PAGE_SIZE cfg) (join_parts texts) = Some pages \<and>
    fst (convert_endpoint polls D (\<lambda>w. snd (foreachE ds (handle D) w)) (Some key)
      (Some \<lparr>rq_file = Some url, rq_use_llm = Some llm\<rparr>) w) = Inr (Some payload) \<and>
    pr_id payload = source_doc_key D src llm \<and> pr_content payload = hd pages \<and>
    pr_pagination payload = build_pagination (source_doc_key D src llm) 1 (int (length pages))
      (int (length (join_parts texts))) (PAGE_SIZE cfg)"
proof -
  let ?fh = "source_hash D src" and ?dk = "source_doc_key D src llm"
  let ?tasks = "chunk_tasks jid ?dk ?fh ranges llm" and ?elapse = "\<lambda>w. snd (foreachE ds (handle D) w)"
  let ?inv = "job_inv D view up jid ?dk ?fh src texts"
  obtain w1 t1 where w1: "submit D url llm w = (Inr (Submitted jid ?dk (int (length ranges))), w1)"
    and inv1: "?inv {} t1 (new_job_abs (length texts)) w1"
    using submit_new [OF store up db(1,2) _ db(4) src(2,4) _ plan(2) texts(1) _ _ mq [unfolded jid_def cfg_def]] plan(1) cache db(3)
    unfolding cfg_def jid_def by blast
  have elapse: "\<exists>t' a'. ?inv (t_chunk_index ` set ds) t' a' (?elapse (w1\<lparr>w_db := c'\<rparr>)) \<and> a_status a' = Done" if "ready t1 c'" for c'
    using deliveries_complete [OF store size [unfolded cfg_def] src(3) texts(2) job_inv_w_db [OF inv1 that] texts(1,3) deliveries]
    by (metis snd_conv)
  have "a_status (new_job_abs (length texts)) \<noteq> Done" by (simp add: new_job_abs_def)
  from wait_for_done [where elapse = ?elapse, OF inv1 this elapse polls] obtain j w2 t2 a2 where
    wait: "wait_for_job polls D ?elapse jid w1 = (Inr (Some j), w2)" "j_status j = Done" "j_doc_key j = ?dk"
    and inv2: "?inv (t_chunk_index ` set ds) t2 a2 w2" "a_status a2 = Done" by blast
  then obtain pages where pages: "paginate (PAGE_SIZE cfg) (join_parts texts) = Some pages"
    "stores_document cfg (view (w_s3 w2)) ?dk pages (int (length (join_parts texts)))"
    by (auto simp: job_inv_def job_base_def served_def cfg_def)
  have "pages \<noteq> []" by (rule paginate_result [OF size, of "join_parts texts"]) (use pages(1) in simp)
  moreover have "up (w_s3 w2)" using inv2(1) by (simp add: job_inv_def job_base_def source_ready_def)
  ultimately obtain w3 where "completed_job_payload D j w2
      = (Inr (page_payload ?dk 1 (doc_manifest cfg ?dk pages (int (length (join_parts texts)))) (hd pages)), w3)"
    using completed_job_ok [OF store, of w2 j pages] wait(2,3) pages(2) unfolding cfg_def by auto
  moreover obtain ch cs where "url = ch # cs" using src(1) by (cases url) auto
  ultimately show ?thesis using w1 wait(1) pages(1) key
    by (auto simp: convert_endpoint_def authorized_ok cfg_def submit_request_def catch_def bindE_def ret_def page_payload_def)
qed


theorem convert_returns_first_page_witness:
  "let D = sample_deps keyed_chunks; w = sample_world (new_client []) s3_fresh; src = [37, 65, 66, 67];
       dk = source_doc_key D src False; tasks = chunk_tasks ''job'' dk ''f1101'' [(0, 2), (2, 3)] False in
   \<exists>pages payload. paginate 5000 (join_parts [[37, 65, 66], [37, 67]]) = Some pages \<and>
    fst (convert_endpoint 2 D (\<lambda>w. snd (foreachE [tasks ! 1, (tasks ! 0)\<lparr>t_attempt := 2\<rparr>, tasks ! 1] (handle D) w)) (Some ''secret'')
      (Some \<lparr>rq_file = Some ''https://h/a.pdf'', rq_use_llm = Some False\<rparr>) w) = Inr (Some payload) \<and>
    pr_id payload = dk \<and> pr_content payload = hd pages \<and>
    pr_pagination payload = build_pagination dk 1 (int (length pages)) (int (length (join_parts [[37, 65, 66], [37, 67]]))) 5000"
proof -
  let ?D = "sample_deps keyed_chunks" and ?w = "sample_world (new_client []) s3_fresh" and ?src = "[37, 65, 66, 67] :: bytes"
  let ?dk = "source_doc_key ?D ?src False"
  let ?tasks = "chunk_tasks ''job'' ?dk ''f1101'' [(0, 2), (2, 3)] False"
  have D: "object_store_up (d_s3 ?D) s3_view s3_up" "ADMIN_API_KEY (d_cfg ?D) = Some ''secret''" "PAGE_SIZE (d_cfg ?D) = 5000"
    "fetchable ?D ''https://h/a.pdf'' ?src"
    using s3c.object_store_up_axioms by (simp_all add: sample_deps_def keyed_chunks_def small_chunks_def default_settings_def fetchable_def)
  have hash: "source_hash ?D ?src = ''f1101''"
    by (simp add: source_hash_def hash_file_def concat_read_blocks sample_deps_def)
  have jid: "d_uuid ?D (w_uuids ?w) = ''job''"
    by (simp add: sample_deps_def sample_world_def)
  have db: "ready no_tables (w_db ?w)" "tables_wf no_tables" "unknown_job ''job'' no_tables" "documents no_tables = []"
    using new_client_ready no_tables_wf by (simp_all add: sample_world_def no_tables_def)
  have s3: "s3_up (w_s3 ?w)" "s3_view (w_s3 ?w) (source_key ''f1101'') = None"
    "cache_sound (d_cfg ?D) (s3_view (w_s3 ?w)) (w_disk ?w)" "cache_room (d_cfg ?D) ''f1101'' ?src (w_disk ?w)"
    by (simp_all add: sample_world_def s3_fresh_def s3_up_def s3_view_def cache_sound_def cache_room_def read_file_def
        cache_size_def list_files_def path_exists_def sample_deps_def keyed_chunks_def small_chunks_def default_settings_def)
  have plan: "plan_chunks (source_pages ?D ?src) (PAGES_PER_CHUNK (d_cfg ?D)) (MIN_PAGES_FOR_PARALLEL (d_cfg ?D)) = Inr [(0, 2), (2, 3)]"
    by (simp add: source_pages_def sample_deps_def keyed_chunks_def small_chunks_def plan_chunks_def py_range.simps)
  have conv: "\<forall>task \<in> set ?tasks. converts ?D ''f1101'' ?src [[37, 65, 66], [37, 67]] task"
    by (simp add: chunk_tasks_def converts_def range_text_def range_input_def sample_deps_def slice_nonneg)
  have mq: "fst (publish (d_cfg ?D) (d_amqp ?D) ?tasks (w_mq ?w)) = Inr ()"
    using publish_healthy [of "[]" "[]" "{}" "w_mq ?w"] by (simp add: calm_def sample_deps_def sample_world_def)
  have "delivers ?tasks [?tasks ! 1, (?tasks ! 0)\<lparr>t_attempt := 2\<rparr>, ?tasks ! 1]"
    by (auto simp: delivers_def chunk_tasks_def)
  from convert_returns_first_page [where D = ?D and w = ?w and src = ?src and llm = False and ranges = "[(0, 2), (2, 3)]",
      OF D(1) s3(1) D(2) _ _ db(1,2), unfolded hash jid, OF _ _ db(3) _ _ D(4) _ _ s3(3,4) plan _ _ _ conv mq this, of 2]
  show ?thesis by (simp add: D Let_def hex_name_def encodable_def is_surrogate_def db(4) s3(2))
qed

subsection \<open>Repeated submissions\<close>

lemma prepare_cached:
  assumes store: "object_store_up (d_s3 D) view up" and up: "up (w_s3 w)"
    and db: "ready t (w_db w)" "filter (\<lambda>r. d_doc_key r = source_doc_key D src use_llm) (documents t) \<noteq> []"
    and src: "read_file path (w_disk w) = Some src"
    and doc: "stores_document (d_cfg D) (view (w_s3 w)) (source_doc_key D src use_llm) pages len" "pages \<noteq> []"
  shows "\<exists>c' s'. prepare D use_llm path w
      = (Inr (Inl (page_payload (source_doc_key D src use_llm) 1
          (doc_manifest (d_cfg D) (source_doc_key D src use_llm) pages len) (hd pages))), w\<lparr>w_db := c', w_s3 := s'\<rparr>) \<and>
    ready t c' \<and> view s' = view (w_s3 w)"
proof -
  let ?dk = "source_doc_key D src use_llm"
  let ?m = "doc_manifest (d_cfg D) ?dk pages len"
  obtain r c' where c': "find_cached_document (d_cfg D) ?dk (w_db w) = (Inr (Some r), c')" "ready t c'"
    using find_cached_ready [OF db(1), of "d_cfg D" ?dk] db(2) by (auto split: list.splits)
  have w1: "up (w_s3 (w\<lparr>w_db := c'\<rparr>))" "stores_document (d_cfg D) (view (w_s3 (w\<lparr>w_db := c'\<rparr>))) ?dk pages len"
    using up doc(1) by simp_all
  obtain s1 s2 where s: "get_manifest (d_s3 D) ?dk (w_s3 w) = (Inr (Some ?m), s1)"
    "first_page_payload D ?dk ?m (w\<lparr>w_db := c', w_s3 := s1\<rparr>) = (Inr (Some (page_payload ?dk 1 ?m (hd pages))), w\<lparr>w_db := c', w_s3 := s2\<rparr>)"
    "view s2 = view (w_s3 w)"
    using first_page_ok [OF store w1 doc(2), of ?m] by auto
  have "cached_payload D ?dk w = (Inr (Some (page_payload ?dk 1 ?m (hd pages))), w\<lparr>w_db := c', w_s3 := s2\<rparr>)"
    using c'(1) s(1,2) by (simp add: cached_payload_def bindE_def on_db_def on_s3_def)
  with src have "prepare D use_llm path w = (Inr (Inl (page_payload ?dk 1 ?m (hd pages))), w\<lparr>w_db := c', w_s3 := s2\<rparr>)"
    by (simp add: prepare_def Let_def source_hash_def [symmetric] source_doc_key_def [symmetric] bindE_def read_source_def ret_def)
  with c'(2) s(3) show ?thesis by blast
qed

text \<open>
  C27. Once a document is recorded and stored, submitting the same bytes again answers with its
  first page from the cache: no row changes, nothing is published and nothing is stored.
\<close>

theorem resubmission_is_served_from_cache:
  assumes store: "object_store_up (d_s3 D) view up" and up: "up (w_s3 w)"
    and db: "ready t (w_db w)" "filter (\<lambda>r. d_doc_key r = source_doc_key D src use_llm) (documents t) \<noteq> []"
    and src: "fetchable D url src" and enc: "list_all (list_all encodable) pages" "pages \<noteq> []"
    and put: "on_s3 (put_document (d_cfg D) (d_s3 D) (source_doc_key D src use_llm) pages len) w = (Inr m, w1)"
  shows "\<exists>payload w'. submit D url use_llm w1 = (Inr (Cached payload), w') \<and>
    pr_id payload = source_doc_key D src use_llm \<and> pr_content payload = hd pages \<and>
    pr_pagination payload = build_pagination (source_doc_key D src use_llm) 1 (int (length pages)) len (PAGE_SIZE (d_cfg D)) \<and>
    ready t (w_db w') \<and> view (w_s3 w') = view (w_s3 w1) \<and> w_mq w' = w_mq w \<and> w_disk w' = w_disk w"
proof -
  let ?dk = "source_doc_key D src use_llm" and ?m = "doc_manifest (d_cfg D) (source_doc_key D src use_llm) pages len"
  obtain s1 where s1: "put_document (d_cfg D) (d_s3 D) ?dk pages len (w_s3 w) = (Inr ?m, s1)" "up s1"
    using object_store_up.up_put_document [OF store up enc(1)] by blast
  then have w1: "w1 = w\<lparr>w_s3 := s1\<rparr>" using put by (auto simp: on_s3_def)
  have doc: "stores_document (d_cfg D) (view s1) ?dk pages len"
    using object_store.put_document_ok [OF object_store_up.axioms(1) [OF store] s1(1)] unfolding stores_document_def by blast
  let ?P = "\<lambda>c' s'. ready t c' \<and> view s' = view s1"
  have "\<exists>c' s'. prepare D use_llm path w2 = (Inr (Inl (page_payload ?dk 1 ?m (hd pages))), w2\<lparr>w_db := c', w_s3 := s'\<rparr>) \<and> ?P c' s'"
    if "read_file path (w_disk w2) = Some src" "w_db w2 = w_db w1" "w_s3 w2 = w_s3 w1" for path w2
    using prepare_cached [OF store, of w2 t src use_llm path pages len] s1(2) db doc enc(2) that by (simp add: w1)
  note run = submit_prepared [OF src, where w = w1 and r = "Inl (page_payload ?dk 1 ?m (hd pages))" and P = ?P, OF this, unfolded sum.case]
  obtain c' s' where "submit D url use_llm w1
      = (Inr (Cached (page_payload ?dk 1 ?m (hd pages))), w1\<lparr>w_ticks := w_ticks w1 + 1, w_db := c', w_s3 := s'\<rparr>)" "?P c' s'"
    using run unfolding ret_def by blast
  then show ?thesis by (auto simp: w1 page_payload_def)
qed

definition cached_tables :: tables where
  "cached_tables = no_tables\<lparr>documents := [document_of keyed_chunks 0 (source_doc_key (sample_deps keyed_chunks) [37, 65, 66, 67] False)
     ''f1101'' 2 1 4 5000]\<rparr>"

theorem resubmission_is_served_from_cache_witness:
  "let D = sample_deps keyed_chunks; dk = source_doc_key D [37, 65, 66, 67] False;
       c = \<lparr>server = healthy_at \<lparr>committed = cached_tables, pending = None, last_changes = 0\<rparr>, connected = False, migrated = True\<rparr>;
       w1 = snd (on_s3 (put_document keyed_chunks s3_client dk [[65], [66, 67]] 4) (sample_world c s3_fresh)) in
   \<exists>payload w'. submit D ''https://h/a.pdf'' False w1 = (Inr (Cached payload), w') \<and> pr_id payload = dk \<and> pr_content payload = [65] \<and>
     pr_pagination payload = build_pagination dk 1 2 4 5000 \<and> ready cached_tables (w_db w') \<and>
     s3_view (w_s3 w') = s3_view (w_s3 w1) \<and> w_mq w' = w_mq (sample_world c s3_fresh) \<and> w_disk w' = []"
proof -
  let ?D = "sample_deps keyed_chunks" and ?src = "[37, 65, 66, 67] :: bytes"
  let ?c = "\<lparr>server = healthy_at \<lparr>committed = cached_tables, pending = None, last_changes = 0\<rparr>, connected = False, migrated = True\<rparr>"
  let ?w = "sample_world ?c s3_fresh" and ?dk = "source_doc_key (sample_deps keyed_chunks) [37, 65, 66, 67] False"
  have D: "object_store_up (d_s3 ?D) s3_view s3_up" "d_cfg ?D = keyed_chunks" "d_s3 ?D = s3_client" "PAGE_SIZE keyed_chunks = 5000"
    "fetchable ?D ''https://h/a.pdf'' ?src"
    using s3c.object_store_up_axioms by (simp_all add: sample_deps_def keyed_chunks_def small_chunks_def default_settings_def fetchable_def)
  have w: "s3_up (w_s3 ?w)" "ready cached_tables (w_db ?w)" "filter (\<lambda>r. d_doc_key r = ?dk) (documents cached_tables) \<noteq> []"
    by (simp_all add: sample_world_def s3_fresh_def s3_up_def ready_def clean_def cached_tables_def document_of_def)
  have enc: "list_all (list_all encodable) [[65], [66, 67 :: nat]]" by (simp add: encodable_def is_surrogate_def)
  obtain m s1 where "put_document keyed_chunks s3_client ?dk [[65], [66, 67]] 4 (w_s3 ?w) = (Inr m, s1)"
    using s3c.up_put_document [OF w(1) enc] by blast
  then have put: "on_s3 (put_document (d_cfg ?D) (d_s3 ?D) ?dk [[65], [66, 67]] 4) ?w = (Inr m, ?w\<lparr>w_s3 := s1\<rparr>)"
    by (simp add: D on_s3_def)
  from resubmission_is_served_from_cache [OF D(1) w D(5) enc _ put] put show ?thesis
    by (simp add: D Let_def sample_world_def)
qed

end
