(* ===== verification/Endpoints.thy ===== *)
theory Endpoints
  imports Pipeline
begin

section \<open>Answers of the API\<close>

text \<open>
  Who gets an answer at all, and what a client sees that follows the links of a document.
\<close>

subsection \<open>Access\<close>

text \<open>
  C25. A request without the configured key never gets past the check: every protected endpoint
  answers 401, or 500 when the server has no key, and nothing at all happens.
\<close>

theorem unauthorized_requests_do_nothing:
  assumes "\<forall>k. ADMIN_API_KEY (d_cfg D) = Some k \<longrightarrow> k = [] \<or> key \<noteq> Some k"
  shows "\<exists>e. status_code e = (if ADMIN_API_KEY (d_cfg D) \<in> {None, Some []} then 500 else 401) \<and>
    convert_endpoint polls D elapse key request w = (Inl e, w) \<and>
    async_convert_endpoint D key request w = (Inl e, w) \<and>
    get_job_endpoint D key jid w = (Inl e, w) \<and> get_page_endpoint D key doc_id page w = (Inl e, w)"
proof -
  have "\<exists>e. verify_api_key (d_cfg D) key = Inl e \<and>
      status_code e = (if ADMIN_API_KEY (d_cfg D) \<in> {None, Some []} then 500 else 401)"
    using assms by (auto simp: verify_api_key_def split: option.split)
  then obtain e where e: "verify_api_key (d_cfg D) key = Inl e"
    "status_code e = (if ADMIN_API_KEY (d_cfg D) \<in> {None, Some []} then 500 else 401)" by blast
  then show ?thesis
    by (auto simp: convert_endpoint_def async_convert_endpoint_def get_job_endpoint_def get_page_endpoint_def
        authorized_def throw_def)
qed

subsection \<open>Page links\<close>

text \<open>A client that starts at page \<open>page\<close> and follows \<open>next_page\<close>, for at most \<open>fuel\<close> pages.\<close>

fun follow_pages ::
  "nat \<Rightarrow> ('p, 'q, 'o) deps \<Rightarrow> string option \<Rightarrow> string \<Rightarrow> int \<Rightarrow> (('q, 'o) world, pytext list) io" where
  "follow_pages 0 D key doc_id page = ret []"
| "follow_pages (Suc fuel) D key doc_id page =
     bindE (get_page_endpoint D key doc_id page) (\<lambda>p.
       case pg_next_page (pr_pagination p) of
         None \<Rightarrow> ret [pr_content p]
       | Some next \<Rightarrow> bindE (follow_pages fuel D key doc_id next) (\<lambda>rest. ret (pr_content p # rest)))"

lemma follow_pages_from:
  assumes store: "object_store_up (d_s3 D) view up" and key: "ADMIN_API_KEY (d_cfg D) = Some key" "key \<noteq> []"
    and "up (w_s3 w)" "stores_document (d_cfg D) (view (w_s3 w)) dk pages len" "i < length pages"
    and "length pages - i \<le> fuel"
  shows "fst (follow_pages fuel D (Some key) dk (1 + int i) w) = Inr (drop i pages)"
  using assms(4-7)
proof (induction fuel arbitrary: i w)
  case (Suc fuel)
  let ?p = "page_payload dk (1 + int i) (doc_manifest (d_cfg D) dk pages len) (pages ! i)"
  obtain s' where run: "get_page_endpoint D (Some key) dk (1 + int i) w = (Inr ?p, w\<lparr>w_s3 := s'\<rparr>)"
    and s': "up s'" "view s' = view (w_s3 w)"
    using get_page_endpoint_run [OF store Suc.prems(1) key Suc.prems(2,3)] by blast
  show ?case
  proof (cases "Suc i < length pages")
    case True
    then have "fst (follow_pages fuel D (Some key) dk (1 + int (Suc i)) (w\<lparr>w_s3 := s'\<rparr>)) = Inr (drop (Suc i) pages)"
      using Suc.IH [of "w\<lparr>w_s3 := s'\<rparr>" "Suc i"] Suc.prems s' by simp
    then obtain w2 where "follow_pages fuel D (Some key) dk (2 + int i) (w\<lparr>w_s3 := s'\<rparr>) = (Inr (drop (Suc i) pages), w2)"
      by (cases "follow_pages fuel D (Some key) dk (2 + int i) (w\<lparr>w_s3 := s'\<rparr>)") (simp add: algebra_simps)
    with True run Suc.prems(3) show ?thesis
      by (simp add: bindE_run page_payload_def build_pagination_def Let_def ret_def Cons_nth_drop_Suc algebra_simps)
  next
    case False
    then have "drop i pages = [pages ! i]" using Cons_nth_drop_Suc [OF Suc.prems(3)] by simp
    with False run Suc.prems(3) show ?thesis
      by (simp add: bindE_run page_payload_def build_pagination_def Let_def ret_def)
  qed
qed simp

text \<open>
  C24. A client that reads page 1 of a stored document and follows the page links gets every page
  exactly once, in order, and then no further link.
\<close>

theorem page_links_reach_every_page:
  assumes "object_store_up (d_s3 D) view up" "ADMIN_API_KEY (d_cfg D) = Some key" "key \<noteq> []"
    and "up (w_s3 w)" "list_all (list_all encodable) pages" "pages \<noteq> []" "length pages \<le> fuel"
  shows "\<exists>m w'. on_s3 (put_document (d_cfg D) (d_s3 D) doc_key pages len) w = (Inr m, w') \<and>
    fst (follow_pages fuel D (Some key) doc_key 1 w') = Inr pages"
proof -
  obtain s' where put: "put_document (d_cfg D) (d_s3 D) doc_key pages len (w_s3 w)
      = (Inr (doc_manifest (d_cfg D) doc_key pages len), s')" and up: "up s'"
    using object_store_up.up_put_document [OF assms(1,4,5)] by blast
  have "stores_document (d_cfg D) (view s') doc_key pages len"
    using object_store.put_document_ok [OF object_store_up.axioms(1) [OF assms(1)] put] unfolding stores_document_def by blast
  from follow_pages_from [OF assms(1-3), of "w\<lparr>w_s3 := s'\<rparr>", OF _ _ _ _, of doc_key pages len 0 fuel] this up assms(6,7)
  have "fst (follow_pages fuel D (Some key) doc_key 1 (w\<lparr>w_s3 := s'\<rparr>)) = Inr pages" by simp
  with put show ?thesis by (auto simp: on_s3_def)
qed


theorem unauthorized_requests_do_nothing_witness:
  "\<exists>e. status_code e = 401 \<and>
    (let D = sample_deps keyed_chunks; w = sample_world (new_client []) s3_fresh in
     convert_endpoint 1 D id (Some ''guess'') None w = (Inl e, w) \<and>
     async_convert_endpoint D (Some ''guess'') None w = (Inl e, w) \<and>
     get_job_endpoint D (Some ''guess'') ''j'' w = (Inl e, w) \<and> get_page_endpoint D (Some ''guess'') ''k'' 1 w = (Inl e, w))"
proof -
  have k: "ADMIN_API_KEY (d_cfg (sample_deps keyed_chunks)) = Some ''secret''" by (simp add: sample_deps_def keyed_chunks_def)
  then have "\<forall>k. ADMIN_API_KEY (d_cfg (sample_deps keyed_chunks)) = Some k \<longrightarrow> k = [] \<or> Some ''guess'' \<noteq> Some k" by simp
  from unauthorized_requests_do_nothing [OF this, of 1 id None "sample_world (new_client []) s3_fresh" "''j''" "''k''" 1]
  show ?thesis by (simp add: k Let_def)
qed

theorem page_links_reach_every_page_witness:
  "let D = sample_deps keyed_chunks; w = sample_world (new_client []) s3_fresh in
   \<exists>m w'. on_s3 (put_document (d_cfg D) (d_s3 D) ''k'' [[65], [66], [67]] 9) w = (Inr m, w') \<and>
    fst (follow_pages 3 D (Some ''secret'') ''k'' 1 w') = Inr [[65], [66], [67]]"
proof -
  let ?D = "sample_deps keyed_chunks" and ?w = "sample_world (new_client []) s3_fresh"
  have "object_store_up (d_s3 ?D) s3_view s3_up" "ADMIN_API_KEY (d_cfg ?D) = Some ''secret''" "s3_up (w_s3 ?w)"
    using s3c.object_store_up_axioms by (simp_all add: sample_deps_def keyed_chunks_def sample_world_def s3_fresh_def s3_up_def)
  from page_links_reach_every_page [OF this(1,2) _ this(3), of "[[65], [66], [67]]" 3 "''k''" 9] show ?thesis
    by (simp add: Let_def encodable_def is_surrogate_def)
qed

end
