(* ===== verification/Consumer.thy ===== *)
theory Consumer
  imports Pipeline
begin

section \<open>Deliveries and failures\<close>

text \<open>
  The consumer loop around the handler, the decision about a failed chunk, and two ways in which
  a job is lost or misreported.
\<close>

subsection \<open>The consumer loop\<close>





subsection \<open>Failures of a chunk\<close>

lemma find_job_fail:
  "find_job jid t = Some j \<Longrightarrow> find_job jid (after (fail_job_stmt ts jid err ci) t) = Some (if terminal (j_status j) then j
     else j\<lparr>j_status := Failed, j_error := Some (take 2000 err), j_error_chunk := ci, j_updated_at := ts\<rparr>)"
  using find_job_id [of jid t j] by (auto simp: after_def fail_job_stmt_def update_jobs_def find_job_update)

lemma find_job_finish:
  "find_job jid t = Some j \<Longrightarrow> find_job jid (after (finish_job_stmt ts jid) t) = Some (j\<lparr>j_status := Done, j_updated_at := ts\<rparr>)"
  using find_job_id [of jid t j] by (auto simp: after_def finish_job_stmt_def update_jobs_def find_job_update)

lemma find_job_chunk_stmts [simp]:
  "find_job jid (after (fail_chunk_stmt ts j i err) t) = find_job jid t"
  "find_job jid (after (reschedule_chunk_stmt ts j i err) t) = find_job jid t"
  by (simp_all add: after_def chunk_stmts update_chunks_def)

lemma retry_body:
  assumes "message_broker Q sent" "publish_retry cfg Q task m = (r, m')"
  shows "\<exists>body i j. from_bytes body = Inr (next_attempt task) \<and> (r = Inr () \<longrightarrow> 1 \<le> i + j) \<and>
    sent (broker m') = sent (broker m) @ replicate (i + j) (RETRY_EXCHANGE cfg, retry_queue_name cfg (t_attempt task), body)"
proof -
  obtain body where b: "to_bytes (next_attempt task) = Inr body" "from_bytes body = Inr (next_attempt task)"
    using to_bytes_from_bytes by blast
  then have "publish_raw cfg Q (RETRY_EXCHANGE cfg) (retry_queue_name cfg (t_attempt task)) [body] m = (r, m')"
    using assms(2) by (simp add: publish_retry_def lift_result_def)
  from message_broker.publish_raw_sent [OF assms(1) this] obtain i j where
    "sent (broker m') = sent (broker m) @ take i [(RETRY_EXCHANGE cfg, retry_queue_name cfg (t_attempt task), body)]
       @ take j [(RETRY_EXCHANGE cfg, retry_queue_name cfg (t_attempt task), body)]" "r = Inr () \<longrightarrow> j = 1" by auto
  then show ?thesis using b(2)
    by (intro exI [of _ body] exI [of _ "min i 1"] exI [of _ "min j 1"]) (cases i; cases j; auto)
qed

lemma failed_body_sent:
  assumes "message_broker Q sent" "publish_failed cfg Q task err m = (r, m')"
  shows "\<exists>body k e. failed_body task err = Inr body \<and> from_bytes body = Inl e \<and> (r = Inr () \<longrightarrow> 1 \<le> k) \<and>
    sent (broker m') = sent (broker m) @ replicate k (DLX_EXCHANGE cfg, RABBITMQ_QUEUE cfg, body)"
proof -
  obtain body e where b: "failed_body task err = Inr body" "from_bytes body = Inl e" using failed_body_refused by blast
  then have "publish_raw cfg Q (DLX_EXCHANGE cfg) (RABBITMQ_QUEUE cfg) [body] m = (r, m')"
    using assms(2) by (simp add: publish_failed_def lift_result_def)
  from message_broker.publish_raw_sent [OF assms(1) this] obtain i j where
    "sent (broker m') = sent (broker m) @ take i [(DLX_EXCHANGE cfg, RABBITMQ_QUEUE cfg, body)]
       @ take j [(DLX_EXCHANGE cfg, RABBITMQ_QUEUE cfg, body)]" "r = Inr () \<longrightarrow> j = 1" by auto
  then show ?thesis using b
    by (intro exI [of _ body] exI [of _ "min i 1 + min j 1"] exI [of _ e]) (cases i; cases j; auto)
qed

lemma failure_retried:
  assumes broker: "message_broker (d_amqp D) sent" and db: "ready t (w_db w)" "find_job (t_job_id task) t = Some j"
    and less: "t_attempt task < MAX_ATTEMPTS (d_cfg D)" and run: "handle_failure D task e w = (Inr (), w')"
  shows "\<exists>body k. fst (on_db (get_job (d_cfg D) (t_job_id task)) w') = Inr (Some j) \<and> 1 \<le> k \<and>
    sent (broker (w_mq w')) = sent (broker (w_mq w)) @
      replicate k (RETRY_EXCHANGE (d_cfg D), retry_queue_name (d_cfg D) (t_attempt task), body) \<and>
    from_bytes body = Inr (next_attempt task)"
proof -
  let ?jid = "t_job_id task" and ?i = "t_chunk_index task" and ?err = "exn_name e @ '': '' @ exn_str e"
  obtain c1 where c1: "timed (\<lambda>ts. reschedule_chunk (d_cfg D) ts ?jid ?i ?err) w = (Inr (), w\<lparr>w_ticks := w_ticks w + 1, w_db := c1\<rparr>)"
    "ready (after (reschedule_chunk_stmt (w_clock w (w_ticks w)) ?jid ?i ?err) t) c1"
    using timed_stmt [OF db(1), of "\<lambda>ts. reschedule_chunk_stmt ts ?jid ?i ?err" "job_env (d_cfg D)"]
    by (auto simp: reschedule_chunk_def)
  obtain m where m: "publish_retry (d_cfg D) (d_amqp D) task (w_mq w) = (Inr (), m)" "w' = w\<lparr>w_ticks := w_ticks w + 1, w_db := c1, w_mq := m\<rparr>"
    using run less c1(1) by (auto simp: handle_failure_def Let_def thenE_run on_mq_def split: prod.splits)
  obtain body k where "from_bytes body = Inr (next_attempt task)" "1 \<le> k"
    "sent (broker m) = sent (broker (w_mq w)) @ replicate k (RETRY_EXCHANGE (d_cfg D), retry_queue_name (d_cfg D) (t_attempt task), body)"
    using retry_body [OF broker m(1)] by blast
  moreover have "fst (on_db (get_job (d_cfg D) ?jid) w') = Inr (Some j)"
    using get_job_ready [OF c1(2), of "d_cfg D" ?jid] db(2) by (auto simp: m(2) on_db_def)
  ultimately show ?thesis by (intro exI [of _ body] exI [of _ k]) (simp add: m(2))
qed

lemma failure_exhausted:
  assumes broker: "message_broker (d_amqp D) sent" and db: "ready t (w_db w)" "find_job (t_job_id task) t = Some j"
    and active: "\<not> terminal (j_status j)"
    and exhausted: "\<not> t_attempt task < MAX_ATTEMPTS (d_cfg D)" and run: "handle_failure D task e w = (Inr (), w')"
  shows "\<exists>j' body k x. fst (on_db (get_job (d_cfg D) (t_job_id task)) w') = Inr (Some j') \<and> 1 \<le> k \<and>
    j_status j' = Failed \<and> j_error_chunk j' = Some (t_chunk_index task) \<and>
    sent (broker (w_mq w')) = sent (broker (w_mq w)) @ replicate k (DLX_EXCHANGE (d_cfg D), RABBITMQ_QUEUE (d_cfg D), body) \<and>
    from_bytes body = Inl x"
proof -
  let ?jid = "t_job_id task" and ?i = "t_chunk_index task" and ?err = "exn_name e @ '': '' @ exn_str e"
  let ?msg = "''chunk '' @ show_int ?i @ '' failed after '' @ show_int (t_attempt task) @ '' attempts: '' @ exn_str e"
  obtain rp m where m: "publish_failed (d_cfg D) (d_amqp D) task ?err (w_mq w) = (rp, m)" by fastforce
  have rp: "rp = Inr ()" using run exhausted m by (cases rp) (auto simp: handle_failure_def Let_def thenE_raise on_mq_def)
  define w1 where "w1 = w\<lparr>w_mq := m\<rparr>"
  have "ready t (w_db w1)" using db(1) by (simp add: w1_def)
  from timed_stmt [OF this, of "\<lambda>ts. fail_chunk_stmt ts ?jid ?i ?err" "job_env (d_cfg D)"] obtain c2 where
    c2: "timed (\<lambda>ts. fail_chunk (d_cfg D) ts ?jid ?i ?err) w1 = (Inr (), w1\<lparr>w_ticks := w_ticks w1 + 1, w_db := c2\<rparr>)"
      "ready (after (fail_chunk_stmt (w_clock w1 (w_ticks w1)) ?jid ?i ?err) t) c2"
    by (auto simp: fail_chunk_def)
  define w2 where "w2 = w1\<lparr>w_ticks := w_ticks w1 + 1, w_db := c2\<rparr>"
  let ?t2 = "after (fail_chunk_stmt (w_clock w1 (w_ticks w1)) ?jid ?i ?err) t"
  have "ready ?t2 (w_db w2)" using c2(2) by (simp add: w2_def)
  from timed_stmt [OF this, of "\<lambda>ts. fail_job_stmt ts ?jid ?msg (Some ?i)" "job_env (d_cfg D)"] obtain c3 where
    c3: "timed (\<lambda>ts. fail_job (d_cfg D) ts ?jid ?msg (Some ?i)) w2 = (Inr (), w2\<lparr>w_ticks := w_ticks w2 + 1, w_db := c3\<rparr>)"
      "ready (after (fail_job_stmt (w_clock w2 (w_ticks w2)) ?jid ?msg (Some ?i)) ?t2) c3"
    by (auto simp: fail_job_def)
  have w': "w' = w2\<lparr>w_ticks := w_ticks w2 + 1, w_db := c3\<rparr>"
    using run exhausted m rp c2(1) c3(1) by (simp add: handle_failure_def Let_def thenE_run on_mq_def w1_def w2_def)
  obtain j' where j': "find_job ?jid (after (fail_job_stmt (w_clock w2 (w_ticks w2)) ?jid ?msg (Some ?i)) ?t2) = Some j'"
    "j_status j' = Failed" "j_error_chunk j' = Some ?i"
    using find_job_fail [of ?jid ?t2 j "w_clock w2 (w_ticks w2)" ?msg "Some ?i"] db(2) active by auto
  have get: "fst (on_db (get_job (d_cfg D) ?jid) w') = Inr (Some j')"
    using get_job_ready [OF c3(2), of "d_cfg D" ?jid] j'(1) by (auto simp: w' on_db_def)
  obtain body k x where "from_bytes body = Inl x" "1 \<le> k"
    "sent (broker m) = sent (broker (w_mq w)) @ replicate k (DLX_EXCHANGE (d_cfg D), RABBITMQ_QUEUE (d_cfg D), body)"
    using failed_body_sent [OF broker m] rp by blast
  with get j' show ?thesis
    by (intro exI [of _ j'] exI [of _ body] exI [of _ k] exI [of _ x]) (simp add: w' w2_def w1_def)
qed

text \<open>
  C23. What becomes of a chunk whose conversion raised, when the failure handler returns: with
  attempts left the job is as before and the next attempt was sent for the retry
  tier of this one; with none left the job is failed and names the chunk, and the message is
  parked where no worker reads it as a task.
\<close>

theorem failed_chunk_is_retried_or_fails_job:
  assumes "message_broker (d_amqp D) sent" "ready t (w_db w)" "find_job (t_job_id task) t = Some j"
    and "\<not> terminal (j_status j)" "handle_failure D task e w = (Inr (), w')"
  shows "\<exists>j' exchange key body k. fst (on_db (get_job (d_cfg D) (t_job_id task)) w') = Inr (Some j') \<and> 1 \<le> k \<and>
    sent (broker (w_mq w')) = sent (broker (w_mq w)) @ replicate k (exchange, key, body) \<and>
    (if t_attempt task < MAX_ATTEMPTS (d_cfg D)
     then j' = j \<and> exchange = RETRY_EXCHANGE (d_cfg D) \<and> key = retry_queue_name (d_cfg D) (t_attempt task) \<and>
       from_bytes body = Inr (next_attempt task)
     else j_status j' = Failed \<and> j_error_chunk j' = Some (t_chunk_index task) \<and>
       exchange = DLX_EXCHANGE (d_cfg D) \<and> key = RABBITMQ_QUEUE (d_cfg D) \<and> (\<exists>x. from_bytes body = Inl x))"
  using failure_retried [OF assms(1-3) _ assms(5)] failure_exhausted [OF assms(1-4) _ assms(5)]
  by (cases "t_attempt task < MAX_ATTEMPTS (d_cfg D)") (simp_all, blast+)


subsection \<open>Two flaws around failures\<close>

text \<open>
  C39. Marking a job done has no guard on its status: a job that failed while its document was
  being assembled becomes done and keeps its error text.
\<close>

theorem failed_job_can_become_done:
  assumes "ready t c" "find_job jid t = Some j" "\<not> terminal (j_status j)"
  shows "\<exists>c1 c2 c3 j'. fail_job cfg ts jid error chunk c = (Inr (), c1) \<and> finish_job cfg ts' jid c1 = (Inr (), c2) \<and>
    get_job cfg jid c2 = (Inr (Some j'), c3) \<and> j_status j' = Done \<and> j_error j' = Some (take 2000 error)"
proof -
  let ?t1 = "after (fail_job_stmt ts jid error chunk) t"
  obtain c1 where c1: "fail_job cfg ts jid error chunk c = (Inr (), c1)" "ready ?t1 c1"
    using unit_stmt_ready [OF assms(1), of "fail_job_stmt ts jid error chunk" "job_env cfg"] by (auto simp: fail_job_def)
  obtain c2 where c2: "finish_job cfg ts' jid c1 = (Inr (), c2)" "ready (after (finish_job_stmt ts' jid) ?t1) c2"
    using unit_stmt_ready [OF c1(2), of "finish_job_stmt ts' jid" "job_env cfg"] by (auto simp: finish_job_def)
  from find_job_finish [OF find_job_fail [OF assms(2), of ts error chunk], of ts'] get_job_ready [OF c2(2), of cfg jid] c1(1) c2(1) assms(3)
  show ?thesis by auto
qed

text \<open>
  C38. \<^verbatim>\<open>handle\<close> can raise: when the database call that opens it fails, the consumer acknowledges
  the delivery with nothing published, stored or recorded, so the chunk is gone.
\<close>

theorem database_error_drops_the_chunk:
  assumes "get_job (d_cfg D) (t_job_id task) (w_db w) = (Inl e, c)" "from_bytes body = Inr task"
  shows "\<exists>w1. on_delivery D (on_task D) (tag, body) w = on_mq (on_channel (basic_ack (d_amqp D) tag)) w1 \<and>
    w_mq w1 = w_mq w \<and> w_s3 w1 = w_s3 w \<and> w_db w1 = c"
proof -
  let ?t = "w_clock w (w_ticks w)"
  let ?w1 = "w\<lparr>w_ticks := w_ticks w + 1, w_disk := write_file (WORKER_LIVENESS_FILE (d_cfg D)) (str_bytes (show_int ?t)) ?t (w_disk w)\<rparr>"
  have "on_task D task w = (Inr (), ?w1\<lparr>w_db := c\<rparr>)"
    using assms(1) by (simp add: on_task_def touch_liveness_def handle_def Let_def io_simps now_def on_disk_def on_db_def)
  then have "on_delivery D (on_task D) (tag, body) w = on_mq (on_channel (basic_ack (d_amqp D) tag)) (?w1\<lparr>w_db := c\<rparr>)"
    using assms(2) by (simp add: on_delivery_def Let_def finallyE_def split: prod.split sum.split)
  then show ?thesis by auto
qed

subsection \<open>Witnesses\<close>

lemma one_job_find: "find_job ''j'' one_job = Some (new_job_row 1 ''j'' ''d'' ''f'' ''u'' 1 False)"
  by (simp add: one_job_def no_tables_def find_job_def new_job_row_def)

theorem failed_chunk_is_retried_or_fails_job_witness:
  "let D = sample_deps default_settings; w = sample_world one_job_client s3_fresh; j = new_job_row 1 ''j'' ''d'' ''f'' ''u'' 1 False in
   \<exists>w' j' exchange key body k. handle_failure D sample_task (ValueError ''bad page'') w = (Inr (), w') \<and>
    fst (on_db (get_job (d_cfg D) ''j'') w') = Inr (Some j') \<and> 1 \<le> k \<and>
    b_sent (r_state (broker (w_mq w'))) = b_sent (r_state (broker (w_mq w))) @ replicate k (exchange, key, body) \<and>
    j' = j \<and> exchange = RETRY_EXCHANGE (d_cfg D) \<and> key = retry_queue_name (d_cfg D) 1 \<and>
       from_bytes body = Inr (next_attempt sample_task)"
proof -
  let ?D = "sample_deps default_settings" and ?w = "sample_world one_job_client s3_fresh" and ?e = "ValueError ''bad page''"
  let ?err = "exn_name ?e @ '': '' @ exn_str ?e"
  have D: "d_amqp ?D = amqp_client" "d_cfg ?D = default_settings" "MAX_ATTEMPTS default_settings = 3"
    by (simp_all add: sample_deps_def default_settings_def)
  have t: "t_job_id sample_task = ''j''" "t_attempt sample_task = 1" by (simp_all add: sample_task_def)
  have rd: "ready one_job (w_db ?w)" using one_job_facts(1) by (simp add: sample_world_def)
  obtain c1 where c1: "timed (\<lambda>ts. reschedule_chunk default_settings ts ''j'' (t_chunk_index sample_task) ?err) ?w
      = (Inr (), ?w\<lparr>w_ticks := w_ticks ?w + 1, w_db := c1\<rparr>)"
    using timed_stmt [OF rd, of "\<lambda>ts. reschedule_chunk_stmt ts ''j'' (t_chunk_index sample_task) ?err" "job_env default_settings"]
    by (auto simp: reschedule_chunk_def)
  obtain b where b: "to_bytes (next_attempt sample_task) = Inr b" using to_bytes_from_bytes by blast
  have "calm [] [] {} (w_mq ?w)" by (simp add: calm_def sample_world_def)
  from publish_raw_calm [OF this, of default_settings "RETRY_EXCHANGE default_settings" "retry_queue_name default_settings 1" "[b]"]
  obtain m where "publish_retry default_settings amqp_client sample_task (w_mq ?w) = (Inr (), m)"
    using b by (auto simp: publish_retry_def lift_result_def t)
  then have run: "\<exists>w'. handle_failure ?D sample_task ?e ?w = (Inr (), w')"
    using c1 by (simp add: handle_failure_def Let_def D t thenE_run on_mq_def)
  then obtain w' where run: "handle_failure ?D sample_task ?e ?w = (Inr (), w')" by blast
  have "message_broker (d_amqp ?D) (\<lambda>r. b_sent (r_state r))" using ref.message_broker_axioms by (simp add: D)
  from failed_chunk_is_retried_or_fails_job [OF this rd _ _ run, unfolded t] one_job_find run show ?thesis
    unfolding Let_def by (simp add: new_job_row_def D)
qed

theorem failed_job_can_become_done_witness:
  "\<exists>c1 c2 c3 j'. fail_job default_settings 2 ''j'' ''boom'' (Some 0) one_job_client = (Inr (), c1) \<and>
    finish_job default_settings 3 ''j'' c1 = (Inr (), c2) \<and>
    get_job default_settings ''j'' c2 = (Inr (Some j'), c3) \<and> j_status j' = Done \<and> j_error j' = Some ''boom''"
  using failed_job_can_become_done [OF one_job_facts(1) one_job_find, of default_settings 2 "''boom''" "Some 0" 3]
  by (simp add: new_job_row_def)

theorem database_error_drops_the_chunk_witness:
  "let D = sample_deps default_settings; w = sample_world (new_client [Refuse (OSError ''down'')]) s3_fresh in
   \<exists>body c w1. from_bytes body = Inr sample_task \<and> get_job (d_cfg D) ''j'' (w_db w) = (Inl (OSError ''down''), c) \<and>
    on_delivery D (on_task D) (7, body) w = on_mq (on_channel (basic_ack (d_amqp D) 7)) w1 \<and>
    w_mq w1 = w_mq w \<and> w_s3 w1 = w_s3 w \<and> w_db w1 = c"
proof -
  let ?D = "sample_deps default_settings" and ?w = "sample_world (new_client [Refuse (OSError ''down'')]) s3_fresh"
  obtain body where body: "from_bytes body = Inr sample_task" using to_bytes_from_bytes by blast
  have "\<exists>c. get_job (d_cfg ?D) (t_job_id sample_task) (w_db ?w) = (Inl (OSError ''down''), c)"
    by (simp add: get_job_def query_one_def query_def run_def ensure_ready_def get_connection_def sample_world_def new_client_def
        thenE_def bindE_def ret_def on_server_def call_def)
  then obtain c where "get_job (d_cfg ?D) (t_job_id sample_task) (w_db ?w) = (Inl (OSError ''down''), c)" by blast
  from database_error_drops_the_chunk [OF this body, of 7] this body show ?thesis
    unfolding Let_def by (simp add: sample_task_def) blast
qed


end
