(* ===== verification/Fleet.thy ===== *)
theory Fleet
  imports Pipeline
begin

section \<open>A fleet of workers on one job table\<close>

text \<open>
  Several workers run \<open>handle\<close> at the same time and the API adds jobs, each process on a connection
  of its own to the one database. The phases of a worker are the points of \<open>handle\<close> between two
  database calls. A step of the fleet is one statement or one transaction of one process, or what
  a worker does between two of them (convert, publish, store pages), seen only through its outcome,
  or the death of a process, or a call of the API. Deliveries are arbitrary: any task may be
  delivered to any idle worker at any time, twice or more.

  A transaction is one step because SQLite has one writer at a time. A process that could neither
  commit nor roll back keeps its transaction open on its connection and with it the write lock:
  until it goes on or dies, no step of another process changes anything. The second attempt of a
  statement on a stale connection is part of its step.
\<close>

subsection \<open>The points of the handler between two database calls\<close>

datatype phase =
    Idle
  | Delivered chunk_task
  | Admitted chunk_task
  | Starting chunk_task int
  | Converting chunk_task
  | Stored chunk_task string
  | Postponing chunk_task exn
  | Parked chunk_task exn
  | Condemning chunk_task exn
  | Told string
  | Listing string job_row
  | Writing string job_row "int list"
  | Recording string job_row int int
  | Closing string job_row
  | Broken string exn

text \<open>The database call of a phase, and the phase after it.\<close>

fun call_step :: "settings \<Rightarrow> string \<Rightarrow> int \<Rightarrow> phase \<Rightarrow> (tables client, phase) io" where
  "call_step cfg owner ts (Delivered t) =
     bindE (get_job cfg (t_job_id t)) (\<lambda>job. ret (case job of
         None \<Rightarrow> Idle
       | Some j \<Rightarrow> if terminal (j_status j) then Idle else Admitted t))"
| "call_step cfg owner ts (Admitted t) =
     thenE (execute (job_env cfg) (start_chunk_stmt ts (t_job_id t) (t_chunk_index t) owner (t_attempt t)))
       (ret (Starting t ts))"
| "call_step cfg owner ts (Starting t ts0) =
     thenE (execute (job_env cfg) (start_job_stmt ts0 (t_job_id t))) (ret (Converting t))"
| "call_step cfg owner ts (Stored t key) =
     bindE (complete_chunk cfg ts (t_job_id t) (t_chunk_index t) key) (\<lambda>remaining.
       ret (if remaining = 0 then Told (t_job_id t) else Idle))"
| "call_step cfg owner ts (Postponing t e) =
     thenE (reschedule_chunk cfg ts (t_job_id t) (t_chunk_index t) (exn_name e @ '': '' @ exn_str e)) (ret Idle)"
| "call_step cfg owner ts (Parked t e) =
     thenE (fail_chunk cfg ts (t_job_id t) (t_chunk_index t) (exn_name e @ '': '' @ exn_str e)) (ret (Condemning t e))"
| "call_step cfg owner ts (Condemning t e) =
     thenE (fail_job cfg ts (t_job_id t)
              (''chunk '' @ show_int (t_chunk_index t) @ '' failed after '' @
               show_int (t_attempt t) @ '' attempts: '' @ exn_str e) (Some (t_chunk_index t)))
       (ret Idle)"
| "call_step cfg owner ts (Told jid) =
     catch (bindE (get_job cfg jid) (\<lambda>job. case job of
              None \<Rightarrow> throw (TypeError ''NoneType object is not subscriptable'')
            | Some j \<Rightarrow> ret (Listing jid j)))
       (\<lambda>e. ret (Broken jid e))"
| "call_step cfg owner ts (Listing jid j) =
     catch (bindE (chunk_indices cfg (j_job_id j)) (\<lambda>indices. ret (Writing jid j indices)))
       (\<lambda>e. ret (Broken jid e))"
| "call_step cfg owner ts (Recording jid j pages len) =
     catch (thenE (record_document cfg ts (j_doc_key j) (j_file_hash j) pages (j_total_chunks j) len (PAGE_SIZE cfg))
              (ret (Closing jid j)))
       (\<lambda>e. ret (Broken jid e))"
| "call_step cfg owner ts (Closing jid j) =
     catch (thenE (finish_job cfg ts (j_job_id j)) (ret Idle)) (\<lambda>e. ret (Broken jid e))"
| "call_step cfg owner ts (Broken jid e) =
     thenE (fail_job cfg ts jid (''assembly failed: '' @ exn_str e) None) (ret Idle)"
| "call_step cfg owner ts p = ret p"

text \<open>What happens between two calls.\<close>

inductive local_step :: "settings \<Rightarrow> phase \<Rightarrow> phase \<Rightarrow> bool" for cfg where
  deliver: "local_step cfg Idle (Delivered t)"
| converted: "local_step cfg (Converting t) (Stored t key)"
| exhausted: "t_attempt t \<ge> MAX_ATTEMPTS cfg \<Longrightarrow> local_step cfg (Converting t) (Parked t e)"
| postponed: "t_attempt t < MAX_ATTEMPTS cfg \<Longrightarrow> local_step cfg (Converting t) (Postponing t e)"
| written: "local_step cfg (Writing jid j indices) (Recording jid j pages len)"
| not_written: "local_step cfg (Writing jid j indices) (Broken jid e)"
| gives_up: "local_step cfg p Idle"   \<comment> \<open>an exception ends the handler\<close>

text \<open>
  The data everyone sees, and for every process its connection: what is pending on it, and the
  failures to come. The client of a process is its connection to the data.
\<close>

record connection =
  cn_pending :: "tables option"
  cn_changes :: nat
  cn_faults :: "fault list"
  cn_connected :: bool
  cn_migrated :: bool

definition client_of :: "tables \<Rightarrow> connection \<Rightarrow> tables client" where
  "client_of d c =
     \<lparr>server = \<lparr>r_state = \<lparr>committed = d, pending = cn_pending c, last_changes = cn_changes c\<rparr>, r_faults = cn_faults c\<rparr>,
      connected = cn_connected c, migrated = cn_migrated c\<rparr>"

definition connection_of :: "tables client \<Rightarrow> connection" where
  "connection_of c =
     \<lparr>cn_pending = pending (r_state (server c)), cn_changes = last_changes (r_state (server c)),
      cn_faults = r_faults (server c), cn_connected = connected c, cn_migrated = migrated c\<rparr>"

record fleet =
  f_data :: tables
  f_conn :: "nat \<Rightarrow> connection"
  f_phase :: "nat \<Rightarrow> phase"
  f_told :: "string list"

definition client_at :: "fleet \<Rightarrow> nat \<Rightarrow> tables client" where
  "client_at s n = client_of (f_data s) (f_conn s n)"

text \<open>The fleet after process \<open>n\<close> used its client, and is in another phase.\<close>

definition at :: "fleet \<Rightarrow> nat \<Rightarrow> tables client \<times> phase \<Rightarrow> string list \<Rightarrow> fleet" where
  "at s n x l = s\<lparr>f_data := db_data (fst x), f_conn := (f_conn s)(n := connection_of (fst x)),
     f_phase := (f_phase s)(n := snd x), f_told := l\<rparr>"

definition locked_out :: "fleet \<Rightarrow> nat \<Rightarrow> bool" where
  "locked_out s n \<longleftrightarrow> (\<exists>m. m \<noteq> n \<and> cn_pending (f_conn s m) \<noteq> None)"

text \<open>While another process holds the write lock, a call changes nothing and leaves nothing pending.\<close>

definition allowed :: "fleet \<Rightarrow> nat \<Rightarrow> tables client \<Rightarrow> bool" where
  "allowed s n c \<longleftrightarrow> (locked_out s n \<longrightarrow> db_data c = f_data s \<and> pending (r_state (server c)) = None)"

text \<open>The calls the API makes.\<close>

fun api_call :: "job_call \<Rightarrow> bool" where
  "api_call (CreateJob ts jid dk fh url ranges llm) = True"
| "api_call (GetJob jid) = True"
| "api_call (FindCachedDocument dk) = True"
| "api_call _ = False"

text \<open>\<open>f_told\<close> is the history of the completions that were told to assemble.\<close>

fun told_by :: "phase \<Rightarrow> string list" where
  "told_by (Told jid) = [jid]"
| "told_by _ = []"

inductive fleet_step :: "settings \<Rightarrow> (nat \<Rightarrow> string) \<Rightarrow> nat \<Rightarrow> fleet \<Rightarrow> fleet \<Rightarrow> bool" for cfg owner n where
  call: "call_step cfg (owner n) ts (f_phase s n) (client_at s n) = (Inr p, c) \<Longrightarrow> allowed s n c \<Longrightarrow>
    fleet_step cfg owner n s (at s n (c, p) (told_by p @ f_told s))"
| raises: "call_step cfg (owner n) ts (f_phase s n) (client_at s n) = (Inl e, c) \<Longrightarrow> allowed s n c \<Longrightarrow>
    fleet_step cfg owner n s (at s n (c, Idle) (f_told s))"
| between: "local_step cfg (f_phase s n) p \<Longrightarrow> fleet_step cfg owner n s (s\<lparr>f_phase := (f_phase s)(n := p)\<rparr>)"
| dies: "cn_pending c = None \<Longrightarrow>
    fleet_step cfg owner n s (s\<lparr>f_conn := (f_conn s)(n := c), f_phase := (f_phase s)(n := Idle)\<rparr>)"
| api: "f_phase s n = Idle \<Longrightarrow> api_call op \<Longrightarrow> run_call cfg op (client_at s n) = (r, c) \<Longrightarrow> allowed s n c \<Longrightarrow>
    fleet_step cfg owner n s (at s n (c, Idle) (f_told s))"

abbreviation fleet_path :: "settings \<Rightarrow> (nat \<Rightarrow> string) \<Rightarrow> fleet \<Rightarrow> fleet \<Rightarrow> bool" where
  "fleet_path cfg owner \<equiv> (\<lambda>s s'. \<exists>n. fleet_step cfg owner n s s')\<^sup>*\<^sup>*"

lemma client_connection [simp]: "client_of (db_data c) (connection_of c) = c"
  by (simp add: client_of_def connection_of_def)

lemma connection_client [simp]: "connection_of (client_of d c) = c"
  by (simp add: client_of_def connection_of_def)

lemma client_data [simp]: "db_data (client_of d c) = d"
  by (simp add: client_of_def)

lemma client_at_at [simp]: "client_at (at s n x l) n = fst x"
  by (simp add: client_at_def at_def)

lemma at_at [simp]: "at (at s n x l) n y l' = at s n y l'"
  by (simp add: at_def)

lemma at_client: "f_phase s n = p \<Longrightarrow> at s n (client_at s n, p) (f_told s) = s"
  by (cases s) (auto simp: at_def client_at_def)

lemma at_parts [simp]: "f_phase (at s n x l) = (f_phase s)(n := snd x)" "f_told (at s n x l) = l"
  by (simp_all add: at_def)

lemma locked_out_at [simp]: "locked_out (at s n x l) n = locked_out s n"
  by (auto simp: locked_out_def at_def)

subsection \<open>The invariant\<close>

fun assembling :: "string \<Rightarrow> phase \<Rightarrow> bool" where
  "assembling jid (Told i) = (i = jid)"
| "assembling jid (Listing i j) = (i = jid)"
| "assembling jid (Writing i j indices) = (i = jid)"
| "assembling jid (Recording i j pages len) = (i = jid)"
| "assembling jid (Closing i j) = (i = jid)"
| "assembling jid (Broken i e) = (i = jid)"
| "assembling jid _ = False"

text \<open>The row an assembler works on is the row of the job it was told to assemble.\<close>

fun own_row :: "phase \<Rightarrow> bool" where
  "own_row (Listing jid j) = (j_job_id j = jid)"
| "own_row (Writing jid j indices) = (j_job_id j = jid)"
| "own_row (Recording jid j pages len) = (j_job_id j = jid)"
| "own_row (Closing jid j) = (j_job_id j = jid)"
| "own_row _ = True"

definition done_in :: "string set \<Rightarrow> tables \<Rightarrow> bool" where
  "done_in A t \<longleftrightarrow> (\<forall>j \<in> set (jobs t). j_status j = Done \<longrightarrow> j_job_id j \<in> A)"

text \<open>What every process has of the data, its own pending changes included, satisfies \<open>P\<close>.\<close>

definition fleet_data :: "(tables \<Rightarrow> bool) \<Rightarrow> fleet \<Rightarrow> bool" where
  "fleet_data P s \<longleftrightarrow> (\<forall>n. all_data P (client_at s n))"

lemma fleet_dataD: "fleet_data P s \<Longrightarrow> all_data P (client_at s n)" "fleet_data P s \<Longrightarrow> P (f_data s)"
  by (auto simp: fleet_data_def all_data_def client_at_def Let_def)

text \<open>A step of one process keeps it for all: nobody else holds changes based on other data.\<close>

lemma fleet_data_at:
  assumes P: "fleet_data P s" and c: "all_data P c" and "allowed s n c"
  shows "fleet_data P (at s n (c, p) l)"
  unfolding fleet_data_def
proof
  fix m
  show "all_data P (client_at (at s n (c, p) l) m)"
  proof (cases "m = n")
    case False
    then have eq: "client_at (at s n (c, p) l) m = client_of (db_data c) (f_conn s m)" by (simp add: client_at_def at_def)
    show ?thesis
    proof (cases "cn_pending (f_conn s m)")
      case None
      then show ?thesis using c unfolding eq by (simp add: all_data_def client_of_def visible_def Let_def)
    next
      case (Some d)
      then have "db_data c = f_data s" using assms(3) False by (auto simp: allowed_def locked_out_def)
      then show ?thesis using fleet_dataD(1) [OF P, of m] unfolding eq by (simp add: client_at_def)
    qed
  qed (use c in simp)
qed

lemma fleet_data_phase [simp]: "fleet_data P (s\<lparr>f_phase := ph\<rparr>) = fleet_data P s"
  by (simp add: fleet_data_def client_at_def)

lemma fleet_data_dies:
  "fleet_data P s \<Longrightarrow> cn_pending c = None \<Longrightarrow> fleet_data P (s\<lparr>f_conn := (f_conn s)(n := c), f_phase := ph\<rparr>)"
  using fleet_dataD(2) [of P s]
  by (auto simp: fleet_data_def client_at_def client_of_def all_data_def visible_def Let_def)

text \<open>At most one process has an open transaction.\<close>

definition one_writer :: "fleet \<Rightarrow> bool" where
  "one_writer s \<longleftrightarrow> (\<forall>m n. cn_pending (f_conn s m) \<noteq> None \<longrightarrow> cn_pending (f_conn s n) \<noteq> None \<longrightarrow> m = n)"

lemma one_writer_at: "one_writer s \<Longrightarrow> allowed s n c \<Longrightarrow> one_writer (at s n (c, p) l)"
  by (auto simp: one_writer_def allowed_def locked_out_def at_def connection_of_def split: if_splits)

lemma one_writer_dies: "one_writer s \<Longrightarrow> cn_pending c = None \<Longrightarrow> one_writer (s\<lparr>f_conn := (f_conn s)(n := c), f_phase := ph\<rparr>)"
  by (auto simp: one_writer_def)

lemma one_writer_phase [simp]: "one_writer (s\<lparr>f_phase := ph\<rparr>) = one_writer s"
  by (simp add: one_writer_def)

text \<open>A property that the data did not have and a call established holds for everyone.\<close>

lemma fleet_data_new:
  assumes "one_writer s" "all_data P c" "\<not> all_data P (client_at s n)" "allowed s n c"
  shows "fleet_data P (at s n (c, p) l)"
proof -
  have "\<not> locked_out s n"
  proof
    assume lock: "locked_out s n"
    then have "db_data c = f_data s" using assms(4) by (simp add: allowed_def)
    moreover have "cn_pending (f_conn s n) = None" using lock assms(1) unfolding locked_out_def one_writer_def by blast
    ultimately show False using assms(2,3)
      by (auto simp: all_data_def client_at_def client_of_def visible_def Let_def)
  qed
  then have "cn_pending (f_conn s m) = None" if "m \<noteq> n" for m using that by (auto simp: locked_out_def)
  then show ?thesis using assms(2)
    by (auto simp: fleet_data_def client_at_def at_def all_data_def client_of_def connection_of_def visible_def Let_def
        split: option.splits)
qed

definition fleet_inv :: "fleet \<Rightarrow> bool" where
  "fleet_inv s \<longleftrightarrow> fleet_data tables_wf s \<and> distinct (f_told s) \<and>
     (\<forall>jid \<in> set (f_told s). fleet_data (counted jid 0) s) \<and>
     fleet_data (done_in (set (f_told s))) s \<and>
     (\<forall>n. own_row (f_phase s n)) \<and>
     (\<forall>n jid. assembling jid (f_phase s n) \<longrightarrow> jid \<in> set (f_told s)) \<and>
     (\<forall>m n jid. assembling jid (f_phase s m) \<longrightarrow> assembling jid (f_phase s n) \<longrightarrow> m = n) \<and> one_writer s"

lemma local_step_frame:
  "local_step cfg p q \<Longrightarrow> own_row p \<Longrightarrow> own_row q \<and> (assembling jid q \<longrightarrow> assembling jid p)"
  by (induction rule: local_step.induct) auto

lemma keeps_call_step: "module_keeps P \<Longrightarrow> keeps (all_data P) (call_step cfg owner ts p)"
  using module_env_keeps [of P cfg]
  by (cases p) (auto simp: module_keeps_def create_job_def start_chunk_def reschedule_chunk_def
      fail_chunk_def fail_job_def finish_job_def record_document_def get_job_def chunk_indices_def
      complete_chunk_def intro!: keeps_intros keeps_complete_block split: option.split)

lemma done_in_mono: "A \<subseteq> B \<Longrightarrow> all_data (done_in A) c \<Longrightarrow> all_data (done_in B) c"
  by (auto simp: all_data_def done_in_def Let_def)

lemma done_in_chunks:
  "(\<And>t cur eff t'. st t = Inr (cur, eff, t') \<Longrightarrow> jobs t' = jobs t) \<Longrightarrow> stmt_keeps (done_in A) st"
  by (auto simp: stmt_keeps_def done_in_def)

lemma done_in_update_jobs:
  assumes "\<And>j. p j \<Longrightarrow> j_status (f j) = Done \<Longrightarrow> j_job_id (f j) \<in> A"
  shows "stmt_keeps (done_in A) (update_jobs p f)"
  using assms by (auto simp: stmt_keeps_def done_in_def update_jobs_def set_update_where)

lemma done_in_stmts [simp]:
  "stmt_keeps (done_in A) (ddl sql)"
  "stmt_keeps (done_in A) (insert_job (new_job_row ts jid dk fh url n llm) :: (tables, unit) stmt)"
  "stmt_keeps (done_in A) (insert_chunk mk :: (tables, unit) stmt)"
  "stmt_keeps (done_in A) (replace_document r :: (tables, unit) stmt)"
  "stmt_keeps (done_in A) (fail_job_stmt ts jid err ci)"
  "stmt_keeps (done_in A) (start_job_stmt ts jid)"
  "stmt_keeps (done_in A) (start_chunk_stmt ts jid i owner att)"
  "stmt_keeps (done_in A) (fail_chunk_stmt ts jid i err)"
  "stmt_keeps (done_in A) (reschedule_chunk_stmt ts jid i err)"
  "stmt_keeps (done_in A) (complete_chunk_stmt ts jid i key)"
  "stmt_keeps (done_in A) (decrement_stmt ts jid)"
  unfolding chunk_stmts decrement_stmt_def fail_job_stmt_def start_job_stmt_def
  by (auto simp: ddl_def insert_job_def insert_chunk_def replace_document_def update_chunks_def Let_def
      update_jobs_def update_jobs_returning_def set_update_where new_job_row_def done_in_def stmt_keeps_def
      split: if_splits option.splits)

lemma done_in_finish [simp]: "jid \<in> A \<Longrightarrow> stmt_keeps (done_in A) (finish_job_stmt ts jid)"
  unfolding finish_job_stmt_def by (rule done_in_update_jobs) simp

lemma env_keeps_done_in [simp]: "env_keeps (done_in A) (job_env cfg)"
  by (simp add: env_keeps_def)

lemma complete_block_done_in: "keeps (all_data (done_in A)) (complete_block ts jid i key)"
  unfolding complete_block_def by (intro keeps_intros) simp_all

lemma call_step_done_in:
  assumes "own_row p" "\<And>jid. assembling jid p \<Longrightarrow> jid \<in> A"
  shows "keeps (all_data (done_in A)) (call_step cfg owner ts p)"
  using assms complete_block_done_in
  by (cases p) (auto simp: start_chunk_def reschedule_chunk_def
      fail_chunk_def fail_job_def finish_job_def record_document_def get_job_def chunk_indices_def
      complete_chunk_def intro!: keeps_intros split: option.split)

lemma api_call_done_in: "api_call op \<Longrightarrow> keeps (all_data (done_in A)) (run_call cfg op)"
  by (cases op) (auto simp: create_job_def find_cached_document_def get_job_def intro!: keeps_intros)

subsection \<open>Every interleaving keeps it\<close>

lemma get_job_row: "get_job cfg jid c = (Inr (Some j), c') \<Longrightarrow> j_job_id j = jid"
proof -
  assume "get_job cfg jid c = (Inr (Some j), c')"
  then obtain rows where rows: "query (job_env cfg) (select star (\<lambda>t. filter (\<lambda>j. j_job_id j = jid) (jobs t))) c
      = (Inr rows, c')" and "Some j = (case rows of [] \<Rightarrow> None | row # _ \<Rightarrow> Some row)"
    unfolding get_job_def query_one_def io_ok by blast
  then have "j \<in> set rows" by (cases rows) simp_all
  with query_rows [OF rows] show ?thesis by auto
qed

lemma call_step_next:
  assumes "call_step cfg owner ts p c = (Inr q, c')" "own_row p"
  shows "own_row q" "assembling jid q \<Longrightarrow> assembling jid p \<or> q = Told jid"
    "q = Told jid \<Longrightarrow> \<exists>i key. complete_chunk cfg ts jid i key c = (Inr 0, c')"
  using assms
  by (cases p; auto simp: io_ok catch_def ret_def throw_def bindE_def thenE_def dest: get_job_row
      split: prod.splits sum.splits option.splits if_splits)+

lemma fleet_invI:
  assumes "fleet_data tables_wf s" "distinct (f_told s)"
    "\<And>jid. jid \<in> set (f_told s) \<Longrightarrow> fleet_data (counted jid 0) s"
    "fleet_data (done_in (set (f_told s))) s" "\<And>n. own_row (f_phase s n)"
    "\<And>n jid. assembling jid (f_phase s n) \<Longrightarrow> jid \<in> set (f_told s)"
    "\<And>m n jid. assembling jid (f_phase s m) \<Longrightarrow> assembling jid (f_phase s n) \<Longrightarrow> m = n" "one_writer s"
  shows "fleet_inv s"
  unfolding fleet_inv_def using assms by blast

lemma fleet_invD:
  assumes "fleet_inv s"
  shows "fleet_data tables_wf s" "distinct (f_told s)"
    "jid \<in> set (f_told s) \<Longrightarrow> fleet_data (counted jid 0) s"
    "fleet_data (done_in (set (f_told s))) s" "own_row (f_phase s n)"
    "assembling jid (f_phase s n) \<Longrightarrow> jid \<in> set (f_told s)"
    "assembling jid (f_phase s m) \<Longrightarrow> assembling jid (f_phase s n) \<Longrightarrow> m = n" "one_writer s"
  using assms unfolding fleet_inv_def by blast+

text \<open>A step of one process that tells nobody to assemble.\<close>

lemma fleet_inv_quiet:
  assumes inv: "fleet_inv s" and row: "own_row p"
    and asm: "\<And>jid. assembling jid p \<Longrightarrow> assembling jid (f_phase s n)"
    and s': "f_phase s' = (f_phase s)(n := p)" "f_told s' = f_told s"
    and data: "fleet_data tables_wf s'" "\<And>jid. jid \<in> set (f_told s) \<Longrightarrow> fleet_data (counted jid 0) s'"
      "fleet_data (done_in (set (f_told s))) s'" "one_writer s'"
  shows "fleet_inv s'"
proof -
  have old: "assembling jid (f_phase s k)" if "assembling jid (f_phase s' k)" for jid k
    using that asm by (cases "k = n") (auto simp: s')
  show ?thesis
  proof (rule fleet_invI)
    fix k l jid
    show "own_row (f_phase s' k)" using row fleet_invD(5) [OF inv] by (simp add: s')
    show "jid \<in> set (f_told s')" if "assembling jid (f_phase s' k)"
      using fleet_invD(6) [OF inv old] that by (simp add: s')
    show "k = l" if "assembling jid (f_phase s' k)" "assembling jid (f_phase s' l)"
      using fleet_invD(7) [OF inv old old, of jid k l] that by simp
  qed (use data fleet_invD(2) [OF inv] in \<open>simp_all add: s'\<close>)
qed

lemma fleet_inv_told:
  assumes inv: "fleet_inv s" and new: "jid \<notin> set (f_told s)"
    and s': "f_phase s' = (f_phase s)(n := Told jid)" "f_told s' = jid # f_told s"
    and data: "fleet_data tables_wf s'" "\<And>i. i \<in> insert jid (set (f_told s)) \<Longrightarrow> fleet_data (counted i 0) s'"
      "fleet_data (done_in (set (f_told s))) s'" "one_writer s'"
  shows "fleet_inv s'"
proof -
  have asm: "assembling i (f_phase s k) \<and> i \<noteq> jid \<or> i = jid \<and> k = n" if "assembling i (f_phase s' k)" for i k
    using that new fleet_invD(6) [OF inv, of i k] by (cases "k = n") (auto simp: s')
  show ?thesis
  proof (rule fleet_invI)
    fix k l i
    show "own_row (f_phase s' k)" using fleet_invD(5) [OF inv] by (simp add: s')
    show "i \<in> set (f_told s')" if "assembling i (f_phase s' k)"
      using asm [OF that] fleet_invD(6) [OF inv, of i k] by (auto simp: s')
    show "k = l" if "assembling i (f_phase s' k)" "assembling i (f_phase s' l)"
      using asm [OF that(1)] asm [OF that(2)] fleet_invD(7) [OF inv, of i k l] by auto
    show "fleet_data (done_in (set (f_told s'))) s'"
      using data(3) done_in_mono [of "set (f_told s)" "set (f_told s')"] by (auto simp: fleet_data_def s')
  qed (use data new fleet_invD(2) [OF inv] in \<open>auto simp: s'\<close>)
qed

text \<open>What a call of a process keeps of the data.\<close>

lemma keeps_fleet_data:
  assumes "keeps (all_data P) m" "m (client_at s n) = (r, c)" "fleet_data P s" "allowed s n c"
  shows "fleet_data P (at s n (c, p) l)"
  using keepsD [OF assms(1) fleet_dataD(1) [OF assms(3)], of n] assms(2,4) by (intro fleet_data_at [OF assms(3)]) simp_all

lemma fleet_inv_data:
  assumes inv: "fleet_inv s" and run: "call_step cfg owner ts (f_phase s n) (client_at s n) = (r, c)" "allowed s n c"
  shows "fleet_data tables_wf (at s n (c, p) l)" "jid \<in> set (f_told s) \<Longrightarrow> fleet_data (counted jid 0) (at s n (c, p) l)"
    "fleet_data (done_in (set (f_told s))) (at s n (c, p) l)"
proof -
  note D = fleet_invD [OF inv]
  show "fleet_data tables_wf (at s n (c, p) l)"
    by (rule keeps_fleet_data [OF keeps_call_step [OF module_keeps_wf] run(1) D(1) run(2)])
  show "fleet_data (counted jid 0) (at s n (c, p) l)" if "jid \<in> set (f_told s)"
    by (rule keeps_fleet_data [OF keeps_call_step [OF module_keeps_counted] run(1) D(3) [OF that] run(2)])
  have "keeps (all_data (done_in (set (f_told s)))) (call_step cfg owner ts (f_phase s n))"
    using D(5,6) by (rule call_step_done_in)
  from keeps_fleet_data [OF this run(1) D(4) run(2)] show "fleet_data (done_in (set (f_told s))) (at s n (c, p) l)" .
qed

lemma fleet_inv_call:
  assumes inv: "fleet_inv s" and run: "call_step cfg owner ts (f_phase s n) (client_at s n) = (Inr p, c)" "allowed s n c"
  shows "fleet_inv (at s n (c, p) (told_by p @ f_told s))"
proof -
  note following = call_step_next [OF run(1) fleet_invD(5) [OF inv]] and data = fleet_inv_data [OF inv run]
  note writer = one_writer_at [OF fleet_invD(8) [OF inv] run(2)]
  show ?thesis
  proof (cases "\<exists>jid. p = Told jid")
    case True
    then obtain jid i key where p: "p = Told jid" and zero: "complete_chunk cfg ts jid i key (client_at s n) = (Inr 0, c)"
      using following(3) by blast
    note told = complete_chunk_zero [OF fleet_dataD(1) [OF fleet_invD(1) [OF inv]] zero]
    have new: "jid \<notin> set (f_told s)" using told(2) fleet_dataD(1) [OF fleet_invD(3) [OF inv], of jid n] by blast
    have "fleet_data (counted i 0) (at s n (c, p) l)" if "i \<in> insert jid (set (f_told s))" for i l
      using that data(2) fleet_data_new [OF fleet_invD(8) [OF inv] told run(2)] by (auto simp: p)
    then show ?thesis using fleet_inv_told [OF inv new _ _ data(1) _ data(3) writer] by (simp add: p)
  next
    case False
    then have "told_by p = []" by (cases p) auto
    moreover have "assembling jid p \<Longrightarrow> assembling jid (f_phase s n)" for jid using following(2) False by blast
    ultimately show ?thesis using fleet_inv_quiet [OF inv following(1) _ _ _ data writer, of n] by simp
  qed
qed

lemma fleet_inv_api:
  assumes inv: "fleet_inv s" and api: "api_call op" "f_phase s n = Idle"
    and run: "run_call cfg op (client_at s n) = (r, c)" "allowed s n c"
  shows "fleet_inv (at s n (c, Idle) (f_told s))"
proof -
  note D = fleet_invD [OF inv]
  show ?thesis
  proof (rule fleet_inv_quiet [OF inv, of Idle])
    show "fleet_data tables_wf (at s n (c, Idle) (f_told s))"
      by (rule keeps_fleet_data [OF keeps_run_call [OF module_keeps_wf] run(1) D(1) run(2)])
    show "fleet_data (counted jid 0) (at s n (c, Idle) (f_told s))" if "jid \<in> set (f_told s)" for jid
      by (rule keeps_fleet_data [OF keeps_run_call [OF module_keeps_counted] run(1) D(3) [OF that] run(2)])
    show "fleet_data (done_in (set (f_told s))) (at s n (c, Idle) (f_told s))"
      by (rule keeps_fleet_data [OF api_call_done_in [OF api(1)] run(1) D(4) run(2)])
  qed (use one_writer_at [OF D(8) run(2)] in auto)
qed

lemma fleet_inv_step:
  assumes "fleet_step cfg owner n s s'" and inv: "fleet_inv s"
  shows "fleet_inv s'"
  using assms(1)
proof (cases rule: fleet_step.cases)
  case (call ts p c)
  then show ?thesis using fleet_inv_call [OF inv] by simp
next
  case (raises ts e c)
  show ?thesis unfolding raises(1)
    by (rule fleet_inv_quiet [OF inv, of Idle n]) (use fleet_inv_data [OF inv raises(2,3)] one_writer_at [OF fleet_invD(8) [OF inv] raises(3)] in auto)
next
  case (between p)
  show ?thesis
    by (rule fleet_inv_quiet [OF inv, of p n])
      (use local_step_frame [OF between(2) fleet_invD(5) [OF inv]] fleet_invD(1,3,4,8) [OF inv] in \<open>auto simp: between(1)\<close>)
next
  case (dies c)
  show ?thesis unfolding dies(1)
    by (rule fleet_inv_quiet [OF inv, of Idle n]) (use fleet_data_dies [OF _ dies(2)] one_writer_dies [OF _ dies(2)] fleet_invD(1,3,4,8) [OF inv] in auto)
next
  case (api op r c)
  then show ?thesis using fleet_inv_api [OF inv] by simp
qed

subsection \<open>One run of the handler is a path of its worker\<close>

definition runs ::
  "settings \<Rightarrow> (nat \<Rightarrow> string) \<Rightarrow> fleet \<Rightarrow> nat \<Rightarrow> tables client \<times> phase \<Rightarrow> tables client \<times> phase \<Rightarrow> bool" where
  "runs cfg owner s n x y \<longleftrightarrow>
     (\<not> locked_out s n \<longrightarrow> (\<forall>l. \<exists>l'. (fleet_step cfg owner n)\<^sup>*\<^sup>* (at s n x l) (at s n y l')))"

lemma runs_refl: "runs cfg owner s n x x"
  unfolding runs_def by blast

lemma runs_step:
  assumes "\<And>l. \<not> locked_out s n \<Longrightarrow> \<exists>l'. fleet_step cfg owner n (at s n x l) (at s n y l')" "runs cfg owner s n y z"
  shows "runs cfg owner s n x z"
  using assms unfolding runs_def by (meson converse_rtranclp_into_rtranclp)

lemma runs_trans: "runs cfg owner s n x y \<Longrightarrow> runs cfg owner s n y z \<Longrightarrow> runs cfg owner s n x z"
  unfolding runs_def by (meson rtranclp_trans)

lemma allowed_at: "\<not> locked_out s n \<Longrightarrow> allowed (at s n x l) n c"
  by (simp add: allowed_def)

lemma at_call:
  "\<not> locked_out s n \<Longrightarrow> call_step cfg (owner n) ts p c = (Inr q, c') \<Longrightarrow>
   fleet_step cfg owner n (at s n (c, p) l) (at s n (c', q) (told_by q @ l))"
  using fleet_step.call [of cfg owner n ts "at s n (c, p) l" q c'] allowed_at by simp

lemma at_raises:
  "\<not> locked_out s n \<Longrightarrow> call_step cfg (owner n) ts p c = (Inl e, c') \<Longrightarrow>
   fleet_step cfg owner n (at s n (c, p) l) (at s n (c', Idle) l)"
  using fleet_step.raises [of cfg owner n ts "at s n (c, p) l" e c'] allowed_at by simp

lemma at_local: "local_step cfg p q \<Longrightarrow> fleet_step cfg owner n (at s n (c, p) l) (at s n (c, q) l)"
  using fleet_step.between [of cfg "at s n (c, p) l" n q owner] by (cases s) (simp add: at_def)

lemma runs_call:
  "call_step cfg (owner n) ts p db = (Inr q, db') \<Longrightarrow> runs cfg owner s n (db', q) z \<Longrightarrow> runs cfg owner s n (db, p) z"
  using runs_step at_call by blast

lemma runs_raises: "call_step cfg (owner n) ts p db = (Inl e, db') \<Longrightarrow> runs cfg owner s n (db, p) (db', Idle)"
  using runs_step [OF _ runs_refl] at_raises by blast

lemma runs_local: "local_step cfg p q \<Longrightarrow> runs cfg owner s n (db, q) z \<Longrightarrow> runs cfg owner s n (db, p) z"
  using runs_step at_local by blast

text \<open>The parts of the handler that leave the database alone.\<close>

definition off_db :: "(('q, 'o) world, 'a) io \<Rightarrow> bool" where
  "off_db m \<longleftrightarrow> (\<forall>db. keeps (\<lambda>w. w_db w = db) m)"

lemma off_dbD: "off_db m \<Longrightarrow> m w = (r, w') \<Longrightarrow> w_db w' = w_db w"
  unfolding off_db_def keeps_def by (metis snd_conv)

lemma off_db_s3: "off_db (on_s3 f)"
  and off_db_mq: "off_db (on_mq g)"
  and off_db_disk: "off_db (on_disk h)"
  and off_db_s3_disk: "off_db (on_s3_disk k)"
  and off_db_now: "off_db now"
  and off_db_ret: "off_db (ret x)"
  and off_db_throw: "off_db (throw e)"
  and off_db_read: "off_db (\<lambda>w. (v w, w))"
  and off_db_convert: "off_db (convert_on_disk D path llm)"
  by (auto simp: off_db_def keeps_def now_def ret_def throw_def convert_on_disk_def)

lemma off_db_bindE: "off_db m \<Longrightarrow> (\<And>x. off_db (f x)) \<Longrightarrow> off_db (bindE m f)"
  unfolding off_db_def by (blast intro: keeps_intros)

lemma off_db_thenE: "off_db m \<Longrightarrow> off_db k \<Longrightarrow> off_db (thenE m k)"
  unfolding thenE_def by (rule off_db_bindE)

lemma off_db_catch: "off_db m \<Longrightarrow> (\<And>e. off_db (h e)) \<Longrightarrow> off_db (catch m h)"
  unfolding off_db_def by (blast intro: keeps_intros)

lemma off_db_finallyE: "off_db m \<Longrightarrow> off_db k \<Longrightarrow> off_db (finallyE m k)"
  unfolding off_db_def by (blast intro: keeps_intros)

lemma off_db_if: "(b \<Longrightarrow> off_db m) \<Longrightarrow> (\<not> b \<Longrightarrow> off_db k) \<Longrightarrow> off_db (if b then m else k)"
  by simp

lemmas off_db_intros = off_db_bindE off_db_thenE off_db_catch off_db_finallyE off_db_if
  off_db_s3 off_db_mq off_db_disk off_db_s3_disk off_db_now off_db_ret off_db_throw off_db_read off_db_convert

lemma off_db_fetch_source: "off_db (fetch_source D fh)"
  unfolding fetch_source_def store_source_def Let_def by (intro off_db_intros)

lemma off_db_convert_range: "off_db (convert_range D fh a b llm)"
  unfolding convert_range_def by (intro off_db_intros off_db_fetch_source)

lemma off_db_collect_parts: "off_db (collect_parts D dk ixs)"
  by (induction ixs) (auto intro!: off_db_intros split: option.split)

text \<open>
  \<open>sim \<dots> p m Q\<close>: whatever the outcome \<open>r\<close> of \<open>m\<close>, it takes the worker from phase \<open>p\<close> to phase
  \<open>Q r\<close> by steps of the fleet that make the same database calls.
\<close>

definition sim :: "settings \<Rightarrow> (nat \<Rightarrow> string) \<Rightarrow> fleet \<Rightarrow> nat \<Rightarrow> phase \<Rightarrow> (('q, 'o) world, 'a) io \<Rightarrow>
    (exn + 'a \<Rightarrow> phase) \<Rightarrow> bool" where
  "sim cfg owner s n p m Q \<longleftrightarrow>
     (\<forall>w r w'. m w = (r, w') \<longrightarrow> runs cfg owner s n (w_db w, p) (w_db w', Q r))"

lemma sim_off:
  assumes "off_db m" "\<And>r. Q r = p \<or> local_step cfg p (Q r)"
  shows "sim cfg owner s n p m Q"
  unfolding sim_def
proof (intro allI impI)
  fix w r w' assume "m w = (r, w')"
  then show "runs cfg owner s n (w_db w, p) (w_db w', Q r)"
    using off_dbD [OF assms(1)] assms(2) [of r] runs_local [OF _ runs_refl] runs_refl by metis
qed

text \<open>A database call in the world, at the time the clock showed.\<close>

definition db_call :: "(('q, 'o) world, 'a) io \<Rightarrow> (int \<Rightarrow> (tables client, 'a) io) \<Rightarrow> bool" where
  "db_call m f \<longleftrightarrow> (\<forall>w r w'. m w = (r, w') \<longrightarrow> (\<exists>ts. f ts (w_db w) = (r, w_db w')))"

lemma db_call_timed: "db_call (timed f) f"
  by (auto simp: db_call_def timed_def bindE_def now_def on_db_def split: prod.splits)

lemma db_call_on_db: "db_call (on_db f) (\<lambda>_. f)"
  by (auto simp: db_call_def on_db_def split: prod.splits)

lemma sim_call:
  assumes m: "db_call m f" and step: "\<And>ts. call_step cfg (owner n) ts p = bindE (f ts) (\<lambda>x. ret (g x))"
    and Q: "\<And>e. Q (Inl e) = Idle" "\<And>x. Q (Inr x) = g x"
  shows "sim cfg owner s n p m Q"
  unfolding sim_def
proof (intro allI impI)
  fix w r w' assume "m w = (r, w')"
  then obtain ts where "f ts (w_db w) = (r, w_db w')" using m unfolding db_call_def by blast
  then show "runs cfg owner s n (w_db w, p) (w_db w', Q r)"
    using runs_raises [of cfg owner n ts p "w_db w" _ "w_db w'" s]
      runs_call [of cfg owner n ts p "w_db w" _ "w_db w'" s, OF _ runs_refl] step Q
    by (cases r) (simp_all add: io_run io_raise ret_def)
qed

lemma sim_caught:
  assumes m: "db_call m f"
    and step: "\<And>ts. call_step cfg (owner n) ts p = catch (bindE (f ts) (\<lambda>x. ret (g x))) (\<lambda>e. ret (h e))"
    and Q: "\<And>e. Q (Inl e) = h e" "\<And>x. Q (Inr x) = g x"
  shows "sim cfg owner s n p m Q"
  unfolding sim_def
proof (intro allI impI)
  fix w r w' assume "m w = (r, w')"
  then obtain ts where "f ts (w_db w) = (r, w_db w')" using m unfolding db_call_def by blast
  then show "runs cfg owner s n (w_db w, p) (w_db w', Q r)"
    using runs_call [of cfg owner n ts p "w_db w" _ "w_db w'" s, OF _ runs_refl] step Q
    by (cases r) (simp_all add: io_run io_raise ret_def catch_def)
qed

lemma sim_bindE:
  assumes "sim cfg owner s n p m R" "\<And>x. sim cfg owner s n (R (Inr x)) (f x) Q" "\<And>e. R (Inl e) = Q (Inl e)"
  shows "sim cfg owner s n p (bindE m f) Q"
  unfolding sim_def
proof (intro allI impI)
  fix w r w' assume run: "bindE m f w = (r, w')"
  obtain r1 w1 where m: "m w = (r1, w1)" by fastforce
  with assms(1) have first: "runs cfg owner s n (w_db w, p) (w_db w1, R r1)" by (auto simp: sim_def)
  show "runs cfg owner s n (w_db w, p) (w_db w', Q r)"
  proof (cases r1)
    case (Inl e)
    with run m first assms(3) show ?thesis by (simp add: bindE_raise)
  next
    case (Inr x)
    with run m assms(2) have "runs cfg owner s n (w_db w1, R (Inr x)) (w_db w', Q r)" by (simp add: bindE_run sim_def)
    with first Inr show ?thesis by (simp add: runs_trans)
  qed
qed

lemma sim_thenE:
  "sim cfg owner s n p m R \<Longrightarrow> (\<And>x. sim cfg owner s n (R (Inr x)) k Q) \<Longrightarrow> (\<And>e. R (Inl e) = Q (Inl e)) \<Longrightarrow>
   sim cfg owner s n p (thenE m k) Q"
  unfolding thenE_def by (rule sim_bindE)

lemma sim_try_else:
  assumes "sim cfg owner s n p m R" "\<And>x. sim cfg owner s n (R (Inr x)) (f x) Q"
    "\<And>e. sim cfg owner s n (R (Inl e)) (h e) Q"
  shows "sim cfg owner s n p (try_else m h f) Q"
  unfolding sim_def
proof (intro allI impI)
  fix w r w' assume run: "try_else m h f w = (r, w')"
  obtain r1 w1 where m: "m w = (r1, w1)" by fastforce
  with assms(1) have "runs cfg owner s n (w_db w, p) (w_db w1, R r1)" by (auto simp: sim_def)
  moreover have "runs cfg owner s n (w_db w1, R r1) (w_db w', Q r)"
    using run m assms(2,3) by (cases r1) (auto simp: try_else_def sim_def)
  ultimately show "runs cfg owner s n (w_db w, p) (w_db w', Q r)" by (rule runs_trans)
qed

lemma sim_ret: "Q (Inr x) = p \<Longrightarrow> sim cfg owner s n p (ret x) Q"
  by (simp add: sim_def ret_def runs_refl)

lemma catch_try_else: "catch m h = try_else m h ret"
  by (auto simp: fun_eq_iff io_simps split: prod.splits sum.splits)

lemma sim_catch:
  "sim cfg owner s n p m R \<Longrightarrow> (\<And>x. R (Inr x) = Q (Inr x)) \<Longrightarrow> (\<And>e. sim cfg owner s n (R (Inl e)) (h e) Q) \<Longrightarrow>
   sim cfg owner s n p (catch m h) Q"
  unfolding catch_try_else by (rule sim_try_else) (auto intro: sim_ret)

lemma sim_local: "local_step cfg p q \<Longrightarrow> sim cfg owner s n q m Q \<Longrightarrow> sim cfg owner s n p m Q"
  unfolding sim_def using runs_local by blast

lemma handle_failure_sim:
  fixes D :: "('p, 'q, 'o) deps"
  shows "sim (d_cfg D) owner s n (Converting t) (handle_failure D t e) (\<lambda>_. Idle)"
proof (cases "t_attempt t \<ge> MAX_ATTEMPTS (d_cfg D)")
  case True
  show ?thesis unfolding handle_failure_def Let_def if_P [OF True]
  proof (rule sim_thenE)
    show "sim (d_cfg D) owner s n (Converting t) (on_mq g) (case_sum (\<lambda>_. Idle) (\<lambda>_. Parked t e))"
      for g :: "('q mq, unit) io"
      by (rule sim_off [OF off_db_mq]) (simp add: local_step.intros True split: sum.split)
    show "sim (d_cfg D) owner s n (case_sum (\<lambda>_. Idle) (\<lambda>_. Parked t e) (Inr x :: exn + unit)) (thenE
        (timed (\<lambda>ts. fail_chunk (d_cfg D) ts (t_job_id t) (t_chunk_index t) (exn_name e @ '': '' @ exn_str e)))
        (timed (\<lambda>ts. fail_job (d_cfg D) ts (t_job_id t)
           (''chunk '' @ show_int (t_chunk_index t) @ '' failed after '' @
            show_int (t_attempt t) @ '' attempts: '' @ exn_str e) (Some (t_chunk_index t))))) (\<lambda>_. Idle)" for x
      by (rule sim_thenE [where R = "case_sum (\<lambda>_. Idle) (\<lambda>_. Condemning t e)"];
          (rule sim_call [OF db_call_timed])?; simp add: thenE_def)
  qed simp
next
  case False
  then have "local_step (d_cfg D) (Converting t) (Postponing t e)" by (simp add: local_step.postponed)
  then show ?thesis unfolding handle_failure_def Let_def if_not_P [OF False]
  proof (rule sim_local [OF _ sim_thenE])
    show "sim (d_cfg D) owner s n (Postponing t e) (timed (\<lambda>ts. reschedule_chunk (d_cfg D) ts (t_job_id t) (t_chunk_index t)
        (exn_name e @ '': '' @ exn_str e)) :: (('q, 'o) world, unit) io) (\<lambda>_. Idle)"
      by (rule sim_call [OF db_call_timed]) (simp_all add: thenE_def)
  qed (auto intro: sim_off off_db_mq local_step.gives_up)
qed

lemma store_pages_sim:
  fixes D :: "('p, 'q, 'o) deps"
  shows "sim (d_cfg D) owner s n (Recording jid j pages len)
     (thenE (timed (\<lambda>ts. record_document (d_cfg D) ts (j_doc_key j) (j_file_hash j) pages
               (j_total_chunks j) len (PAGE_SIZE (d_cfg D))))
        (timed (\<lambda>ts. finish_job (d_cfg D) ts (j_job_id j))) :: (('q, 'o) world, unit) io)
     (case_sum (Broken jid) (\<lambda>_. Idle))"
  by (rule sim_thenE [where R = "case_sum (Broken jid) (\<lambda>_. Closing jid j)"];
      (rule sim_caught [OF db_call_timed])?; simp add: thenE_def)

lemma assemble_sim:
  fixes D :: "('p, 'q, 'o) deps"
  shows "sim (d_cfg D) owner s n (Listing jid j) (assemble D j) (case_sum (Broken jid) (\<lambda>_. Idle))"
  unfolding assemble_def Let_def
proof (rule sim_bindE)
  show "sim (d_cfg D) owner s n (Listing jid j) (on_db (chunk_indices (d_cfg D) (j_job_id j)))
      (case_sum (Broken jid) (Writing jid j))"
    by (rule sim_caught [OF db_call_on_db]) simp_all
  fix ixs
  show "sim (d_cfg D) owner s n (case_sum (Broken jid) (Writing jid j) (Inr ixs)) (bindE (collect_parts D (j_doc_key j) ixs)
      (\<lambda>parts. case paginate (PAGE_SIZE (d_cfg D)) (join_parts parts) of
         None \<Rightarrow> throw (OtherError ''Hang'' ''paginate'')
       | Some pages \<Rightarrow> bindE (on_s3 (put_document (d_cfg D) (d_s3 D) (j_doc_key j) pages (int (length (join_parts parts)))))
          (\<lambda>_. thenE (timed (\<lambda>ts. record_document (d_cfg D) ts (j_doc_key j) (j_file_hash j) (int (length pages))
                 (j_total_chunks j) (int (length (join_parts parts))) (PAGE_SIZE (d_cfg D))))
                (timed (\<lambda>ts. finish_job (d_cfg D) ts (j_job_id j))))))
     (case_sum (Broken jid) (\<lambda>_. Idle))"
    (is "sim _ _ _ _ _ (bindE _ ?write) _")
  proof (rule sim_bindE)
    show "sim (d_cfg D) owner s n (case_sum (Broken jid) (Writing jid j) (Inr ixs)) (collect_parts D (j_doc_key j) ixs)
        (case_sum (Broken jid) (\<lambda>_. Writing jid j ixs))"
      by (rule sim_off [OF off_db_collect_parts]) (simp add: local_step.intros split: sum.split)
    fix parts
    show "sim (d_cfg D) owner s n (case_sum (Broken jid) (\<lambda>_. Writing jid j ixs) (Inr parts)) (?write parts)
        (case_sum (Broken jid) (\<lambda>_. Idle))"
    proof (cases "paginate (PAGE_SIZE (d_cfg D)) (join_parts parts)")
      case None
      then show ?thesis by (auto intro!: sim_off off_db_throw simp: local_step.intros split: sum.split)
    next
      case (Some pages)
      have "sim (d_cfg D) owner s n (Writing jid j ixs)
          (on_s3 (put_document (d_cfg D) (d_s3 D) (j_doc_key j) pages (int (length (join_parts parts)))))
          (case_sum (Broken jid) (\<lambda>_. Recording jid j (int (length pages)) (int (length (join_parts parts)))))"
        by (rule sim_off [OF off_db_s3]) (simp add: local_step.intros split: sum.split)
      from sim_bindE [OF this, of _ "case_sum (Broken jid) (\<lambda>_. Idle)"] Some show ?thesis
        using store_pages_sim [of D owner s n jid j "int (length pages)" "int (length (join_parts parts))"] by simp
    qed
  qed simp
qed simp

lemma assemble_finished_sim:
  fixes D :: "('p, 'q, 'o) deps"
  shows "sim (d_cfg D) owner s n (Told jid) (assemble_finished D jid) (\<lambda>_. Idle)"
proof -
  let ?row = "bindE (get_job (d_cfg D) jid) (case_option (throw (TypeError ''NoneType object is not subscriptable'')) ret)"
  have eq: "assemble_finished D jid = catch (bindE (on_db ?row) (assemble D))
      (\<lambda>e. timed (\<lambda>ts. fail_job (d_cfg D) ts jid (''assembly failed: '' @ exn_str e) None))"
    unfolding assemble_finished_def
    by (rule arg_cong [where f = "\<lambda>m. catch m _"])
      (auto simp: fun_eq_iff io_simps on_db_def split: prod.splits sum.splits option.splits)
  show ?thesis unfolding eq
  proof (rule sim_catch [OF sim_bindE])
    show "sim (d_cfg D) owner s n (Told jid) (on_db ?row :: (('q, 'o) world, job_row) io) (case_sum (Broken jid) (Listing jid))"
      by (rule sim_caught [OF db_call_on_db])
        (auto simp: bindE_assoc fun_eq_iff io_simps split: prod.splits sum.splits option.splits)
    show "sim (d_cfg D) owner s n (case_sum (Broken jid) (Listing jid) (Inr j)) (assemble D j)
        (case_sum (Broken jid) (\<lambda>_. Idle))" for j
      by (simp add: assemble_sim)
    show "sim (d_cfg D) owner s n (case_sum (Broken jid) (\<lambda>_. Idle) (Inl e :: exn + unit))
        (timed (\<lambda>ts. fail_job (d_cfg D) ts jid (''assembly failed: '' @ exn_str e) None) :: (('q, 'o) world, unit) io)
        (\<lambda>_. Idle)" for e
      by (rule sim_call [OF db_call_timed]) (simp_all add: thenE_def)
  qed simp_all
qed

lemma convert_sim:
  fixes D :: "('p, 'q, 'o) deps"
  shows "sim (d_cfg D) owner s n (Converting t)
     (try_else
        (bindE (convert_range D (t_file_hash t) (t_start_page t) (t_end_page t) (t_use_llm t))
           (\<lambda>markdown. on_s3 (put_part (d_s3 D) (t_doc_key t) (t_chunk_index t) markdown)))
        (handle_failure D t)
        (\<lambda>key. bindE (timed (\<lambda>ts. complete_chunk (d_cfg D) ts (t_job_id t) (t_chunk_index t) key))
           (\<lambda>remaining. if remaining = 0 then assemble_finished D (t_job_id t) else ret ())))
     (\<lambda>_. Idle)"
proof (rule sim_try_else)
  show "sim (d_cfg D) owner s n (Converting t)
      (bindE (convert_range D (t_file_hash t) (t_start_page t) (t_end_page t) (t_use_llm t))
        (\<lambda>markdown. on_s3 (put_part (d_s3 D) (t_doc_key t) (t_chunk_index t) markdown)))
      (case_sum (\<lambda>_. Converting t) (Stored t))"
    by (rule sim_off) (auto intro!: off_db_intros off_db_convert_range simp: local_step.intros split: sum.split)
  show "sim (d_cfg D) owner s n (case_sum (\<lambda>_. Converting t) (Stored t) (Inr key))
      (bindE (timed (\<lambda>ts. complete_chunk (d_cfg D) ts (t_job_id t) (t_chunk_index t) key))
        (\<lambda>remaining. if remaining = 0 then assemble_finished D (t_job_id t) else ret ())) (\<lambda>_. Idle)" for key
    by (rule sim_bindE [where R = "case_sum (\<lambda>_. Idle) (\<lambda>r. if r = 0 then Told (t_job_id t) else Idle)"],
        rule sim_call [OF db_call_timed]) (auto intro: sim_ret assemble_finished_sim)
qed (simp add: handle_failure_sim)

text \<open>Starting a chunk is two statements, each committed on its own.\<close>

lemma start_chunk_sim:
  assumes owner: "owner n = me"
  shows "sim cfg owner s n (Admitted t)
      (timed (\<lambda>ts. start_chunk cfg ts (t_job_id t) (t_chunk_index t) me (t_attempt t)) :: (('q, 'o) world, unit) io)
      (case_sum (\<lambda>_. Idle) (\<lambda>_. Converting t))"
  unfolding sim_def
proof (intro allI impI)
  fix w w' :: "('q, 'o) world" and r
  assume "timed (\<lambda>ts. start_chunk cfg ts (t_job_id t) (t_chunk_index t) me (t_attempt t)) w = (r, w')"
  then obtain ts where run: "start_chunk cfg ts (t_job_id t) (t_chunk_index t) me (t_attempt t) (w_db w) = (r, w_db w')"
    using db_call_timed unfolding db_call_def by blast
  let ?first = "execute (job_env cfg) (start_chunk_stmt ts (t_job_id t) (t_chunk_index t) me (t_attempt t))"
  let ?second = "execute (job_env cfg) (start_job_stmt ts (t_job_id t))"
  obtain r1 c1 where c1: "?first (w_db w) = (r1, c1)" by fastforce
  obtain r2 c2 where c2: "?second c1 = (r2, c2)" by fastforce
  have second: "runs cfg owner s n (c1, Starting t ts) (c2, case_sum (\<lambda>_. Idle) (\<lambda>_. Converting t) r2)"
    using runs_raises [of cfg owner n ts "Starting t ts" c1 _ c2 s] runs_call [of cfg owner n ts "Starting t ts" c1 _ c2 s, OF _ runs_refl] c2
    by (cases r2) (simp_all add: thenE_run thenE_raise ret_def)
  show "runs cfg owner s n (w_db w, Admitted t) (w_db w', case_sum (\<lambda>_. Idle) (\<lambda>_. Converting t) r)"
  proof (cases r1)
    case (Inl e)
    then show ?thesis using run c1 runs_raises [of cfg owner n ts "Admitted t" "w_db w" e c1 s]
      by (auto simp: start_chunk_def thenE_raise owner)
  next
    case (Inr rows)
    then have "r = (case r2 of Inl e \<Rightarrow> Inl e | Inr _ \<Rightarrow> Inr ())" "w_db w' = c2"
      using run c1 c2 by (cases r2; simp add: start_chunk_def thenE_run thenE_raise ret_def)+
    then have "runs cfg owner s n (c1, Starting t ts) (w_db w', case_sum (\<lambda>_. Idle) (\<lambda>_. Converting t) r)"
      using second by (cases r2) simp_all
    then show ?thesis
      using runs_call [of cfg owner n ts "Admitted t" "w_db w" "Starting t ts" c1 s] c1 Inr by (simp add: thenE_run ret_def owner)
  qed
qed

lemma handle_sim:
  fixes D :: "('p, 'q, 'o) deps"
  assumes owner: "owner n = d_owner D"
  shows "sim (d_cfg D) owner s n (Delivered t) (handle D t) (\<lambda>_. Idle)"
  unfolding handle_def Let_def
proof (rule sim_bindE)
  show "sim (d_cfg D) owner s n (Delivered t) (on_db (get_job (d_cfg D) (t_job_id t)) :: (('q, 'o) world, _) io)
      (case_sum (\<lambda>_. Idle) (\<lambda>job. case job of None \<Rightarrow> Idle
         | Some j \<Rightarrow> if terminal (j_status j) then Idle else Admitted t))" (is "sim _ _ _ _ _ _ ?R")
    by (rule sim_call [OF db_call_on_db]) simp_all
  fix job
  note admitted = start_chunk_sim [where ?'q = 'q and ?'o = 'o, of owner n, OF owner, of "d_cfg D" s t]
  show "sim (d_cfg D) owner s n (?R (Inr job))
      (case job of None \<Rightarrow> ret () | Some j \<Rightarrow> if terminal (j_status j) then ret () else thenE
         (timed (\<lambda>ts. start_chunk (d_cfg D) ts (t_job_id t) (t_chunk_index t) (d_owner D) (t_attempt t)))
         (try_else
            (bindE (convert_range D (t_file_hash t) (t_start_page t) (t_end_page t) (t_use_llm t))
               (\<lambda>markdown. on_s3 (put_part (d_s3 D) (t_doc_key t) (t_chunk_index t) markdown)))
            (handle_failure D t)
            (\<lambda>key. bindE (timed (\<lambda>ts. complete_chunk (d_cfg D) ts (t_job_id t) (t_chunk_index t) key))
               (\<lambda>remaining. if remaining = 0 then assemble_finished D (t_job_id t) else ret ())))) (\<lambda>_. Idle)"
    using sim_thenE [OF admitted _ _, of _ "\<lambda>_. Idle"] convert_sim [of D owner s n t]
    by (cases job) (auto intro: sim_ret)
qed simp

subsection \<open>The properties\<close>

definition idle_fleet :: "tables \<Rightarrow> (nat \<Rightarrow> connection) \<Rightarrow> fleet" where
  "idle_fleet d conn = \<lparr>f_data = d, f_conn = conn, f_phase = (\<lambda>_. Idle), f_told = []\<rparr>"

lemma fleet_inv_reachable:
  assumes "fleet_path cfg owner (idle_fleet d conn) s" "tables_wf d" "done_in {} d" "\<And>n. cn_pending (conn n) = None"
  shows "fleet_inv s"
  using assms(1)
proof (induction rule: rtranclp_induct)
  case base
  show ?case using assms(2-4)
    by (intro fleet_invI) (simp_all add: idle_fleet_def fleet_data_def all_data_def client_at_def client_of_def visible_def one_writer_def)
next
  case (step s s')
  then show ?case by (blast intro: fleet_inv_step)
qed

text \<open>
  A job that was handed out, that nobody assembles any more and that nobody has as done, stays so.
\<close>

definition abandoned :: "string \<Rightarrow> fleet \<Rightarrow> bool" where
  "abandoned jid s \<longleftrightarrow> fleet_inv s \<and> jid \<in> set (f_told s) \<and> (\<forall>m. \<not> assembling jid (f_phase s m)) \<and>
     fleet_data (done_in (- {jid})) s"

lemma not_told_again:
  assumes "fleet_inv s" "jid \<in> set (f_told s)" "\<not> assembling jid (f_phase s n)"
    and run: "call_step cfg owner ts (f_phase s n) (client_at s n) = (Inr p, c)"
  shows "\<not> assembling jid p"
proof
  assume "assembling jid p"
  then have "p = Told jid" using call_step_next(2) [OF run fleet_invD(5) [OF assms(1)]] assms(3) by blast
  then obtain i key where "complete_chunk cfg ts jid i key (client_at s n) = (Inr 0, c)"
    using call_step_next(3) [OF run fleet_invD(5) [OF assms(1)]] by blast
  from complete_chunk_zero(2) [OF fleet_dataD(1) [OF fleet_invD(1) [OF assms(1)]] this] show False
    using fleet_dataD(1) [OF fleet_invD(3) [OF assms(1,2)]] by blast
qed

lemma abandoned_step:
  assumes step: "fleet_step cfg owner n s s'" and "abandoned jid s"
  shows "abandoned jid s'"
proof -
  have inv: "fleet_inv s" and told: "jid \<in> set (f_told s)" and nobody: "\<And>m. \<not> assembling jid (f_phase s m)"
    and data: "fleet_data (done_in (- {jid})) s"
    using assms(2) by (simp_all add: abandoned_def)
  have inv': "fleet_inv s'" by (rule fleet_inv_step [OF step inv])
  have keeps: "keeps (all_data (done_in (- {jid}))) (call_step cfg (owner n) ts (f_phase s n))" for ts
    by (rule call_step_done_in [OF fleet_invD(5) [OF inv]]) (use nobody in auto)
  from step show ?thesis
  proof (cases rule: fleet_step.cases)
    case (call ts p c)
    then show ?thesis
      using inv' told nobody not_told_again [OF inv told nobody call(2)] keeps_fleet_data [OF keeps call(2) data call(3)]
      by (simp add: abandoned_def)
  next
    case (raises ts e c)
    then show ?thesis using inv' told nobody keeps_fleet_data [OF keeps raises(2) data raises(3)] by (simp add: abandoned_def)
  next
    case (between p)
    then show ?thesis
      using inv' told nobody data local_step_frame [OF between(2) fleet_invD(5) [OF inv], of jid] by (simp add: abandoned_def)
  next
    case (dies c)
    then show ?thesis using inv' told nobody fleet_data_dies [OF data dies(2)] by (simp add: abandoned_def)
  next
    case (api op r c)
    then show ?thesis
      using inv' told nobody keeps_fleet_data [OF api_call_done_in [OF api(3)] api(4) data api(5)] by (simp add: abandoned_def)
  qed
qed

lemma abandoned_path: "fleet_path cfg owner s s' \<Longrightarrow> abandoned jid s \<Longrightarrow> abandoned jid s'"
  by (induction rule: rtranclp_induct) (blast intro: abandoned_step)+

lemma count_list_distinct: "distinct xs \<Longrightarrow> x \<in> set xs \<Longrightarrow> count_list xs x = 1"
  by (induction xs) auto

lemma abandonedD:
  assumes "abandoned jid s"
  shows "\<exists>j. find_job jid (f_data s) = Some j \<and> j_status j \<noteq> Done" "\<not> assembling jid (f_phase s m)" "count_list (f_told s) jid = 1"
proof -
  have inv: "fleet_inv s" "jid \<in> set (f_told s)" and data: "done_in (- {jid}) (f_data s)"
    using assms fleet_dataD(2) by (auto simp: abandoned_def)
  obtain j where "j \<in> set (jobs (f_data s))" "j_job_id j = jid"
    using fleet_dataD(2) [OF fleet_invD(3) [OF inv]] by (auto simp: counted_def)
  then have "filter (\<lambda>j. j_job_id j = jid) (jobs (f_data s)) \<noteq> []" by (auto simp: filter_empty_conv)
  then obtain j' js where row: "filter (\<lambda>j. j_job_id j = jid) (jobs (f_data s)) = j' # js" by (auto simp: neq_Nil_conv)
  then have j': "find_job jid (f_data s) = Some j'" by (simp add: find_job_def)
  have "j' \<in> set (jobs (f_data s))" "j_job_id j' = jid" using row by (auto simp: filter_eq_Cons_iff)
  then show "\<exists>j. find_job jid (f_data s) = Some j \<and> j_status j \<noteq> Done" using data j' by (auto simp: done_in_def)
  show "count_list (f_told s) jid = 1" using count_list_distinct [OF fleet_invD(2) [OF inv(1)] inv(2)] .
qed (use assms in \<open>simp add: abandoned_def\<close>)

text \<open>
  C1. However the steps of any number of workers interleave with each other and with the API,
  whatever is delivered twice, whoever dies at any point and whatever the database refuses or
  loses: every job is handed out for assembly at most once, never to two workers at the same
  time, and a job that is marked done was handed out.
\<close>

theorem fleet_assembles_each_job_once:
  assumes "fleet_path cfg owner (idle_fleet d conn) s" "tables_wf d" "done_in {} d" "\<And>n. cn_pending (conn n) = None"
  shows "distinct (f_told s) \<and>
    (\<forall>m n jid. assembling jid (f_phase s m) \<and> assembling jid (f_phase s n) \<longrightarrow> m = n) \<and>
    (\<forall>j \<in> set (jobs (f_data s)). j_status j = Done \<longrightarrow> j_job_id j \<in> set (f_told s))"
proof -
  note inv = fleet_invD [OF fleet_inv_reachable [OF assms]]
  have "\<forall>j \<in> set (jobs (f_data s)). j_status j = Done \<longrightarrow> j_job_id j \<in> set (f_told s)"
    using fleet_dataD(2) [OF inv(4)] by (simp add: done_in_def)
  with inv(2,7) show ?thesis by blast
qed

definition one_job_fleet :: fleet where
  "one_job_fleet = idle_fleet one_job (\<lambda>_. connection_of one_job_client)"

lemma one_job_fleet_free: "\<not> locked_out one_job_fleet n"
  by (simp add: locked_out_def one_job_fleet_def idle_fleet_def connection_of_def one_job_client_def)

definition told_db :: "tables client" where
  "told_db =
     (let call = (\<lambda>ts p db. snd (call_step default_settings ''worker-1'' ts p db))
      in call 4 (Stored sample_task ''k'') (call 3 (Starting sample_task 2) (call 2 (Admitted sample_task)
           (call 1 (Delivered sample_task) one_job_client))))"

lemma path_local:
  "(fleet_step cfg owner n)\<^sup>*\<^sup>* x (at s n (db, p) l) \<Longrightarrow> local_step cfg p q \<Longrightarrow>
   (fleet_step cfg owner n)\<^sup>*\<^sup>* x (at s n (db, q) l)"
  by (erule rtranclp.rtrancl_into_rtrancl) (rule at_local)

lemma path_call:
  assumes "(fleet_step cfg owner n)\<^sup>*\<^sup>* x (at s n (db, p) l)" "\<not> locked_out s n" "fst (call_step cfg (owner n) ts p db) = Inr q"
  shows "(fleet_step cfg owner n)\<^sup>*\<^sup>* x (at s n (snd (call_step cfg (owner n) ts p db), q) (told_by q @ l))"
  by (rule rtranclp.rtrancl_into_rtrancl [OF assms(1) at_call [OF assms(2)]]) (use assms(3) in \<open>simp add: prod_eq_iff\<close>)

lemma path_of_one: "(fleet_step cfg owner n)\<^sup>*\<^sup>* s s' \<Longrightarrow> fleet_path cfg owner s s'"
  by (erule rtranclp_mono [THEN predicate2D, rotated]) blast

lemma told_path:
  "fleet_path default_settings (\<lambda>_. ''worker-1'') one_job_fleet (at one_job_fleet 0 (told_db, Told ''j'') [''j''])"
proof (rule path_of_one)
  let ?run = "\<lambda>ts p db. call_step default_settings ''worker-1'' ts p db"
  let ?t = sample_task and ?db = one_job_client
  note free = one_job_fleet_free [of 0]
  have "at one_job_fleet 0 (?db, Idle) [] = one_job_fleet"
    by (simp add: at_def one_job_fleet_def idle_fleet_def fun_eq_iff one_job_client_def)
  then have "(fleet_step default_settings (\<lambda>_. ''worker-1'') 0)\<^sup>*\<^sup>* one_job_fleet (at one_job_fleet 0 (?db, Delivered ?t) [])"
    by (metis path_local [OF _ local_step.deliver] rtranclp.rtrancl_refl)
  note d0 = path_call [OF this free, where ts = 1 and q = "Admitted ?t"]
  have "fst (?run 1 (Delivered ?t) ?db) = Inr (Admitted ?t)" by code_simp
  note d1 = path_call [OF d0 [OF this] free, where ts = 2 and q = "Starting ?t 2"]
  have "fst (?run 2 (Admitted ?t) (snd (?run 1 (Delivered ?t) ?db))) = Inr (Starting ?t 2)" by code_simp
  note d2 = path_call [OF d1 [OF this] free, where ts = 3 and q = "Converting ?t"]
  have "fst (?run 3 (Starting ?t 2) (snd (?run 2 (Admitted ?t) (snd (?run 1 (Delivered ?t) ?db))))) = Inr (Converting ?t)" by code_simp
  note d3 = path_call [OF path_local [OF d2 [OF this] local_step.converted] free, where ts = 4 and q = "Told ''j''"]
  have "fst (?run 4 (Stored ?t ''k'') (snd (?run 3 (Starting ?t 2) (snd (?run 2 (Admitted ?t) (snd (?run 1 (Delivered ?t) ?db)))))))
      = Inr (Told ''j'')" by code_simp
  from d3 [OF this] show "(fleet_step default_settings (\<lambda>_. ''worker-1'') 0)\<^sup>*\<^sup>* one_job_fleet
      (at one_job_fleet 0 (told_db, Told ''j'') [''j''])" unfolding told_db_def Let_def told_by.simps append.simps .
qed

lemma one_job_fleet_start:
  "tables_wf one_job" "done_in {} one_job" "cn_pending (connection_of one_job_client) = None"
  using one_job_facts(2) by (simp_all add: done_in_def one_job_def no_tables_def new_job_row_def connection_of_def one_job_client_def)

theorem fleet_assembles_each_job_once_witness:
  "\<exists>s. fleet_path default_settings (\<lambda>_. ''worker-1'') one_job_fleet s \<and>
    f_told s = [''j''] \<and> assembling ''j'' (f_phase s 0) \<and> distinct (f_told s) \<and>
    (\<forall>n. assembling ''j'' (f_phase s n) \<longrightarrow> n = 0) \<and>
    (\<forall>j \<in> set (jobs (f_data s)). j_status j = Done \<longrightarrow> j_job_id j \<in> set (f_told s))"
proof -
  let ?s = "at one_job_fleet 0 (told_db, Told ''j'') [''j'']"
  have here: "f_told ?s = [''j'']" "assembling ''j'' (f_phase ?s 0)" by simp_all
  from fleet_assembles_each_job_once [OF told_path [unfolded one_job_fleet_def] one_job_fleet_start] here told_path show ?thesis
    unfolding one_job_fleet_def by blast
qed

text \<open>
  C7. What a worker does to the database in one run of \<open>handle\<close>, however it ends, is a path of that
  worker in the fleet, from idle to idle, while nobody else holds the write lock: the fleet makes
  every database call the handler makes, on the connection of that worker.
\<close>

theorem handle_is_a_path_of_the_fleet:
  assumes "owner n = d_owner D" "f_phase s n = Idle" "client_at s n = w_db w" "\<not> locked_out s n" "handle D task w = (r, w')"
  shows "\<exists>told. (fleet_step (d_cfg D) owner n)\<^sup>*\<^sup>* s
    (s\<lparr>f_data := db_data (w_db w'), f_conn := (f_conn s)(n := connection_of (w_db w')), f_told := told\<rparr>)"
proof -
  have "runs (d_cfg D) owner s n (w_db w, Idle) (w_db w', Idle)"
    using runs_local [OF local_step.deliver] handle_sim [of owner n D s task] assms(1,5) by (metis sim_def)
  then obtain told where "(fleet_step (d_cfg D) owner n)\<^sup>*\<^sup>* (at s n (w_db w, Idle) (f_told s)) (at s n (w_db w', Idle) told)"
    using assms(4) unfolding runs_def by blast
  moreover have "at s n (w_db w, Idle) (f_told s) = s" using at_client [OF assms(2)] assms(3) by simp
  moreover have "at s n (w_db w', Idle) told
      = s\<lparr>f_data := db_data (w_db w'), f_conn := (f_conn s)(n := connection_of (w_db w')), f_told := told\<rparr>"
    using assms(2) by (cases s) (simp add: at_def fun_upd_idem)
  ultimately show ?thesis by auto
qed

theorem handle_is_a_path_of_the_fleet_witness:
  "let w' = snd (handle (sample_deps default_settings) sample_task (sample_world one_job_client s3_fresh)) in
   \<exists>told. (fleet_step default_settings (\<lambda>_. ''worker-1'') 0)\<^sup>*\<^sup>* one_job_fleet
     (one_job_fleet\<lparr>f_data := db_data (w_db w'), f_conn := (f_conn one_job_fleet)(0 := connection_of (w_db w')), f_told := told\<rparr>)"
proof -
  let ?D = "sample_deps default_settings" and ?w = "sample_world one_job_client s3_fresh"
  have "client_at one_job_fleet 0 = w_db ?w"
    by (simp add: client_at_def one_job_fleet_def idle_fleet_def sample_world_def connection_of_def client_of_def one_job_client_def)
  moreover note one_job_fleet_free [of 0]
  ultimately show ?thesis unfolding Let_def
    using handle_is_a_path_of_the_fleet [of "\<lambda>_. ''worker-1''" 0 ?D one_job_fleet ?w sample_task "fst (handle ?D sample_task ?w)"
      "snd (handle ?D sample_task ?w)"]
    by (simp add: sample_deps_def one_job_fleet_def idle_fleet_def)
qed

text \<open>
  C37. The completion that reaches zero is the only trigger of the assembly. When the worker that
  was told to assemble a job dies anywhere in the assembly, before the job is done, then whatever
  is delivered to whomever afterwards and however it ends, the job is never done: it keeps its row,
  still open or failed, and nobody is told to assemble it again.
\<close>

theorem crashed_assembly_is_never_retried:
  assumes "fleet_path cfg owner (idle_fleet d conn) s" "tables_wf d" "done_in {} d" "\<And>n. cn_pending (conn n) = None"
    and "assembling jid (f_phase s n)" "\<forall>j \<in> set (jobs (f_data s)). j_job_id j = jid \<longrightarrow> j_status j \<noteq> Done"
    and "\<not> locked_out s n" "cn_pending c = None"
    and "fleet_path cfg owner (s\<lparr>f_conn := (f_conn s)(n := c), f_phase := (f_phase s)(n := Idle)\<rparr>) s'"
  shows "(\<exists>j. find_job jid (f_data s') = Some j \<and> j_status j \<noteq> Done) \<and> (\<forall>m. \<not> assembling jid (f_phase s' m)) \<and>
    count_list (f_told s') jid = 1"
proof -
  let ?s = "s\<lparr>f_conn := (f_conn s)(n := c), f_phase := (f_phase s)(n := Idle)\<rparr>"
  have inv: "fleet_inv s" by (rule fleet_inv_reachable [OF assms(1-4)])
  have "fleet_inv ?s" by (rule fleet_inv_step [OF fleet_step.dies [OF assms(8)] inv])
  moreover have "jid \<in> set (f_told s)" by (rule fleet_invD(6) [OF inv assms(5)])
  moreover have "\<not> assembling jid (f_phase ?s m)" for m using fleet_invD(7) [OF inv assms(5), of m] by auto
  moreover have "cn_pending (f_conn ?s m) = None" for m using assms(7,8) by (auto simp: locked_out_def)
  then have "fleet_data (done_in (- {jid})) ?s"
    using assms(6) by (auto simp: fleet_data_def all_data_def client_at_def client_of_def visible_def Let_def done_in_def)
  ultimately have "abandoned jid ?s" by (simp add: abandoned_def)
  with abandoned_path [OF assms(9)] have "abandoned jid s'" .
  then show ?thesis using abandonedD by blast
qed

theorem crashed_assembly_is_never_retried_witness:
  "\<exists>s. fleet_path default_settings (\<lambda>_. ''worker-1'') one_job_fleet s \<and> assembling ''j'' (f_phase s 0) \<and>
    (let s' = s\<lparr>f_conn := (f_conn s)(0 := f_conn one_job_fleet 0), f_phase := (f_phase s)(0 := Idle)\<rparr> in
     (\<exists>j. find_job ''j'' (f_data s') = Some j \<and> j_status j \<noteq> Done) \<and> (\<forall>m. \<not> assembling ''j'' (f_phase s' m)) \<and>
     count_list (f_told s') ''j'' = 1)"
proof -
  let ?s = "at one_job_fleet 0 (told_db, Told ''j'') [''j'']"
  have "list_all (\<lambda>j. j_status j \<noteq> Done) (jobs (db_data told_db))" by code_simp
  then have "\<forall>j \<in> set (jobs (f_data ?s)). j_job_id j = ''j'' \<longrightarrow> j_status j \<noteq> Done" by (simp add: at_def list_all_iff)
  moreover have "\<not> locked_out ?s 0" "cn_pending (f_conn one_job_fleet 0) = None"
    using one_job_fleet_free one_job_fleet_start(3) by (simp_all add: one_job_fleet_def idle_fleet_def)
  moreover have "assembling ''j'' (f_phase ?s 0)" by simp
  ultimately show ?thesis
    using crashed_assembly_is_never_retried [OF told_path [unfolded one_job_fleet_def] one_job_fleet_start, folded one_job_fleet_def,
      of "''j''" 0 _ _, OF _ _ _ _ rtranclp.rtrancl_refl] told_path unfolding Let_def by blast
qed

end
