(* ===== verification/Schema.thy ===== *)
theory Schema
  imports Jobstore
begin

section \<open>Migrations: from the file to the tables\<close>

text \<open>
  What \<^verbatim>\<open>_split_statements\<close> makes of a migration file with comments, and what \<^verbatim>\<open>migrate\<close> does to a
  database with files of \<^verbatim>\<open>CREATE ... IF NOT EXISTS\<close> statements, the form of \<^verbatim>\<open>001_init.sql\<close>.
\<close>

subsection \<open>Splitting\<close>

lemma py_split_prefix:
  "hd sep \<notin> set x \<Longrightarrow> sep \<noteq> [] \<Longrightarrow>
   py_split sep (x @ s) = (x @ hd (py_split sep s)) # tl (py_split sep s)"
proof (induction x)
  case (Cons c x)
  have "take (length sep) ((c # x) @ s) \<noteq> sep" using Cons.prems by (cases sep) auto
  then show ?case using Cons by (subst py_split.simps) simp
qed simp

lemma py_split_sep: "sep \<noteq> [] \<Longrightarrow> py_split sep (sep @ s) = [] # py_split sep s"
  by (subst py_split.simps) simp

lemma py_split_Nil: "sep \<noteq> [] \<Longrightarrow> py_split sep [] = [[]]"
  by (subst py_split.simps) simp

lemma py_split_none: "hd sep \<notin> set x \<Longrightarrow> sep \<noteq> [] \<Longrightarrow> py_split sep x = [x]"
  using py_split_prefix [of sep x "[]"] by (simp add: py_split_Nil)

lemma py_split_pieces:
  "list_all (\<lambda>s. ch \<notin> set s) ss \<Longrightarrow> ch \<notin> set rest \<Longrightarrow>
   py_split [ch] (concat (map (\<lambda>s. s @ [ch]) ss) @ rest) = ss @ [rest]"
proof (induction ss)
  case (Cons s ss)
  then show ?case
    using py_split_prefix [of "[ch]" s] py_split_sep [of "[ch]"] by simp
qed (simp add: py_split_none)

text \<open>Equivalents of the two splits that are faster to evaluate.\<close>

fun upto_sep :: "'a list \<Rightarrow> 'a list \<Rightarrow> 'a list" where
  "upto_sep sep [] = []"
| "upto_sep sep (c # cs) = (if take (length sep) (c # cs) = sep then [] else c # upto_sep sep cs)"

fun split_char :: "'a \<Rightarrow> 'a list \<Rightarrow> 'a list \<Rightarrow> 'a list list" where
  "split_char ch acc [] = [rev acc]"
| "split_char ch acc (c # cs) = (if c = ch then rev acc # split_char ch [] cs else split_char ch (c # acc) cs)"

lemma hd_py_split: "sep \<noteq> [] \<Longrightarrow> hd (py_split sep s) = upto_sep sep s"
proof (induction s)
  case (Cons c cs)
  obtain b bs where "py_split sep cs = b # bs" by (meson list.exhaust py_split_not_Nil)
  with Cons show ?case unfolding py_split.simps [of sep "c # cs"] by (simp del: take_Suc_Cons)
qed (simp add: py_split_Nil)

lemma split_char_py_split: "split_char ch acc s = (rev acc @ hd (py_split [ch] s)) # tl (py_split [ch] s)"
proof (induction s arbitrary: acc)
  case (Cons c cs)
  obtain b bs where "py_split [ch] cs = b # bs" by (meson list.exhaust py_split_not_Nil)
  with Cons show ?case unfolding py_split.simps [of "[ch]" "c # cs"] by simp
qed (simp add: py_split_Nil)

lemma split_statements_code:
  "split_statements sql = map strip_string (filter (\<lambda>s. strip_string s \<noteq> [])
     (split_char (CHR '';'') [] (py_join [CHR 0x0A] (map (upto_sep ''--'') (splitlines sql)))))"
proof -
  have "py_split '';'' s = split_char (CHR '';'') [] s" for s by (simp add: split_char_py_split)
  then show ?thesis by (simp add: split_statements_def hd_py_split Let_def)
qed

text \<open>A line of a file: code, and after it a comment or not.\<close>

type_synonym sql_line = "string \<times> string option"

fun line_text :: "sql_line \<Rightarrow> string" where
  "line_text (code, None) = code"
| "line_text (code, Some comment) = code @ ''--'' @ comment"

definition file_text :: "sql_line list \<Rightarrow> string" where
  "file_text ls = unlines (map line_text ls)"

definition code_text :: "sql_line list \<Rightarrow> string" where
  "code_text ls = py_join [CHR 0x0A] (map fst ls)"

definition plain_line :: "sql_line \<Rightarrow> bool" where
  "plain_line l \<longleftrightarrow> CHR ''-'' \<notin> set (fst l) \<and> list_all (\<lambda>ch. \<not> is_line_end ch) (line_text l)"

lemma splitlines_from_line:
  "list_all (\<lambda>ch. \<not> is_line_end ch) l \<Longrightarrow>
   splitlines_from acc (l @ CHR 0x0A # s) = (rev acc @ l) # splitlines_from [] s"
  by (induction l arbitrary: acc) (simp_all add: is_line_end_def)

lemma splitlines_unlines:
  "list_all (list_all (\<lambda>ch. \<not> is_line_end ch)) ls \<Longrightarrow> splitlines (unlines ls) = ls"
  by (induction ls) (simp_all add: splitlines_def unlines_def splitlines_from_line)

lemma splitlines_file: "list_all plain_line ls \<Longrightarrow> splitlines (file_text ls) = map line_text ls"
  unfolding file_text_def by (rule splitlines_unlines) (simp add: list_all_iff plain_line_def)

lemma comment_removed: "plain_line l \<Longrightarrow> hd (py_split ''--'' (line_text l)) = fst l"
  using py_split_prefix [of "''--''" "fst l"] py_split_sep [of "''--''"] py_split_none [of "''--''" "fst l"]
  by (cases l rule: line_text.cases) (simp_all add: plain_line_def)

lemma split_statements_file:
  assumes "list_all plain_line ls"
  shows "split_statements (file_text ls) =
    map strip_string (filter (\<lambda>s. strip_string s \<noteq> []) (py_split '';'' (code_text ls)))"
proof -
  have "map (\<lambda>line. hd (py_split ''--'' line)) (map line_text ls) = map fst ls"
    using assms by (simp add: list_all_iff comment_removed)
  then show ?thesis by (simp add: split_statements_def splitlines_file [OF assms] code_text_def Let_def del: map_map)
qed

lemma strip_string_blank:
  assumes "strip_string s = []" "c \<in> set s"
  shows "is_space (of_char c)"
proof -
  let ?P = "\<lambda>c :: char. is_space (of_char c)"
  have all: "\<forall>x \<in> set (dropWhile ?P s). ?P x"
    using assms(1) by (simp only: strip_string_def rev_is_Nil_conv dropWhile_eq_Nil_conv set_rev)
  have "c \<in> set (takeWhile ?P s) \<union> set (dropWhile ?P s)"
    using assms(2) by (simp only: set_append [symmetric] takeWhile_dropWhile_id)
  then show ?thesis
  proof
    assume "c \<in> set (takeWhile ?P s)"
    then show ?thesis by (rule set_takeWhileD [THEN conjunct2])
  qed (rule bspec [OF all])
qed

text \<open>
  C33. A migration file in which every statement ends with a semicolon is split into exactly its
  statements, whatever its comments contain, semicolons included.
\<close>

theorem split_statements_recovers_statements:
  assumes "list_all plain_line ls" "code_text ls = concat (map (\<lambda>s. s @ '';'') ss) @ rest"
    and "list_all (\<lambda>s. CHR '';'' \<notin> set s \<and> strip_string s \<noteq> []) ss" "strip_string rest = []"
  shows "split_statements (file_text ls) = map strip_string ss"
proof -
  have "CHR '';'' \<notin> set rest"
    using strip_string_blank [OF assms(4), of "CHR '';''"] by (auto simp: is_space_def)
  then have "py_split '';'' (code_text ls) = ss @ [rest]"
    using assms(3) unfolding assms(2) by (intro py_split_pieces) (auto simp: list_all_iff)
  with assms(3,4) show ?thesis
    by (simp add: split_statements_file [OF assms(1)] list_all_iff filter_id_conv)
qed

theorem split_statements_recovers_statements_witness:
  "split_statements (file_text
      [(''CREATE TABLE t ('', None), (''  a INTEGER  '', Some '' exclusive; minus 1 means the whole file''),
       ('');'', None), ('''', Some '' the index''), (''CREATE INDEX i ON t(a);'', None)]) =
    [''CREATE TABLE t ('' @ [CHR 0x0A] @ ''  a INTEGER  '' @ [CHR 0x0A] @ '')'', ''CREATE INDEX i ON t(a)'']"
  using split_statements_recovers_statements [of
      "[(''CREATE TABLE t ('', None), (''  a INTEGER  '', Some '' exclusive; minus 1 means the whole file''),
       ('');'', None), ('''', Some '' the index''), (''CREATE INDEX i ON t(a);'', None)]"
      "[''CREATE TABLE t ('' @ [CHR 0x0A] @ ''  a INTEGER  '' @ [CHR 0x0A] @ '')'',
        [CHR 0x0A, CHR 0x0A] @ ''CREATE INDEX i ON t(a)'']" "[]"]
  by (simp add: plain_line_def is_line_end_def code_text_def strip_string_def is_space_def)

subsection \<open>Applying the migrations\<close>

text \<open>The statements of the migrations directory, in the order they run.\<close>

definition migration_statements :: "(string \<times> string) list \<Rightarrow> string list" where
  "migration_statements dir =
     concat (map (split_statements \<circ> snd) (filter (ends_with ''.sql'' \<circ> fst) (sort_key fst dir)))"

definition add_object :: "string \<Rightarrow> tables \<Rightarrow> tables" where
  "add_object name t =
     (if name \<in> set (schema_objects t) then t else t\<lparr>schema_objects := schema_objects t @ [name]\<rparr>)"

text \<open>A database that works, with nothing pending.\<close>

definition resting :: "tables \<Rightarrow> tables client \<Rightarrow> bool" where
  "resting t c \<longleftrightarrow> db_data c = t \<and> pending (r_state (server c)) = None \<and> r_faults (server c) = []"

lemma run_migrations_statements:
  "run_migrations E = foreachE (concat (map (split_statements \<circ> snd) (filter (ends_with ''.sql'' \<circ> fst) (sort_key fst (db_dir E)))))
     (\<lambda>st. thenE (conn_execute (db_ddl E st)) (ret ()))"
proof -
  have app: "foreachE (xs @ ys) g = thenE (foreachE xs g) (foreachE ys g)" for xs ys and g :: "string \<Rightarrow> ('a client, unit) io"
    by (induction xs) (simp_all add: thenE_def bindE_assoc)
  have "foreachE fs (\<lambda>(name, sql). if \<not> ends_with ''.sql'' name then ret ()
       else foreachE (split_statements sql) (\<lambda>st. thenE (conn_execute (db_ddl E st)) (ret ()))) =
     foreachE (concat (map (split_statements \<circ> snd) (filter (ends_with ''.sql'' \<circ> fst) fs)))
       (\<lambda>st. thenE (conn_execute (db_ddl E st)) (ret ()))" for fs
    by (induction fs) (auto simp: app thenE_def)
  then show ?thesis by (simp add: run_migrations_def)
qed

lemma ddl_resting:
  assumes "resting t c" "created_object sql = Some name"
  shows "\<exists>c'. conn_execute (ddl sql) c = (Inr no_rows, c') \<and> resting (add_object name t) c'"
  using assms by (auto simp: conn_execute_def on_server_healthy resting_def execute_on_def visible_def ddl_def add_object_def)

lemma run_ddl_resting:
  assumes "resting t c" "map created_object sqls = map Some names"
  shows "\<exists>c'. foreachE sqls (\<lambda>st. thenE (conn_execute (ddl st)) (ret ())) c = (Inr (), c') \<and>
    resting (fold add_object names t) c'"
  using assms
proof (induction sqls arbitrary: names t c)
  case (Cons sql sqls)
  then obtain name names' where names: "names = name # names'" "created_object sql = Some name"
    "map created_object sqls = map Some names'" by (cases names) auto
  obtain c1 where "conn_execute (ddl sql) c = (Inr no_rows, c1)" "resting (add_object name t) c1"
    using ddl_resting [OF Cons.prems(1) names(2)] by blast
  with Cons.IH [OF _ names(3)] show ?case by (simp add: names(1) thenE_run ret_def)
qed (simp add: ret_def)

lemma get_connection_resting:
  assumes "resting t c"
  shows "\<exists>c'. get_connection cfg c = (Inr (), c') \<and> resting t c'"
proof (cases "connected c")
  case False
  have pragmas: "resting t c \<Longrightarrow>
      \<exists>c'. foreachE sqls (\<lambda>sql. thenE (conn_execute (pragma sql)) (ret ())) c = (Inr (), c') \<and> resting t c'" for sqls c
  proof (induction sqls)
    case (Cons sql sqls)
    have "conn_execute (pragma sql) c = (Inr no_rows, c)"
      using Cons.prems by (cases c) (simp add: conn_execute_def on_server_healthy resting_def execute_on_def pragma_def)
    with Cons show ?case by (simp add: thenE_run ret_def)
  qed (simp add: ret_def)
  let ?open = "on_server (\<lambda>s. (Inr (), s\<lparr>pending := None\<rparr>))"
  obtain c1 where c1: "?open c = (Inr (), c1)" "resting t c1"
    using assms by (auto simp: on_server_healthy resting_def)
  obtain c2 where "foreachE (snd (connect_target cfg)) (\<lambda>sql. thenE (conn_execute (pragma sql)) (ret ())) c1
      = (Inr (), c2)" "resting t c2" using pragmas [OF c1(2)] by blast
  then show ?thesis using False c1(1) by (auto simp: get_connection_def thenE_run resting_def)
qed (use assms in \<open>simp add: get_connection_def ret_def\<close>)

lemma fold_add_object_rows: "\<exists>objects. fold add_object names t = t\<lparr>schema_objects := objects\<rparr>"
proof (induction names arbitrary: t)
  case Nil
  show ?case by (rule exI [of _ "schema_objects t"]) simp
next
  case (Cons name names)
  obtain objects where "fold add_object names (add_object name t) = (add_object name t)\<lparr>schema_objects := objects\<rparr>"
    using Cons by blast
  moreover have "(add_object name t)\<lparr>schema_objects := objects\<rparr> = t\<lparr>schema_objects := objects\<rparr>"
    by (simp add: add_object_def)
  ultimately show ?case by auto
qed

lemma fold_add_object_set:
  "set (schema_objects (fold add_object names t)) = set (schema_objects t) \<union> set names"
  by (induction names arbitrary: t) (auto simp: add_object_def)

lemma fold_add_object_present: "set names \<subseteq> set (schema_objects t) \<Longrightarrow> fold add_object names t = t"
  by (induction names) (simp_all add: add_object_def)

text \<open>
  C34. On a database that works, migrating with files whose statements are all of the form
  \<^verbatim>\<open>CREATE ... IF NOT EXISTS\<close> returns, creates the objects that are missing and touches no row;
  a second process that migrates again changes nothing.
\<close>

theorem migrate_adds_missing_objects:
  assumes "resting t c" "\<not> migrated c" "map created_object (migration_statements dir) = map Some names"
  shows "\<exists>c' objects. migrate \<lparr>db_config = cfg, db_ddl = ddl, db_dir = dir\<rparr> c = (Inr (), c') \<and>
    ready (t\<lparr>schema_objects := objects\<rparr>) c' \<and> set objects = set (schema_objects t) \<union> set names \<and>
    (set names \<subseteq> set (schema_objects t) \<longrightarrow> objects = schema_objects t)"
proof -
  let ?E = "\<lparr>db_config = cfg, db_ddl = ddl, db_dir = dir\<rparr>" and ?t = "fold add_object names t"
  obtain c1 where c1: "get_connection cfg c = (Inr (), c1)" "resting t c1"
    using get_connection_resting [OF assms(1)] by blast
  obtain c2 where c2: "run_migrations ?E c1 = (Inr (), c2)" "resting ?t c2"
    using run_ddl_resting [OF c1(2) assms(3)] unfolding run_migrations_statements migration_statements_def by auto
  obtain c3 where c3: "conn_commit c2 = (Inr (), c3)" "resting ?t c3"
    using c2(2) by (simp add: conn_commit_def on_server_healthy resting_def commit_on_def visible_def)
  have "migrate ?E c = (Inr (), c3\<lparr>migrated := True\<rparr>)"
    using assms(2) c1(1) c2(1) c3(1) by (simp add: migrate_def thenE_run)
  moreover have "ready ?t (c3\<lparr>migrated := True\<rparr>)" using c3(2) by (simp add: ready_def clean_def resting_def)
  moreover have "?t = t\<lparr>schema_objects := schema_objects ?t\<rparr>" using fold_add_object_rows [of names t] by auto
  moreover have "set names \<subseteq> set (schema_objects t) \<longrightarrow> schema_objects ?t = schema_objects t"
    by (simp add: fold_add_object_present)
  ultimately show ?thesis using fold_add_object_set [of names t] by metis
qed

theorem migrate_adds_missing_objects_witness:
  "\<exists>c' objects. migrate \<lparr>db_config = default_settings, db_ddl = ddl,
      db_dir = [(''1.sql'', ''CREATE TABLE IF NOT EXISTS t (a); -- x;'')]\<rparr> (new_client []\<lparr>migrated := False\<rparr>) = (Inr (), c') \<and>
    ready (no_tables\<lparr>schema_objects := objects\<rparr>) c' \<and> set objects = {''t''}"
proof -
  have "resting no_tables (new_client []\<lparr>migrated := False\<rparr>)" "\<not> migrated (new_client []\<lparr>migrated := False\<rparr>)"
    by (simp_all add: resting_def new_client_def)
  moreover have "migration_statements [(''1.sql'', ''CREATE TABLE IF NOT EXISTS t (a); -- x;'')] =
      split_statements ''CREATE TABLE IF NOT EXISTS t (a); -- x;''"
    by (simp add: migration_statements_def ends_with_def)
  moreover have "map created_object (split_statements ''CREATE TABLE IF NOT EXISTS t (a); -- x;'') = map Some [''t'']"
    by (simp add: split_statements_code splitlines_def is_line_end_def strip_string_def is_space_def
        created_object_def starts_with_def word_of_def)
  moreover have "schema_objects no_tables = []" by (simp add: no_tables_def)
  ultimately show ?thesis
    using migrate_adds_missing_objects [of no_tables "new_client []\<lparr>migrated := False\<rparr>"
        "[(''1.sql'', ''CREATE TABLE IF NOT EXISTS t (a); -- x;'')]" "[''t'']" default_settings] by auto
qed

end
