(* ===== verification/Spec2Isabelle.thy ===== *)
theory Spec2Isabelle
  imports Service Endpoints Consumer Fleet Schema
begin

text \<open>
  \<^bold>\<open>The markitdown server.\<close>

  A document conversion service. The API (\<^verbatim>\<open>src/api/index.py\<close>) downloads a file, looks for a finished
  document with the same content hash and configuration, and otherwise plans page ranges, stores
  the source in S3, writes one job row and one row per chunk, and publishes one message per chunk.
  Workers (\<^verbatim>\<open>src/worker.py\<close>) consume the messages, convert one range each, store the part, and count
  the job down in the database; the worker whose completion brings the counter to zero joins the
  parts, splits the text into pages, stores the document and marks the job done. The API serves
  job status and pages.

  \<^bold>\<open>Vocabulary.\<close> \<open>Prelude\<close> has the fragments of Python's list and string semantics the sources use,
  exceptions as values (\<open>exn\<close>), and functions on a state that return or raise (\<open>io\<close>, with \<open>bindE\<close>,
  \<open>catch\<close>, \<open>try_else\<close>, \<open>finallyE\<close>, \<open>foreachE\<close>, \<open>memo\<close>) together with the collections \<open>py_simps\<close>, \<open>io_simps\<close>,
  \<open>io_ok\<close> and \<open>keeps_intros\<close> that carry the component proofs. \<open>Decimal\<close>, \<open>Utf8\<close> and \<open>Json\<close> are \<^verbatim>\<open>str(int)\<close>,
  \<^verbatim>\<open>int(str)\<close>, the UTF-8 codec and the JSON codec with their round trips. \<open>Disk\<close> is the local file
  system of a process. \<open>Remote\<close> is a service whose calls may be refused, or may take effect and lose
  their reply, in any pattern.

  \<^bold>\<open>Components, in the order of the source.\<close>
  \<^item> \<open>Settings\<close>: \<^verbatim>\<open>config.py\<close>; the record \<open>settings\<close> and \<open>load_settings\<close> on an environment.
  \<^item> \<open>Chunker\<close>: \<^verbatim>\<open>chunker.py\<close>; \<open>plan_chunks\<close>, \<open>extract_pages\<close>, \<open>page_count\<close>. A plan is a partition of the pages;
    every case of planning, errors included.
  \<^item> \<open>Pagination\<close>: \<^verbatim>\<open>pagination.py\<close>; \<open>paginate\<close> with its nested loops, \<open>build_pagination\<close>. Pages are within
    the page size and cover the text; the loops agree with a reference layout; exactly when
    \<open>paginate\<close> returns.
  \<^item> \<open>Storage\<close>: \<^verbatim>\<open>storage.py\<close>; keys, fingerprint, client cache and object operations. The S3 client is
    the record \<open>s3_api\<close>; the locale \<open>object_store\<close> states what is relied on under failures,
    \<open>object_store_up\<close> extends it with a store that works, and both are interpreted on \<open>s3_client\<close>, an
    object map behind \<open>Remote\<close>. A download may break with any part of the file written. No manifest
    ever points at a missing page; documents read back.
  \<^item> \<open>Db\<close>: \<^verbatim>\<open>db.py\<close>; connections, statements with one retry, transactions, migrations, for any data type.
    \<open>Schema\<close>: what the migrations of \<^verbatim>\<open>migrations/001_init.sql\<close>'s form do.
  \<^item> \<open>Jobstore\<close>: \<^verbatim>\<open>jobstore.py\<close>; the three tables, a statement per SQL text, an operation per function. The
    abstract job \<open>job_abs\<close> (status, counter, set of finished chunks) with \<open>abs_call\<close> is its
    specification, and every call refines it. At most one completion per job is told to assemble,
    whatever fails; exactly one when every chunk is completed. A completion is atomic, and leaves
    nothing open unless its rollback fails as well; what happens then is shown on a concrete run.
  \<^item> \<open>Taskqueue\<close>: \<^verbatim>\<open>taskqueue.py\<close>; message codec, topology, connections, publishing. The AMQP client is
    the record \<open>amqp_api\<close>; the locale \<open>message_broker\<close> has the laws of publishing, where a message counts
    as sent once it was written to the connection (the source asks for no confirmation), and
    \<open>delivery_broker\<close> extends it with those of delivering; both are interpreted on \<open>amqp_client\<close>.
  \<^item> \<open>Converter\<close>: \<^verbatim>\<open>converter.py\<close>; the size-limited download, the conversion primitive, and the
    cached language-model client, which cannot be told from building it anew.
  \<^item> \<open>World\<close>: the state of one process and what it is given (\<open>deps\<close>: settings, S3 and AMQP clients, HTTP,
    pypdf, markitdown, SHA-256, versions, UUIDs, environment).
  \<^item> \<open>Worker\<close>: \<^verbatim>\<open>worker.py\<close> and \<^verbatim>\<open>taskqueue.consume\<close>; source cache, conversion of a range, assembly, the
    retry decision, the handler, the consumer loop, shutdown.
  \<^item> \<open>Api\<close>: \<^verbatim>\<open>api/index.py\<close>; the key check, \<open>submit\<close> and every endpoint on parsed requests.

  \<^bold>\<open>Composition.\<close>
  \<^item> \<open>Sources\<close>: the source cache holds only complete sources, wherever a download breaks or the process
    dies during it; the planned ranges convert to exactly the
    pages of the source.
  \<^item> \<open>Assembly\<close>, \<open>Pipeline\<close>: an invariant over job row, counter, chunks and stored parts; any order and
    repetition of deliveries ends with the document of the joined parts.
  \<^item> \<open>Producer\<close>, \<open>Service\<close>, \<open>Endpoints\<close>: what a submission leaves behind and answers, the synchronous endpoint
    from request to first page, the cache hit, access control, page links.
  \<^item> \<open>Consumer\<close>: every delivery is handled, then acknowledged, on any \<open>delivery_broker\<close>; retry or failure;
    two ways in which a job is lost or misreported.
  \<^item> \<open>Fleet\<close>: any number of workers and API processes, each with a connection of its own, as an
    interleaved step relation over the phases of the handler. \<open>call_step\<close> and \<open>local_step\<close> are the handler;
    \<open>fleet_step\<close> is its environment: one writer at a time, deliveries, deaths that lose what was
    pending. It has an invariant for every reachable state, what an assembler that dies leaves
    behind, and the simulation that makes each run of \<open>handle\<close> a path of its worker.

  \<^bold>\<open>Bounds and fuel.\<close> The inner loop of \<open>paginate\<close> is a partial function, and its termination is
  characterised; where a worker would hang in it, the model raises the class \<^verbatim>\<open>Hang\<close>, which the source
  never raises. The JSON reader has fuel twice the input length plus one, which is enough for every
  text that is written (the round trips show it). The consumer loop takes the number of
  deliveries, and the polling loop of the synchronous endpoint the number of polls, as fuel; the
  theorems say how much is enough. Integers are unbounded as in Python; bytes are 8-bit words.

  \<^bold>\<open>Outside code.\<close> The S3 client, the AMQP client, HTTP, pypdf, markitdown, SHA-256 and the UUID
  source are parameters. Their documented behaviour is a locale or a named hypothesis, and each
  has a concrete instance on which the witnesses run.

  \<^bold>\<open>Not modelled.\<close> FastAPI's routing, request parsing and the content of the OpenAPI document;
  log lines and the time measurements they print; the numeric value of the two polling
  intervals; loading of \<^verbatim>\<open>.env\<close>; the locks around connection caches (each process is one thread of
  control, and threads have connections of their own); broker timeouts and heartbeats; failures of the local
  disk; a JSON value of the wrong type in a message (\<open>ill_typed\<close>), which the model refuses at decoding and
  the source accepts until the value is used, so that what is said of the consumer excludes such
  messages; whether a message that was sent reaches the broker. Deployment files have no logic of the program.
\<close>

end
